(* ===== verification/Prelude.thy ===== *)
theory Prelude
  imports Main "HOL-Library.State_Monad" "HOL-Library.Word" "HOL-Library.Sublist"
begin

text \<open>
  Prelude of the development: the types every theory names, the lemmas on state
  transformers that carry the frame and guarantee proofs, and a few facts on lists.

  A Go function that reads or changes the world is a state transformer
  \<open>('w, 'a) state\<close> of \<^verbatim>\<open>HOL-Library.State_Monad\<close>. A
  guarantee of such a function (the database moves only along legal steps, a clock never
  goes back, a trace only grows) is a relation between the world before and after, stated
  with \<open>state_io_rel\<close>. The locale \<open>guarantee\<close> proves once that such a
  relation composes along the code's sequencing and branching; it is interpreted below for
  each relation the components use.
\<close>

named_theorems guarantee_intros \<open>introduction rules of guarantees, one per construct of the code\<close>

section \<open>Shared types\<close>

type_synonym byte = "8 word"
type_synonym uuid = "128 word"

text \<open>
  An instant counts nanoseconds from Go's zero time, so \<open>time.Time{}\<close> is 0. A
  duration counts nanoseconds, as \<open>time.Duration\<close> does.
\<close>

type_synonym time = int
type_synonym duration = int

text \<open>Bytes a message carries, such as a \<open>json.RawMessage\<close>.\<close>

type_synonym raw = string

abbreviation millisecond :: duration where "millisecond \<equiv> 1000000"
abbreviation second :: duration where "second \<equiv> 1000000000"
abbreviation minute :: duration where "minute \<equiv> 60000000000"
abbreviation hour :: duration where "hour \<equiv> 3600000000000"

text \<open>The text of a UUID, \<open>uuid.UUID.String\<close>.\<close>

definition hex_digit :: "uuid \<Rightarrow> nat \<Rightarrow> char" where
  "hex_digit u k = ''0123456789abcdef'' ! unat (take_bit 4 (drop_bit (4 * k) u))"

definition uuid_String :: "uuid \<Rightarrow> string" where
  "uuid_String u =
     map (hex_digit u) (rev [24..<32]) @ ''-'' @ map (hex_digit u) (rev [20..<24]) @ ''-'' @
     map (hex_digit u) (rev [16..<20]) @ ''-'' @ map (hex_digit u) (rev [12..<16]) @ ''-'' @
     map (hex_digit u) (rev [0..<12])"

section \<open>Sequencing of state transformers\<close>

lemma run_state_if:
  "run_state (if b then m else n) s = (if b then run_state m s else run_state n s)"
  by simp

lemma run_state_sum_case:
  "run_state (case x of Inl e \<Rightarrow> f e | Inr a \<Rightarrow> g a) s =
     (case x of Inl e \<Rightarrow> run_state (f e) s | Inr a \<Rightarrow> run_state (g a) s)"
  by (cases x) simp_all

lemma run_state_option_case:
  "run_state (case x of None \<Rightarrow> m | Some a \<Rightarrow> g a) s =
     (case x of None \<Rightarrow> run_state m s | Some a \<Rightarrow> run_state (g a) s)"
  by (cases x) simp_all

lemmas run_state_cases = run_state_if run_state_sum_case run_state_option_case

lemma run_state_bindE:
  assumes "run_state (Monad_Syntax.bind m f) s = (b, s2)"
  obtains a s1 where "run_state m s = (a, s1)" and "run_state (f a) s1 = (b, s2)"
  using assms by (auto split: prod.splits)

section \<open>Guarantees\<close>

text \<open>
  A guarantee is a reflexive and transitive relation on worlds. Every law below says that a
  construct of the code keeps it when its parts do.
\<close>

locale guarantee =
  fixes R :: "'w \<Rightarrow> 'w \<Rightarrow> bool"
  assumes refl: "R w w"
    and trans: "R u v \<Longrightarrow> R v w \<Longrightarrow> R u w"
begin

lemma guarantee_return: "state_io_rel R (State_Monad.return a)"
  by (auto simp: state_io_rel_def refl)

lemma guarantee_get: "state_io_rel R State_Monad.get"
  by (auto simp: state_io_rel_def refl)

lemma guarantee_bind:
  assumes "state_io_rel R m" and "\<And>a. state_io_rel R (f a)"
  shows "state_io_rel R (Monad_Syntax.bind m f)"
proof (rule state_io_relI)
  fix b s s2
  assume "run_state (Monad_Syntax.bind m f) s = (b, s2)"
  then obtain a s1 where "run_state m s = (a, s1)" and "run_state (f a) s1 = (b, s2)"
    by (rule run_state_bindE)
  with assms have "R s s1" and "R s1 s2"
    by (blast dest: state_io_relD)+
  then show "R s s2" by (rule trans)
qed

text \<open>What follows a process may rely on what it answered.\<close>

lemma guarantee_bind_answer:
  assumes "state_io_rel R m" and "\<And>a w w'. run_state m w = (a, w') \<Longrightarrow> state_io_rel R (f a)"
  shows "state_io_rel R (Monad_Syntax.bind m f)"
proof (rule state_io_relI)
  fix b s s2
  assume "run_state (Monad_Syntax.bind m f) s = (b, s2)"
  then obtain a s1 where "run_state m s = (a, s1)" and "run_state (f a) s1 = (b, s2)"
    by (rule run_state_bindE)
  with assms have "R s s1" and "R s1 s2" by (blast dest: state_io_relD)+
  then show "R s s2" by (rule trans)
qed

lemma guarantee_if:
  assumes "b \<Longrightarrow> state_io_rel R m" and "\<not> b \<Longrightarrow> state_io_rel R n"
  shows "state_io_rel R (if b then m else n)"
  using assms by simp

lemma guarantee_sum_case:
  assumes "\<And>e. x = Inl e \<Longrightarrow> state_io_rel R (f e)" and "\<And>a. x = Inr a \<Longrightarrow> state_io_rel R (g a)"
  shows "state_io_rel R (case x of Inl e \<Rightarrow> f e | Inr a \<Rightarrow> g a)"
  using assms by (cases x) simp_all

lemma guarantee_option_case:
  assumes "x = None \<Longrightarrow> state_io_rel R m" and "\<And>a. x = Some a \<Longrightarrow> state_io_rel R (g a)"
  shows "state_io_rel R (case x of None \<Rightarrow> m | Some a \<Rightarrow> g a)"
  using assms by (cases x) simp_all

lemma guarantee_prod_case:
  assumes "\<And>a b. x = (a, b) \<Longrightarrow> state_io_rel R (f a b)"
  shows "state_io_rel R (case x of (a, b) \<Rightarrow> f a b)"
  using assms by (cases x) simp

lemma guarantee_let:
  assumes "state_io_rel R (f x)"
  shows "state_io_rel R (let y = x in f y)"
  using assms by (simp add: Let_def)

lemmas guarantee_constructs =
  guarantee_return guarantee_get guarantee_bind guarantee_if guarantee_sum_case
  guarantee_option_case guarantee_prod_case guarantee_let

lemma guarantee_run:
  assumes "state_io_rel R m" and "run_state m s = (a, s')"
  shows "R s s'"
  using assms by (rule state_io_relD)

end

section \<open>Lists\<close>

lemma find_Some_in: "List.find p xs = Some x \<Longrightarrow> x \<in> set xs \<and> p x"
  by (auto simp: find_Some_iff)

lemma find_None_notin: "List.find p xs = None \<Longrightarrow> x \<in> set xs \<Longrightarrow> \<not> p x"
  by (auto simp: find_None_iff)

lemma distinct_map_eq:
  assumes "distinct (map f xs)" and "x \<in> set xs" and "y \<in> set xs" and "f x = f y"
  shows "x = y"
  using assms by (meson distinct_map inj_onD)

lemma find_unique:
  assumes "distinct (map f xs)" and "x \<in> set xs" and "p x" and "\<And>y. p y \<Longrightarrow> f y = f x"
  shows "List.find p xs = Some x"
proof (cases "List.find p xs")
  case None
  with assms(2,3) show ?thesis by (auto simp: find_None_iff)
next
  case (Some y)
  then have "y \<in> set xs" and "p y" by (auto dest: find_Some_in)
  then have "y = x" using distinct_map_eq [OF assms(1) _ assms(2)] assms(4) by blast
  with Some show ?thesis by simp
qed

lemma find_map_same:
  assumes "\<And>x. x \<in> set xs \<Longrightarrow> p (f x) = p x"
  shows "List.find p (map f xs) = map_option f (List.find p xs)"
  using assms by (induction xs) auto

lemma find_cong_set:
  assumes "\<And>x. x \<in> set xs \<Longrightarrow> p x = q x"
  shows "List.find p xs = List.find q xs"
  using assms by (induction xs) auto

text \<open>What a limit leaves out comes no sooner than what it takes.\<close>

lemma take_sorted_before:
  assumes "sorted (map f xs)" and "x \<in> set (take n xs)" and "y \<in> set xs" and "y \<notin> set (take n xs)"
  shows "f x \<le> f y"
proof -
  have "y \<in> set (drop n xs)" using assms(3,4) by (metis Un_iff append_take_drop_id set_append)
  moreover have "sorted (map f (take n xs) @ map f (drop n xs))"
    using assms(1) by (simp flip: map_append)
  ultimately show ?thesis using assms(2) by (auto simp: sorted_append)
qed

end
