(* ===== verification/Errors.thy ===== *)
theory Errors
  imports Prelude
begin

text \<open>
  The error values of the program. A Go error is a tree: a sentinel, a typed error, or a
  wrapping of other errors by \<open>fmt.Errorf\<close> and \<open>errors.Join\<close>.
  \<open>err_is\<close> is \<open>errors.Is\<close> against a sentinel, and the \<open>as_\<close>
  functions are \<open>errors.As\<close> for each typed error: both search the tree depth first.
  \<open>err_text\<close> is the text of the error, which the logs and the callers read.
\<close>

section \<open>Sentinels and typed errors\<close>

datatype sentinel =
    ErrGenerationChanged
  | ErrRefused
  | ErrGenerationGetNotFound
  | ErrGenerationNotCancellable
  | ErrGenerationUsageExists
  | ErrGenerationSweepLocked
  | ErrSweepLockInTransaction
  | ErrSweepLockNotHeld
  | ErrNoRows
  | ErrRetryable
  | ErrStartAmbiguous
  | ErrProviderUnknown
  | ErrModeUnsupported
  | ErrStreamUnavailable
  | ErrResponseTooLarge
  | ErrNotConfigured
  | ErrInvalidRequest
  | ErrUsageCapReached
  | ErrGenerationNotStreamed
  | ErrSweepDeadlineTooShort
  | ErrInvalidConfig
  | ErrServiceTokenIssuerRequired
  | ErrDeadlineExceeded
  | ErrTooLong

fun sentinel_text :: "sentinel \<Rightarrow> string" where
  "sentinel_text ErrGenerationChanged = ''generation changed before the transition''"
| "sentinel_text ErrRefused = ''values refused by the database''"
| "sentinel_text ErrGenerationGetNotFound = ''generation not found''"
| "sentinel_text ErrGenerationNotCancellable = ''generation cannot be cancelled''"
| "sentinel_text ErrGenerationUsageExists = ''usage already recorded for this attempt''"
| "sentinel_text ErrGenerationSweepLocked = ''another sweep holds the leader role''"
| "sentinel_text ErrSweepLockInTransaction =
     ''the sweep's leader role needs a connection pool, not a transaction''"
| "sentinel_text ErrSweepLockNotHeld = ''the session held no sweep leader role''"
| "sentinel_text ErrNoRows = ''sql: no rows in result set''"
| "sentinel_text ErrRetryable = ''retryable provider failure''"
| "sentinel_text ErrStartAmbiguous = ''provider start outcome is ambiguous''"
| "sentinel_text ErrProviderUnknown = ''unknown provider''"
| "sentinel_text ErrModeUnsupported = ''provider does not support this mode''"
| "sentinel_text ErrStreamUnavailable = ''provider does not stream this operation''"
| "sentinel_text ErrResponseTooLarge = ''provider response too large''"
| "sentinel_text ErrNotConfigured = ''provider base URL and API key are required''"
| "sentinel_text ErrInvalidRequest = ''invalid request''"
| "sentinel_text ErrUsageCapReached = ''usage cap reached''"
| "sentinel_text ErrGenerationNotStreamed = ''generation not submitted for streaming''"
| "sentinel_text ErrSweepDeadlineTooShort = ''deadline too short for a sweep''"
| "sentinel_text ErrInvalidConfig = ''invalid configuration''"
| "sentinel_text ErrServiceTokenIssuerRequired = ''service token issuer required''"
| "sentinel_text ErrDeadlineExceeded = ''context deadline exceeded''"
| "sentinel_text ErrTooLong = ''bufio.Scanner: token too long''"

text \<open>
  \<open>usage_cap_error\<close> is core's \<open>UsageCapError\<close>. \<open>api_error\<close> holds
  the fields of the SDK's \<open>openai.Error\<close> the connector reads: the HTTP status, the
  provider's error code and message, and the raw error object it unwrapped.
\<close>

record usage_cap_error =
  cap_scope :: string
  cap_limit :: string
  cap_retry_after :: duration
  cap_reason :: string

record api_error =
  api_status :: int
  api_code :: string
  api_message :: string
  api_raw :: raw

text \<open>
  \<open>External\<close> is an error of code the repository only calls, with its text.
  \<open>PgError\<close> is the database driver's, with its SQLSTATE. \<open>Wrap p e\<close> is
  \<open>fmt.Errorf("p: %w", e)\<close>, \<open>Wrap2 d e\<close> is \<open>fmt.Errorf("%w: %w", d, e)\<close>,
  \<open>Annotate e s\<close> is \<open>fmt.Errorf("%w: s", e)\<close> and \<open>Join d e\<close> is
  \<open>errors.Join(d, e)\<close>. \<open>Panic\<close> is a run-time panic.
\<close>

datatype goerr =
    Sentinel sentinel
  | External string
  | PgError string string
  | ApiError api_error
  | Oversized
  | Rejection "raw option" goerr
  | UsageCap usage_cap_error
  | Wrap string goerr
  | Wrap2 goerr goerr
  | Annotate goerr string
  | Join goerr goerr
  | Panic string

section \<open>errors.Is, errors.As and the text\<close>

fun err_is :: "sentinel \<Rightarrow> goerr \<Rightarrow> bool" where
  "err_is s (Sentinel t) = (s = t)"
| "err_is s (Rejection r e) = err_is s e"
| "err_is s (UsageCap u) = (s = ErrUsageCapReached)"
| "err_is s (Wrap p e) = err_is s e"
| "err_is s (Wrap2 d e) = (err_is s d \<or> err_is s e)"
| "err_is s (Annotate e t) = err_is s e"
| "err_is s (Join d e) = (err_is s d \<or> err_is s e)"
| "err_is s _ = False"

fun err_text :: "goerr \<Rightarrow> string" where
  "err_text (Sentinel s) = sentinel_text s"
| "err_text (External t) = t"
| "err_text (PgError code t) = t"
| "err_text (ApiError a) = api_raw a"
| "err_text Oversized = ''http: request body too large''"
| "err_text (Rejection r e) = ''provider rejected the request: '' @ err_text e"
| "err_text (UsageCap u) = sentinel_text ErrUsageCapReached @ '': '' @ cap_reason u"
| "err_text (Wrap p e) = p @ '': '' @ err_text e"
| "err_text (Wrap2 d e) = err_text d @ '': '' @ err_text e"
| "err_text (Annotate e t) = err_text e @ '': '' @ t"
| "err_text (Join d e) = err_text d @ [CHR 10] @ err_text e"
| "err_text (Panic t) = t"

fun first_of :: "'a option \<Rightarrow> 'a option \<Rightarrow> 'a option" where
  "first_of (Some a) y = Some a"
| "first_of None y = y"

fun as_rejection :: "goerr \<Rightarrow> raw option option" where
  "as_rejection (Rejection r e) = Some r"
| "as_rejection (Wrap p e) = as_rejection e"
| "as_rejection (Wrap2 d e) = first_of (as_rejection d) (as_rejection e)"
| "as_rejection (Annotate e t) = as_rejection e"
| "as_rejection (Join d e) = first_of (as_rejection d) (as_rejection e)"
| "as_rejection _ = None"

fun as_api :: "goerr \<Rightarrow> api_error option" where
  "as_api (ApiError a) = Some a"
| "as_api (Rejection r e) = as_api e"
| "as_api (Wrap p e) = as_api e"
| "as_api (Wrap2 d e) = first_of (as_api d) (as_api e)"
| "as_api (Annotate e t) = as_api e"
| "as_api (Join d e) = first_of (as_api d) (as_api e)"
| "as_api _ = None"

fun as_oversized :: "goerr \<Rightarrow> bool" where
  "as_oversized Oversized = True"
| "as_oversized (Rejection r e) = as_oversized e"
| "as_oversized (Wrap p e) = as_oversized e"
| "as_oversized (Wrap2 d e) = (as_oversized d \<or> as_oversized e)"
| "as_oversized (Annotate e t) = as_oversized e"
| "as_oversized (Join d e) = (as_oversized d \<or> as_oversized e)"
| "as_oversized _ = False"

fun as_usage_cap :: "goerr \<Rightarrow> usage_cap_error option" where
  "as_usage_cap (UsageCap u) = Some u"
| "as_usage_cap (Rejection r e) = as_usage_cap e"
| "as_usage_cap (Wrap p e) = as_usage_cap e"
| "as_usage_cap (Wrap2 d e) = first_of (as_usage_cap d) (as_usage_cap e)"
| "as_usage_cap (Annotate e t) = as_usage_cap e"
| "as_usage_cap (Join d e) = first_of (as_usage_cap d) (as_usage_cap e)"
| "as_usage_cap _ = None"

fun as_pg :: "goerr \<Rightarrow> string option" where
  "as_pg (PgError code t) = Some code"
| "as_pg (Rejection r e) = as_pg e"
| "as_pg (Wrap p e) = as_pg e"
| "as_pg (Wrap2 d e) = first_of (as_pg d) (as_pg e)"
| "as_pg (Annotate e t) = as_pg e"
| "as_pg (Join d e) = first_of (as_pg d) (as_pg e)"
| "as_pg _ = None"

lemma as_usage_cap_is: "as_usage_cap e = Some u \<Longrightarrow> err_is ErrUsageCapReached e"
proof (induction e)
  case (Wrap2 d e)
  then show ?case by (cases "as_usage_cap d") auto
next
  case (Join d e)
  then show ?case by (cases "as_usage_cap d") auto
qed auto

section \<open>dao/common.go\<close>

text \<open>
  \<open>refused\<close> joins \<open>ErrRefused\<close> to an error the database raised for a
  statement's values, by the class of its SQLSTATE.
\<close>

definition refusedClasses :: "string list" where
  "refusedClasses = [''22'', ''23'', ''54'']"

definition refused :: "goerr \<Rightarrow> goerr" where
  "refused err =
     (case as_pg err of
        None \<Rightarrow> err
      | Some code \<Rightarrow>
          if \<exists>class \<in> set refusedClasses. prefix class code then Join err (Sentinel ErrRefused)
          else err)"

lemma err_is_refused: "s \<noteq> ErrRefused \<Longrightarrow> err_is s (refused err) = err_is s err"
  by (simp add: refused_def split: option.splits)

lemma err_is_refused_ErrRefused:
  "err_is ErrRefused (refused err) \<longleftrightarrow>
     err_is ErrRefused err \<or>
     (\<exists>code. as_pg err = Some code \<and> (\<exists>class \<in> set refusedClasses. prefix class code))"
  by (auto simp: refused_def split: option.splits)

end
