(* ===== verification/Tables.thy ===== *)
theory Tables
  imports Errors
begin

text \<open>
  The rows the service keeps, as the \<^verbatim>\<open>dao\<close> package's models name them, the
  constraints the schema puts on them, and each SQL statement of the package as a function
  from the tables to its answer and the tables after it.

  A statement that reads the clock takes the instant as its argument: \<open>now\<close> is
  \<open>clock_timestamp()\<close> and \<open>txn\<close> is \<open>CURRENT_TIMESTAMP\<close>, the
  start of the transaction. A statement the schema refuses answers the driver's error and
  changes nothing. One that returns no row answers \<open>sql.ErrNoRows\<close>, as bun's scan
  does.
\<close>

section \<open>Rows\<close>

datatype generation_status = Pending | Running | Succeeded | Failed | Cancelled

datatype generation_failure = Rejected | ProviderFailed | NotStarted | OutcomeUnknown

record generation =
  gen_id :: uuid
  gen_owner_id :: uuid
  gen_purpose :: string
  gen_provider :: string
  gen_request_key :: "byte list"
  gen_error :: "string option"
  gen_failure :: "generation_failure option"
  gen_status :: generation_status
  gen_start_requested_at :: "time option"
  gen_provider_call_id :: "string option"
  gen_cancel_requested_at :: "time option"
  gen_read_at :: time
  gen_traceparent :: "string option"
  gen_outcome_unknown_at :: "time option"
  gen_streamed :: bool
  gen_created_at :: time
  gen_updated_at :: time
  gen_settled_at :: "time option"
  gen_expires_at :: "time option"

record generation_attempt =
  att_generation_id :: uuid
  att_attempt :: int
  att_response :: raw
  att_created_at :: time

record generation_usage =
  usg_generation_id :: uuid
  usg_attempt :: int
  usg_owner_id :: uuid
  usg_purpose :: string
  usg_provider :: string
  usg_model :: string
  usg_class :: string
  usg_tier :: "string option"
  usg_input_tokens :: int
  usg_cached_input_tokens :: int
  usg_cache_write_tokens :: int
  usg_output_tokens :: int
  usg_reasoning_tokens :: int
  usg_started_at :: time
  usg_completed_at :: "time option"
  usg_created_at :: time

text \<open>
  \<open>json_ok\<close> says which bytes the \<open>json\<close> column of an attempt can hold: it is
  PostgreSQL's own check, a parameter of the model that no statement changes.
  \<open>sweep_leader\<close> is the session holding the sweep's advisory lock.
\<close>

record database =
  generations :: "generation list"
  attempts :: "generation_attempt list"
  usages :: "generation_usage list"
  sweep_leader :: "nat option"
  json_ok :: "raw \<Rightarrow> bool"

definition live_status :: "generation_status \<Rightarrow> bool" where
  "live_status s \<longleftrightarrow> s = Pending \<or> s = Running"

definition terminal_status :: "generation_status \<Rightarrow> bool" where
  "terminal_status s \<longleftrightarrow> s = Succeeded \<or> s = Failed \<or> s = Cancelled"

lemma terminal_iff_not_live [simp]: "terminal_status s \<longleftrightarrow> \<not> live_status s"
  by (cases s) (auto simp: live_status_def terminal_status_def)

text \<open>The partial unique index on the request key covers these rows.\<close>

definition keyed :: "generation \<Rightarrow> bool" where
  "keyed g \<longleftrightarrow> gen_status g \<noteq> Failed \<and> gen_status g \<noteq> Cancelled"

section \<open>Constraints\<close>

text \<open>The \<open>CHECK\<close> constraints of the \<open>generations\<close> table.\<close>

definition generation_row_check :: "generation \<Rightarrow> bool" where
  "generation_row_check g \<longleftrightarrow>
     gen_purpose g \<noteq> [] \<and> gen_provider g \<noteq> [] \<and>
     gen_error g \<noteq> Some [] \<and> gen_provider_call_id g \<noteq> Some [] \<and>
     (live_status (gen_status g) \<longrightarrow>
        (gen_status g = Running) = (gen_provider_call_id g \<noteq> None)) \<and>
     (terminal_status (gen_status g) =
        (gen_settled_at g \<noteq> None \<and> gen_expires_at g \<noteq> None)) \<and>
     (gen_failure g \<noteq> None \<longrightarrow> gen_status g = Failed) \<and>
     (gen_outcome_unknown_at g \<noteq> None \<longrightarrow> gen_status g = Failed)"

definition max_bigint :: int where
  "max_bigint = 9223372036854775807"

text \<open>The \<open>CHECK\<close> constraints of the \<open>generation_usage\<close> table.\<close>

definition usage_check :: "generation_usage \<Rightarrow> bool" where
  "usage_check u \<longleftrightarrow>
     1 \<le> usg_attempt u \<and> usg_purpose u \<noteq> [] \<and> usg_provider u \<noteq> [] \<and>
     usg_model u \<noteq> [] \<and> usg_class u \<noteq> [] \<and> usg_tier u \<noteq> Some [] \<and>
     0 \<le> usg_input_tokens u \<and> 0 \<le> usg_cached_input_tokens u \<and>
     0 \<le> usg_cache_write_tokens u \<and> 0 \<le> usg_output_tokens u \<and>
     0 \<le> usg_reasoning_tokens u \<and>
     usg_cached_input_tokens u \<le> usg_input_tokens u \<and>
     usg_reasoning_tokens u \<le> usg_output_tokens u"

abbreviation check_violation :: goerr where
  "check_violation \<equiv> PgError ''23514'' ''check constraint violated''"
abbreviation foreign_key_violation :: goerr where
  "foreign_key_violation \<equiv> PgError ''23503'' ''foreign key constraint violated''"
abbreviation unique_violation :: goerr where
  "unique_violation \<equiv> PgError ''23505'' ''unique constraint violated''"
abbreviation invalid_text :: goerr where
  "invalid_text \<equiv> PgError ''22P02'' ''invalid input syntax''"
abbreviation out_of_range :: goerr where
  "out_of_range \<equiv> PgError ''22003'' ''numeric value out of range''"

section \<open>Statements\<close>

type_synonym 'a statement = "database \<Rightarrow> (goerr + 'a) \<times> database"

text \<open>\<open>UPDATE generations \<dots> WHERE p RETURNING\<close>, with the constraint check.\<close>

definition update_generation ::
  "(generation \<Rightarrow> bool) \<Rightarrow> (generation \<Rightarrow> generation) \<Rightarrow> time \<Rightarrow> generation statement" where
  "update_generation p f read db =
     (case List.find p (generations db) of
        None \<Rightarrow> (Inl (Sentinel ErrNoRows), db)
      | Some g \<Rightarrow>
          if generation_row_check (f g)
          then (Inr ((f g)\<lparr>gen_read_at := read\<rparr>),
                db\<lparr>generations := map (\<lambda>r. if p r then f r else r) (generations db)\<rparr>)
          else (Inl check_violation, db))"

subsection \<open>generations\<close>

record submit_request =
  sub_id :: uuid
  sub_owner_id :: uuid
  sub_purpose :: string
  sub_provider :: string
  sub_request_key :: "byte list"
  sub_traceparent :: "string option"
  sub_streamed :: bool

definition new_row :: "time \<Rightarrow> submit_request \<Rightarrow> generation" where
  "new_row now r =
     \<lparr>gen_id = sub_id r, gen_owner_id = sub_owner_id r, gen_purpose = sub_purpose r,
      gen_provider = sub_provider r, gen_request_key = sub_request_key r, gen_error = None,
      gen_failure = None, gen_status = Pending, gen_start_requested_at = Some now,
      gen_provider_call_id = None, gen_cancel_requested_at = None, gen_read_at = 0,
      gen_traceparent = sub_traceparent r, gen_outcome_unknown_at = None,
      gen_streamed = sub_streamed r, gen_created_at = now, gen_updated_at = now,
      gen_settled_at = None, gen_expires_at = None\<rparr>"

definition sql_submit :: "time \<Rightarrow> submit_request \<Rightarrow> generation statement" where
  "sql_submit now r db =
     (if \<not> generation_row_check (new_row now r) then (Inl check_violation, db)
      else case List.find (\<lambda>g. keyed g \<and> gen_request_key g = sub_request_key r) (generations db) of
        Some g \<Rightarrow> (Inr g, db)
      | None \<Rightarrow>
          if sub_id r \<in> gen_id ` set (generations db) then (Inl unique_violation, db)
          else (Inr (new_row now r), db\<lparr>generations := generations db @ [new_row now r]\<rparr>))"

definition sql_get :: "time \<Rightarrow> uuid \<Rightarrow> uuid \<Rightarrow> generation statement" where
  "sql_get now i owner db =
     (case List.find (\<lambda>g. gen_id g = i \<and> gen_owner_id g = owner) (generations db) of
        None \<Rightarrow> (Inl (Sentinel ErrNoRows), db)
      | Some g \<Rightarrow> (Inr (g\<lparr>gen_read_at := now\<rparr>), db))"

definition sql_record :: "time \<Rightarrow> uuid \<Rightarrow> string \<Rightarrow> generation statement" where
  "sql_record now i call =
     update_generation
       (\<lambda>g. gen_id g = i \<and> gen_status g = Pending \<and> gen_start_requested_at g \<noteq> None)
       (\<lambda>g. g\<lparr>gen_provider_call_id := Some call, gen_status := Running, gen_updated_at := now\<rparr>)
       now"

record cancel_request =
  can_id :: uuid
  can_owner_id :: uuid
  can_error :: string
  can_retention :: duration

definition cancel_row :: "time \<Rightarrow> cancel_request \<Rightarrow> generation \<Rightarrow> generation" where
  "cancel_row now r g =
     (let unstarted = gen_start_requested_at g = None in
      g\<lparr>gen_cancel_requested_at :=
           (case gen_cancel_requested_at g of None \<Rightarrow> Some now | Some t \<Rightarrow> Some t),
         gen_status := (if unstarted then Cancelled else gen_status g),
         gen_error := (if unstarted then Some (can_error r) else gen_error g),
         gen_settled_at := (if unstarted then Some now else None),
         gen_expires_at := (if unstarted then Some (now + can_retention r) else None),
         gen_updated_at := now\<rparr>)"

definition sql_request_cancel :: "time \<Rightarrow> cancel_request \<Rightarrow> generation statement" where
  "sql_request_cancel now r =
     update_generation
       (\<lambda>g. gen_id g = can_id r \<and> gen_owner_id g = can_owner_id r \<and> live_status (gen_status g))
       (cancel_row now r) now"

record settle_request =
  set_id :: uuid
  set_start_requested_at :: "time option"
  set_provider_call_id :: "string option"
  set_status :: generation_status
  set_error :: "string option"
  set_failure :: "generation_failure option"
  set_retention :: duration
  set_outcome_unknown :: bool

definition settle_row :: "time \<Rightarrow> settle_request \<Rightarrow> generation \<Rightarrow> generation" where
  "settle_row now r g =
     g\<lparr>gen_status := set_status r, gen_error := set_error r, gen_failure := set_failure r,
       gen_settled_at := Some now, gen_expires_at := Some (now + set_retention r),
       gen_outcome_unknown_at := (if set_outcome_unknown r then Some now else None),
       gen_updated_at := now\<rparr>"

text \<open>The row a settle matches: the fence is the start and the call its caller observed.\<close>

definition settle_match :: "settle_request \<Rightarrow> generation \<Rightarrow> bool" where
  "settle_match r g \<longleftrightarrow>
     gen_id g = set_id r \<and> gen_provider_call_id g = set_provider_call_id r \<and>
     gen_start_requested_at g = set_start_requested_at r \<and> live_status (gen_status g)"

definition sql_settle :: "time \<Rightarrow> settle_request \<Rightarrow> generation statement" where
  "sql_settle now r = update_generation (settle_match r) (settle_row now r) 0"

definition sql_sweep :: "time \<Rightarrow> uuid \<Rightarrow> nat \<Rightarrow> generation list statement" where
  "sql_sweep now after limit db =
     (Inr (map (\<lambda>g. g\<lparr>gen_read_at := now\<rparr>)
        (take limit (sort_key gen_id
          (filter (\<lambda>g. live_status (gen_status g) \<and> after < gen_id g) (generations db))))), db)"

definition count_live :: "time \<Rightarrow> uuid \<Rightarrow> string \<Rightarrow> duration \<Rightarrow> database \<Rightarrow> int" where
  "count_live txn owner purpose window db =
     int (length (filter
       (\<lambda>g. gen_owner_id g = owner \<and> gen_purpose g = purpose \<and>
            (live_status (gen_status g) \<or>
             (case gen_outcome_unknown_at g of None \<Rightarrow> False | Some t \<Rightarrow> txn - window < t)))
       (generations db)))"

definition sql_count_live ::
  "time \<Rightarrow> uuid \<Rightarrow> string \<Rightarrow> duration \<Rightarrow> int statement" where
  "sql_count_live txn owner purpose window db = (Inr (count_live txn owner purpose window db), db)"

definition sql_queue_depth :: "time \<Rightarrow> (int \<times> duration) statement" where
  "sql_queue_depth txn db =
     (let pending = filter (\<lambda>g. gen_status g = Pending) (generations db) in
      (Inr (int (length pending),
            (case pending of
               [] \<Rightarrow> 0
             | _ \<Rightarrow> max (txn - Min (gen_created_at ` set pending)) 0)), db))"

subsection \<open>generation_attempts\<close>

definition sql_attempt_insert :: "time \<Rightarrow> uuid \<Rightarrow> raw \<Rightarrow> generation_attempt statement" where
  "sql_attempt_insert now i response db =
     (let row = \<lparr>att_generation_id = i, att_attempt = 1, att_response = response,
                 att_created_at = now\<rparr> in
      if \<not> json_ok db response then (Inl invalid_text, db)
      else if (i, 1) \<in> (\<lambda>a. (att_generation_id a, att_attempt a)) ` set (attempts db)
      then (Inl unique_violation, db)
      else if i \<notin> gen_id ` set (generations db) then (Inl foreign_key_violation, db)
      else (Inr (row\<lparr>att_response := []\<rparr>), db\<lparr>attempts := attempts db @ [row]\<rparr>))"

definition sql_attempt_list :: "uuid \<Rightarrow> generation_attempt list statement" where
  "sql_attempt_list i db =
     (Inr (take 100 (sort_key att_attempt
        (filter (\<lambda>a. att_generation_id a = i) (attempts db)))), db)"

subsection \<open>generation_usage\<close>

definition sql_usage_insert :: "time \<Rightarrow> generation_usage \<Rightarrow> generation_usage statement" where
  "sql_usage_insert now u db =
     (let row = u\<lparr>usg_attempt := 1, usg_created_at := now\<rparr> in
      if \<not> usage_check row then (Inl check_violation, db)
      else if (usg_generation_id row, 1) \<in> (\<lambda>v. (usg_generation_id v, usg_attempt v)) ` set (usages db)
      then (Inl (Sentinel ErrNoRows), db)
      else (Inr row, db\<lparr>usages := usages db @ [row]\<rparr>))"

record usage_totals =
  tot_input_tokens :: int
  tot_output_tokens :: int
  tot_oldest_at :: "time option"

definition window_records ::
  "time \<Rightarrow> uuid \<Rightarrow> string \<Rightarrow> duration \<Rightarrow> database \<Rightarrow> generation_usage list" where
  "window_records txn owner purpose window db =
     filter (\<lambda>u. usg_owner_id u = owner \<and> usg_purpose u = purpose \<and>
                 txn - window < usg_created_at u) (usages db)"

definition window_totals ::
  "time \<Rightarrow> uuid \<Rightarrow> string \<Rightarrow> database \<Rightarrow> duration \<Rightarrow> usage_totals" where
  "window_totals txn owner purpose db window =
     (let us = window_records txn owner purpose window db in
      \<lparr>tot_input_tokens = sum_list (map usg_input_tokens us),
       tot_output_tokens = sum_list (map usg_output_tokens us),
       tot_oldest_at =
         (case us of [] \<Rightarrow> None | _ \<Rightarrow> Some (Min (usg_created_at ` set us)))\<rparr>)"

text \<open>The sums are cast to \<open>bigint\<close>, which refuses one past its range.\<close>

definition totals_fit :: "usage_totals \<Rightarrow> bool" where
  "totals_fit t \<longleftrightarrow> tot_input_tokens t \<le> max_bigint \<and> tot_output_tokens t \<le> max_bigint"

definition sql_usage_sum ::
  "time \<Rightarrow> uuid \<Rightarrow> string \<Rightarrow> duration list \<Rightarrow> usage_totals list statement" where
  "sql_usage_sum txn owner purpose windows db =
     (let totals = map (window_totals txn owner purpose db) windows in
      (if \<forall>t \<in> set totals. totals_fit t then Inr totals else Inl out_of_range, db))"

subsection \<open>The sweep's advisory lock and the purge\<close>

definition sql_sweep_lock :: "nat \<Rightarrow> bool statement" where
  "sql_sweep_lock session db =
     (case sweep_leader db of
        None \<Rightarrow> (Inr True, db\<lparr>sweep_leader := Some session\<rparr>)
      | Some s \<Rightarrow> (Inr (s = session), db))"

definition sql_sweep_unlock :: "nat \<Rightarrow> bool statement" where
  "sql_sweep_unlock session db =
     (if sweep_leader db = Some session then (Inr True, db\<lparr>sweep_leader := None\<rparr>)
      else (Inr False, db))"

definition expired :: "time \<Rightarrow> generation \<Rightarrow> bool" where
  "expired txn g \<longleftrightarrow> (case gen_expires_at g of None \<Rightarrow> False | Some t \<Rightarrow> t < txn)"

text \<open>
  The purge deletes expired rows and, by the foreign key, their attempts. Which of them one
  run takes is its byte budget's and its batch's choice: \<open>chosen\<close> is that choice.
\<close>

definition sql_purge :: "time \<Rightarrow> uuid set \<Rightarrow> database \<Rightarrow> database" where
  "sql_purge txn chosen db =
     (let gone = gen_id ` {g \<in> set (generations db). expired txn g \<and> gen_id g \<in> chosen} in
      db\<lparr>generations := filter (\<lambda>g. gen_id g \<notin> gone) (generations db),
         attempts := filter (\<lambda>a. att_generation_id a \<notin> gone) (attempts db)\<rparr>)"

end
