(* ===== verification/World.thy ===== *)
theory World
  imports Tables
begin

text \<open>
  The world a Go function runs in, and what happens around it.

  Several processes share the database: replicas serving submits, polls and cancels, the
  sweep, and the retention purge. The model follows one of them. Everything outside it comes
  from a schedule, the list \<open>w_sched\<close> of slots: before each interaction of the code
  with the outside, the next slot says which transactions other processes committed
  meanwhile, how much time passed on each clock, how long the interaction takes, and whether
  it fails. A statement can fail without landing (\<open>Lost\<close>) or land while its
  answer is lost (\<open>Landed\<close>). A theorem about every schedule is a theorem about every
  interleaving with other processes and every such failure.

  The database clock and the process clock are two clocks that advance separately.

  \<open>db_step\<close> names the transactions any process may commit, and \<open>db_run\<close>
  the database's history between two instants. The last section states the contract of the
  transactor, a library outside the repository, as a locale.
\<close>

section \<open>Transactions of the program\<close>

text \<open>
  What \<open>GenerationCheck.commit\<close> writes in one transaction: the settle, the
  provider's answer when it gave one, and what the call consumed when it reported it. Usage
  already recorded for the attempt is no failure. The three statements read the clock at
  \<open>now\<close>, \<open>ta\<close> and \<open>tu\<close>.
\<close>

definition settle_transaction ::
  "time \<Rightarrow> time \<Rightarrow> time \<Rightarrow> settle_request \<Rightarrow> raw option \<Rightarrow> generation_usage option \<Rightarrow>
   database \<Rightarrow> (goerr + generation) \<times> database" where
  "settle_transaction now ta tu r response usage db =
     (case sql_settle now r db of
        (Inl e, _) \<Rightarrow> (Inl e, db)
      | (Inr g, db1) \<Rightarrow>
          (case (case response of None \<Rightarrow> (None, db1)
                 | Some bytes \<Rightarrow>
                     (case sql_attempt_insert ta (set_id r) bytes db1 of
                        (Inl e, _) \<Rightarrow> (Some e, db1) | (Inr _, db2) \<Rightarrow> (None, db2)))
           of (Some e, _) \<Rightarrow> (Inl e, db)
            | (None, db2) \<Rightarrow>
                (case usage of None \<Rightarrow> (Inr g, db2)
                 | Some u \<Rightarrow>
                     (case sql_usage_insert tu u db2 of
                        (Inl e, _) \<Rightarrow>
                          if e = Sentinel ErrNoRows then (Inr g, db2) else (Inl e, db)
                      | (Inr _, db3) \<Rightarrow> (Inr g, db3)))))"

datatype transaction =
    TxSubmit submit_request
  | TxRecord uuid string
  | TxCancel cancel_request
  | TxSettle settle_request "raw option" "generation_usage option"
  | TxUsage generation_usage
  | TxPurge "uuid list"
  | TxLock nat
  | TxUnlock nat

fun apply_transaction :: "time \<Rightarrow> transaction \<Rightarrow> database \<Rightarrow> database" where
  "apply_transaction now (TxSubmit r) db = snd (sql_submit now r db)"
| "apply_transaction now (TxRecord i call) db = snd (sql_record now i call db)"
| "apply_transaction now (TxCancel r) db = snd (sql_request_cancel now r db)"
| "apply_transaction now (TxSettle r response usage) db =
     snd (settle_transaction now now now r response usage db)"
| "apply_transaction now (TxUsage u) db = snd (sql_usage_insert now u db)"
| "apply_transaction now (TxPurge chosen) db = sql_purge now (set chosen) db"
| "apply_transaction now (TxLock s) db = snd (sql_sweep_lock s db)"
| "apply_transaction now (TxUnlock s) db = snd (sql_sweep_unlock s db)"

text \<open>One transaction committed by some process at an instant of the database clock.\<close>

inductive db_step :: "time \<Rightarrow> database \<Rightarrow> database \<Rightarrow> bool" where
  submitted: "sql_submit now r db = (Inr g, db') \<Longrightarrow> db_step now db db'"
| recorded: "sql_record now i call db = (Inr g, db') \<Longrightarrow> db_step now db db'"
| cancel_requested: "sql_request_cancel now r db = (Inr g, db') \<Longrightarrow> db_step now db db'"
| settled: "settle_transaction now ta tu r response usage db = (Inr g, db') \<Longrightarrow> db_step now db db'"
| metered: "sql_usage_insert now u db = (Inr v, db') \<Longrightarrow> db_step now db db'"
| purged: "db_step now db (sql_purge now chosen db)"
| locked: "sql_sweep_lock s db = (Inr b, db') \<Longrightarrow> db_step now db db'"
| unlocked: "sql_sweep_unlock s db = (Inr b, db') \<Longrightarrow> db_step now db db'"

text \<open>The database's history from one instant of its clock to another.\<close>

inductive db_run :: "time \<Rightarrow> database \<Rightarrow> time \<Rightarrow> database \<Rightarrow> bool" for s db0 where
  idle: "s \<le> t \<Longrightarrow> db_run s db0 t db0"
| step: "db_run s db0 t db \<Longrightarrow> db_step now db db' \<Longrightarrow> t \<le> now \<Longrightarrow> now \<le> u \<Longrightarrow> db_run s db0 u db'"

lemma db_run_later: "db_run s db t db' \<Longrightarrow> t \<le> u \<Longrightarrow> db_run s db u db'"
proof (induction rule: db_run.induct)
  case (idle t)
  then show ?case by (auto intro: db_run.idle)
next
  case (step t db now db' v)
  from step.hyps step.prems show ?case by (auto intro: db_run.step)
qed

lemma db_run_refl: "db_run s db s db"
  by (simp add: db_run.idle)

lemma db_run_trans: "db_run t db1 u db2 \<Longrightarrow> db_run s db0 t db1 \<Longrightarrow> db_run s db0 u db2"
proof (induction rule: db_run.induct)
  case (idle u)
  then show ?case by (auto intro: db_run_later)
next
  case (step t1 db now db' v)
  then show ?case by (auto intro: db_run.step)
qed

lemma db_run_single: "db_step now db db' \<Longrightarrow> s \<le> now \<Longrightarrow> now \<le> t \<Longrightarrow> db_run s db t db'"
  by (rule db_run.step [OF db_run.idle]) auto

lemma db_run_maybe:
  "db' = db \<or> db_step now db db' \<Longrightarrow> s \<le> now \<Longrightarrow> now \<le> t \<Longrightarrow> db_run s db t db'"
  by (auto intro: db_run_single db_run.idle)

lemma db_run_clock: "db_run s db t db' \<Longrightarrow> s \<le> t"
  by (induction rule: db_run.induct) auto

text \<open>A statement that answers an error left the tables as they were.\<close>

lemma update_generation_failed:
  "update_generation p f read db = (Inl e, db') \<Longrightarrow> db' = db"
  by (auto simp: update_generation_def split: option.splits if_splits)

lemma settle_transaction_failed:
  "settle_transaction now ta tu r response usage db = (Inl e, db') \<Longrightarrow> db' = db"
  unfolding settle_transaction_def
  by (auto simp del: split_paired_Ex split: prod.splits sum.splits option.splits if_splits)

lemma submit_failed: "sql_submit now r db = (Inl e, db') \<Longrightarrow> db' = db"
  by (auto simp: sql_submit_def split: option.splits if_splits)

lemma usage_insert_failed: "sql_usage_insert now u db = (Inl e, db') \<Longrightarrow> db' = db"
  by (auto simp: sql_usage_insert_def Let_def split: if_splits)

lemma attempt_insert_failed: "sql_attempt_insert now i r db = (Inl e, db') \<Longrightarrow> db' = db"
  by (auto simp: sql_attempt_insert_def Let_def split: if_splits)

lemmas statement_failed =
  update_generation_failed settle_transaction_failed submit_failed usage_insert_failed
  attempt_insert_failed

lemma apply_transaction_step:
  "apply_transaction now c db = db \<or> db_step now db (apply_transaction now c db)"
proof (cases c)
  case (TxSubmit r)
  then show ?thesis
    by (cases "sql_submit now r db"; cases "fst (sql_submit now r db)")
       (auto dest: submit_failed intro: db_step.submitted)
next
  case (TxRecord i call)
  then show ?thesis
    by (cases "sql_record now i call db"; cases "fst (sql_record now i call db)")
       (auto simp: sql_record_def dest: update_generation_failed
             intro: db_step.recorded [unfolded sql_record_def])
next
  case (TxCancel r)
  then show ?thesis
    by (cases "sql_request_cancel now r db"; cases "fst (sql_request_cancel now r db)")
       (auto simp: sql_request_cancel_def dest: update_generation_failed
             intro: db_step.cancel_requested [unfolded sql_request_cancel_def])
next
  case (TxSettle r response usage)
  then show ?thesis
    by (cases "settle_transaction now now now r response usage db";
        cases "fst (settle_transaction now now now r response usage db)")
       (auto dest: settle_transaction_failed intro: db_step.settled)
next
  case (TxUsage u)
  then show ?thesis
    by (cases "sql_usage_insert now u db"; cases "fst (sql_usage_insert now u db)")
       (auto dest: usage_insert_failed intro: db_step.metered)
next
  case (TxPurge chosen)
  then show ?thesis by (auto intro: db_step.purged)
next
  case (TxLock s)
  then show ?thesis
    by (cases "sql_sweep_lock s db"; cases "fst (sql_sweep_lock s db)")
       (auto simp: sql_sweep_lock_def split: option.splits intro: db_step.locked [unfolded sql_sweep_lock_def])
next
  case (TxUnlock s)
  then show ?thesis
    by (cases "sql_sweep_unlock s db"; cases "fst (sql_sweep_unlock s db)")
       (auto simp: sql_sweep_unlock_def split: if_splits intro: db_step.unlocked [unfolded sql_sweep_unlock_def])
qed

lemma apply_transactions_run:
  "db_run now db now (foldl (\<lambda>d c. apply_transaction now c d) db cs)"
proof (induction cs rule: rev_induct)
  case Nil
  then show ?case by (simp add: db_run_refl)
next
  case (snoc c cs)
  let ?db = "foldl (\<lambda>d c. apply_transaction now c d) db cs"
  from apply_transaction_step [of now c ?db] snoc.IH show ?case
    by (auto intro: db_run.step)
qed


section \<open>The schedule and the world\<close>

datatype fault = Fine | Lost string | Landed string

record slot =
  sl_commits :: "transaction list"
  sl_delay :: nat
  sl_db_delay :: nat
  sl_elapsed :: nat
  sl_fault :: fault

definition quiet_slot :: slot where
  "quiet_slot =
     \<lparr>sl_commits = [], sl_delay = 0, sl_db_delay = 0, sl_elapsed = 0, sl_fault = Fine\<rparr>"

text \<open>
  What the process does outside the database, as a trace: the calls it sends to the provider.
\<close>

datatype action =
    ActStart raw bool
  | ActGet string
  | ActCancel string

fun is_start :: "action \<Rightarrow> bool" where
  "is_start (ActStart _ _) = True"
| "is_start _ = False"

text \<open>
  \<open>w_tx\<close> holds the start of the transaction the statements run in, \<open>None\<close>
  outside one. \<open>w_prov\<close> is the provider's own state, whose type is a parameter.
\<close>

record 'p world =
  w_db :: database
  w_tx :: "time option"
  w_db_clock :: time
  w_clock :: time
  w_sched :: "slot list"
  w_prov :: 'p
  w_log :: "string list"
  w_trace :: "action list"

type_synonym ('p, 'a) process = "('p world, 'a) state"

text \<open>A context is its deadline on the process clock, \<open>None\<close> when it has none.\<close>

type_synonym ctx = "time option"

definition with_timeout :: "ctx \<Rightarrow> time \<Rightarrow> duration \<Rightarrow> ctx" where
  "with_timeout ctx now d = Some (case ctx of None \<Rightarrow> now + d | Some t \<Rightarrow> min t (now + d))"

definition elapse :: "nat \<Rightarrow> 'p world \<Rightarrow> 'p world" where
  "elapse d w = w\<lparr>w_clock := w_clock w + int d, w_db_clock := w_db_clock w + int d\<rparr>"

text \<open>Other processes' transactions are not seen inside a transaction of this one.\<close>

definition arrive :: "slot \<Rightarrow> 'p world \<Rightarrow> 'p world" where
  "arrive sl w =
     (let now = w_db_clock w + int (sl_db_delay sl) in
      w\<lparr>w_clock := w_clock w + int (sl_delay sl), w_db_clock := now,
        w_db := (if w_tx w = None
                 then foldl (\<lambda>db c. apply_transaction now c db) (w_db w) (sl_commits sl)
                 else w_db w)\<rparr>)"

definition next_slot :: "('p, slot) process" where
  "next_slot = State (\<lambda>w.
     case w_sched w of
       [] \<Rightarrow> (quiet_slot, w)
     | sl # rest \<Rightarrow> (sl, arrive sl (w\<lparr>w_sched := rest\<rparr>)))"

definition time_Now :: "('p, time) process" where
  "time_Now = State (\<lambda>w. (w_clock w, w))"

definition logger_Err :: "string \<Rightarrow> ('p, unit) process" where
  "logger_Err msg = State (\<lambda>w. ((), w\<lparr>w_log := w_log w @ [msg]\<rparr>))"

definition act :: "action \<Rightarrow> ('p, unit) process" where
  "act a = State (\<lambda>w. ((), w\<lparr>w_trace := w_trace w @ [a]\<rparr>))"

text \<open>How long an interaction runs: its context ends it at its deadline.\<close>

definition time_left :: "ctx \<Rightarrow> nat \<Rightarrow> time \<Rightarrow> nat" where
  "time_left ctx d now = (case ctx of None \<Rightarrow> d | Some t \<Rightarrow> nat (min (int d) (t - now)))"

definition over :: "ctx \<Rightarrow> time \<Rightarrow> bool" where
  "over ctx now = (case ctx of None \<Rightarrow> False | Some t \<Rightarrow> t \<le> now)"

definition cut_short :: "ctx \<Rightarrow> nat \<Rightarrow> time \<Rightarrow> bool" where
  "cut_short ctx d now = (case ctx of None \<Rightarrow> False | Some t \<Rightarrow> t < now + int d)"

text \<open>
  A statement sent to the database. \<open>f\<close> takes the start of the transaction and the
  clock. Nothing is sent once the context is over. A statement the context cuts short answers
  the deadline's error, and may still have landed.
\<close>

definition run_statement ::
  "ctx \<Rightarrow> slot \<Rightarrow> (time \<Rightarrow> time \<Rightarrow> 'a statement) \<Rightarrow> 'p world \<Rightarrow>
   (goerr + 'a) \<times> 'p world" where
  "run_statement ctx sl f w =
     (let now = w_db_clock w;
          txn = (case w_tx w of None \<Rightarrow> now | Some t \<Rightarrow> t);
          rdb = f txn now (w_db w);
          w1 = elapse (time_left ctx (sl_elapsed sl) (w_clock w)) w
      in if over ctx (w_clock w) then (Inl (Sentinel ErrDeadlineExceeded), w)
         else case sl_fault sl of
           Lost t \<Rightarrow> (Inl (External t), w1)
         | Landed t \<Rightarrow> (Inl (External t), w1\<lparr>w_db := snd rdb\<rparr>)
         | Fine \<Rightarrow>
             if cut_short ctx (sl_elapsed sl) (w_clock w)
             then (Inl (Sentinel ErrDeadlineExceeded), w1)
             else (fst rdb, w1\<lparr>w_db := snd rdb\<rparr>))"

definition statement ::
  "ctx \<Rightarrow> (time \<Rightarrow> time \<Rightarrow> 'a statement) \<Rightarrow> ('p, goerr + 'a) process" where
  "statement ctx f = do { sl \<leftarrow> next_slot; State (run_statement ctx sl f) }"

section \<open>The guarantees every process gives\<close>

text \<open>
  \<open>world_run\<close>: clocks never go back, the trace only grows, the process ends in the
  transaction scope it began in, and outside a transaction the database moves only along the
  steps of \<open>db_step\<close>.
\<close>

definition world_run :: "'p world \<Rightarrow> 'p world \<Rightarrow> bool" where
  "world_run w w' \<longleftrightarrow>
     w_clock w \<le> w_clock w' \<and> w_db_clock w \<le> w_db_clock w' \<and>
     prefix (w_trace w) (w_trace w') \<and> w_tx w' = w_tx w \<and>
     (w_tx w = None \<longrightarrow> db_run (w_db_clock w) (w_db w) (w_db_clock w') (w_db w'))"

definition no_start :: "'p world \<Rightarrow> 'p world \<Rightarrow> bool" where
  "no_start w w' \<longleftrightarrow> filter is_start (w_trace w') = filter is_start (w_trace w)"

interpretation runs: guarantee world_run
proof
  fix w :: "'a world"
  show "world_run w w" by (simp add: world_run_def db_run_refl)
next
  fix u v w :: "'a world"
  assume "world_run u v" and "world_run v w"
  then show "world_run u w"
    unfolding world_run_def by (auto intro: db_run_trans prefix_order.trans)
qed

interpretation quiet: guarantee no_start
  by unfold_locales (simp_all add: no_start_def)

text \<open>A provider's own code leaves no mark of this process's: \<open>silent\<close>.\<close>

definition silent :: "'p world \<Rightarrow> 'p world \<Rightarrow> bool" where
  "silent w w' \<longleftrightarrow> w_trace w' = w_trace w"

interpretation silences: guarantee silent
  by unfold_locales (simp_all add: silent_def)

lemma silent_quiet: "state_io_rel silent m \<Longrightarrow> state_io_rel no_start m"
  by (auto simp: state_io_rel_def silent_def no_start_def)

lemma run_arrive: "world_run w (arrive sl w)"
  using apply_transactions_run
    [of "w_db_clock w + int (sl_db_delay sl)" "w_db w" "sl_commits sl"]
  by (auto simp: world_run_def arrive_def Let_def intro: db_run_trans [OF _ db_run.idle])

lemma run_next_slot: "state_io_rel world_run next_slot"
proof (rule state_io_relI)
  fix a and s s' :: "'p world"
  assume "run_state next_slot s = (a, s')"
  then show "world_run s s'"
    using run_arrive [of "s\<lparr>w_sched := tl (w_sched s)\<rparr>" a]
    by (cases "w_sched s") (auto simp: next_slot_def runs.refl world_run_def)
qed

lemma run_time_Now: "state_io_rel world_run time_Now"
  by (auto simp: state_io_rel_def time_Now_def runs.refl)

lemma run_logger_Err: "state_io_rel world_run (logger_Err msg)"
  by (auto simp: state_io_rel_def logger_Err_def world_run_def db_run_refl)

lemma run_act: "state_io_rel world_run (act a)"
  by (auto simp: state_io_rel_def act_def world_run_def db_run_refl)

lemma run_elapse: "world_run w (elapse d w)"
  by (auto simp: world_run_def elapse_def intro: db_run.idle)

text \<open>
  A statement gives the guarantee when whatever it changes is a step of the program.
\<close>

definition stepping :: "(time \<Rightarrow> time \<Rightarrow> 'a statement) \<Rightarrow> bool" where
  "stepping f \<longleftrightarrow>
     (\<forall>txn now db. snd (f txn now db) = db \<or> db_step now db (snd (f txn now db)))"

lemma run_run_statement:
  assumes "stepping f"
  shows "world_run w (snd (run_statement ctx sl f w))"
proof -
  let ?txn = "case w_tx w of None \<Rightarrow> w_db_clock w | Some t \<Rightarrow> t"
  let ?w1 = "elapse (time_left ctx (sl_elapsed sl) (w_clock w)) w"
  let ?db = "snd (f ?txn (w_db_clock w) (w_db w))"
  from assms have "?db = w_db w \<or> db_step (w_db_clock w) (w_db w) ?db"
    by (auto simp: stepping_def)
  then have "db_run (w_db_clock w) (w_db w) (w_db_clock ?w1) ?db"
    by (rule db_run_maybe) (auto simp: elapse_def)
  then have landed: "world_run w (?w1\<lparr>w_db := ?db\<rparr>)"
    by (auto simp: world_run_def elapse_def)
  then show ?thesis
    by (auto simp: run_statement_def Let_def run_elapse runs.refl split: fault.splits)
qed

lemma run_statement_stepping:
  assumes "stepping f"
  shows "state_io_rel world_run (statement ctx f)"
  unfolding statement_def
proof (rule runs.guarantee_bind [OF run_next_slot])
  fix sl
  show "state_io_rel world_run (State (run_statement ctx sl f))"
    using run_run_statement [OF assms] by (auto simp: state_io_rel_def)
qed

text \<open>
  Inside a transaction a statement changes only the transaction's own view: \<open>tx_run\<close> is
  the guarantee there.
\<close>

definition tx_run :: "'p world \<Rightarrow> 'p world \<Rightarrow> bool" where
  "tx_run w w' \<longleftrightarrow> (w_tx w \<noteq> None \<longrightarrow> world_run w w')"

interpretation txs: guarantee tx_run
proof
  fix w :: "'a world"
  show "tx_run w w" by (simp add: tx_run_def runs.refl)
next
  fix u v w :: "'a world"
  assume "tx_run u v" and "tx_run v w"
  moreover from this have "w_tx u \<noteq> None \<longrightarrow> w_tx v \<noteq> None"
    by (auto simp: tx_run_def world_run_def)
  ultimately show "tx_run u w"
    unfolding tx_run_def by (blast intro: runs.trans)
qed

lemma tx_run_mono: "state_io_rel world_run m \<Longrightarrow> state_io_rel tx_run m"
  by (auto simp: state_io_rel_def tx_run_def)

lemma tx_statement: "state_io_rel tx_run (statement ctx f)"
  unfolding statement_def
proof (rule txs.guarantee_bind [OF tx_run_mono [OF run_next_slot]])
  fix sl
  show "state_io_rel tx_run (State (run_statement ctx sl f))"
    by (auto simp: state_io_rel_def tx_run_def world_run_def run_statement_def elapse_def Let_def
        split: fault.splits)
qed

text \<open>
  A statement that only reads leaves the tables as they are: inside a transaction nothing
  else moves them either.
\<close>

definition frozen :: "'p world \<Rightarrow> 'p world \<Rightarrow> bool" where
  "frozen w w' \<longleftrightarrow>
     (w_tx w \<noteq> None \<longrightarrow>
        w_db w' = w_db w \<and> w_tx w' = w_tx w \<and> w_db_clock w \<le> w_db_clock w')"

interpretation freezes: guarantee frozen
  by unfold_locales (auto simp: frozen_def)

definition reading :: "(time \<Rightarrow> time \<Rightarrow> 'a statement) \<Rightarrow> bool" where
  "reading f \<longleftrightarrow> (\<forall>txn now db. snd (f txn now db) = db)"

lemma frozen_next_slot: "state_io_rel frozen next_slot"
  by (auto simp: state_io_rel_def next_slot_def frozen_def arrive_def Let_def split: list.splits)

lemma frozen_time_Now: "state_io_rel frozen time_Now"
  by (auto simp: state_io_rel_def time_Now_def frozen_def)

lemma frozen_statement: "reading f \<Longrightarrow> state_io_rel frozen (statement ctx f)"
  unfolding statement_def
  by (rule freezes.guarantee_bind [OF frozen_next_slot])
     (auto simp: state_io_rel_def run_statement_def frozen_def reading_def elapse_def Let_def
        split: fault.splits)

text \<open>With no other process about, a reader leaves the tables as they are: \<open>untouched\<close>.\<close>

definition untouched :: "'p world \<Rightarrow> 'p world \<Rightarrow> bool" where
  "untouched w w' \<longleftrightarrow> (w_sched w = [] \<longrightarrow> w_sched w' = [] \<and> w_db w' = w_db w)"

interpretation rests: guarantee untouched
  by unfold_locales (auto simp: untouched_def)

lemma untouched_statement: "reading f \<Longrightarrow> state_io_rel untouched (statement ctx f)"
  by (auto simp: state_io_rel_def statement_def next_slot_def run_statement_def untouched_def
      reading_def elapse_def Let_def split: list.splits fault.splits if_splits prod.splits)

text \<open>
  Outside a transaction: \<open>top_run\<close> and \<open>top_quiet\<close> are the guarantees of a
  process that opens transactions of its own, and so runs outside one.
\<close>

definition top_run :: "'p world \<Rightarrow> 'p world \<Rightarrow> bool" where
  "top_run w w' \<longleftrightarrow> (w_tx w = None \<longrightarrow> world_run w w')"

definition top_quiet :: "'p world \<Rightarrow> 'p world \<Rightarrow> bool" where
  "top_quiet w w' \<longleftrightarrow> (w_tx w = None \<longrightarrow> world_run w w' \<and> no_start w w')"

interpretation tops: guarantee top_run
proof
  fix w :: "'a world"
  show "top_run w w" by (simp add: top_run_def runs.refl)
next
  fix u v w :: "'a world"
  assume "top_run u v" and "top_run v w"
  moreover from this have "w_tx u = None \<longrightarrow> w_tx v = None"
    by (auto simp: top_run_def world_run_def)
  ultimately show "top_run u w"
    unfolding top_run_def using runs.trans by auto
qed

interpretation calms: guarantee top_quiet
proof
  fix w :: "'a world"
  show "top_quiet w w" by (simp add: top_quiet_def runs.refl quiet.refl)
next
  fix u v w :: "'a world"
  assume "top_quiet u v" and "top_quiet v w"
  moreover from this have "w_tx u = None \<longrightarrow> w_tx v = None"
    by (auto simp: top_quiet_def world_run_def)
  ultimately show "top_quiet u w"
    unfolding top_quiet_def using runs.trans quiet.trans by auto
qed

lemma top_run_mono: "state_io_rel world_run m \<Longrightarrow> state_io_rel top_run m"
  by (auto simp: state_io_rel_def top_run_def)

lemma top_quiet_mono:
  "state_io_rel world_run m \<Longrightarrow> state_io_rel no_start m \<Longrightarrow> state_io_rel top_quiet m"
  by (fastforce simp: state_io_rel_def top_quiet_def)

lemma top_quiet_run: "state_io_rel top_quiet m \<Longrightarrow> state_io_rel top_run m"
  by (fastforce simp: state_io_rel_def top_quiet_def top_run_def)

lemma quiet_next_slot: "state_io_rel no_start next_slot"
  by (auto simp: state_io_rel_def next_slot_def no_start_def arrive_def Let_def split: list.splits)

lemma silent_next_slot: "state_io_rel silent next_slot"
  by (auto simp: state_io_rel_def next_slot_def silent_def arrive_def Let_def split: list.splits)

lemma silent_time_Now: "state_io_rel silent time_Now"
  by (auto simp: state_io_rel_def time_Now_def silent_def)

lemma silent_logger_Err: "state_io_rel silent (logger_Err msg)"
  by (auto simp: state_io_rel_def logger_Err_def silent_def)

lemma silent_statement: "state_io_rel silent (statement ctx f)"
  unfolding statement_def
  by (rule silences.guarantee_bind [OF silent_next_slot])
     (auto simp: state_io_rel_def run_statement_def silent_def elapse_def Let_def split: fault.splits)

lemmas silent_primitives = silent_next_slot silent_time_Now silent_logger_Err silent_statement

lemma quiet_time_Now: "state_io_rel no_start time_Now"
  by (auto simp: state_io_rel_def time_Now_def quiet.refl)

lemma quiet_logger_Err: "state_io_rel no_start (logger_Err msg)"
  by (auto simp: state_io_rel_def logger_Err_def no_start_def)

lemma quiet_act: "\<not> is_start a \<Longrightarrow> state_io_rel no_start (act a)"
  by (auto simp: state_io_rel_def act_def no_start_def)

lemma quiet_statement: "state_io_rel no_start (statement ctx f)"
  unfolding statement_def
  by (rule quiet.guarantee_bind [OF quiet_next_slot])
     (auto simp: state_io_rel_def run_statement_def no_start_def elapse_def Let_def split: fault.splits)

lemmas run_primitives = run_next_slot run_time_Now run_logger_Err run_act
lemmas quiet_primitives = quiet_next_slot quiet_time_Now quiet_logger_Err quiet_act quiet_statement

section \<open>The transactor\<close>

text \<open>
  \<open>transaction.Transactor\<close> belongs to golib, outside the repository: the services take
  one as an argument, and rely on its documented contract alone. The function given to it
  runs in a transaction. Its error rolls the transaction back and comes out wrapped; without
  an error the transaction commits. Beginning or committing can fail, and a commit whose
  answer is lost may have landed.

  A transactor's argument returns its error and the variables it captured, which its caller
  reads whatever the transactor answers: \<open>None\<close> when it never ran.
\<close>

type_synonym ('p, 'a) body = "('p, goerr option \<times> 'a) process"
type_synonym ('p, 'a) transactor = "ctx \<Rightarrow> ('p, 'a) body \<Rightarrow> ('p, goerr option \<times> 'a option) process"

definition foreign :: "goerr \<Rightarrow> bool" where
  "foreign e \<longleftrightarrow> (\<forall>s. err_is s e \<longrightarrow> s = ErrDeadlineExceeded)"

definition begun :: "'p world \<Rightarrow> 'p world" where
  "begun w = (let w1 = snd (run_state next_slot w) in w1\<lparr>w_tx := Some (w_db_clock w1)\<rparr>)"

definition rolled_back :: "'p world \<Rightarrow> 'p world \<Rightarrow> 'p world" where
  "rolled_back w w2 = w2\<lparr>w_db := w_db (begun w), w_tx := None\<rparr>"

inductive tx_outcome ::
  "('p, 'a) body \<Rightarrow> 'p world \<Rightarrow> goerr option \<times> 'a option \<Rightarrow> 'p world \<Rightarrow> bool"
  for body w where
  begin_failed: "foreign e \<Longrightarrow>
     tx_outcome body w (Some e, None) (elapse d ((begun w)\<lparr>w_tx := None\<rparr>))"
| body_failed: "run_state body (begun w) = ((Some err, a), w2) \<Longrightarrow>
     (\<And>s. err_is s e = err_is s err) \<Longrightarrow>
     tx_outcome body w (Some e, Some a) (elapse d (rolled_back w w2))"
| commit_failed: "run_state body (begun w) = ((None, a), w2) \<Longrightarrow> foreign e \<Longrightarrow>
     tx_outcome body w (Some e, Some a) (elapse d (rolled_back w w2))"
| commit_unanswered: "run_state body (begun w) = ((None, a), w2) \<Longrightarrow> foreign e \<Longrightarrow>
     tx_outcome body w (Some e, Some a) (elapse d (w2\<lparr>w_tx := None\<rparr>))"
| committed: "run_state body (begun w) = ((None, a), w2) \<Longrightarrow>
     tx_outcome body w (None, Some a) (elapse d (w2\<lparr>w_tx := None\<rparr>))"

text \<open>The transaction's own part keeps the guarantee when its committed effect is a run.\<close>

lemma begun_tx: "w_tx (begun w) \<noteq> None"
  by (simp add: begun_def Let_def)

lemma run_begun:
  assumes "w_tx w = None"
  shows "world_run w ((begun w)\<lparr>w_tx := None\<rparr>)"
proof -
  obtain sl w1 where step: "run_state next_slot w = (sl, w1)" by (cases "run_state next_slot w")
  with run_next_slot have "world_run w w1" by (rule state_io_relD)
  with step assms show ?thesis by (auto simp: begun_def Let_def world_run_def)
qed

lemma run_committed:
  assumes "w_tx w = None" and "world_run (begun w) w2"
    and "db_run (w_db_clock (begun w)) (w_db (begun w)) (w_db_clock w2) (w_db w2)"
  shows "world_run w (elapse d (w2\<lparr>w_tx := None\<rparr>))"
proof -
  from assms(2,3) have "world_run ((begun w)\<lparr>w_tx := None\<rparr>) (w2\<lparr>w_tx := None\<rparr>)"
    by (auto simp: world_run_def)
  then show ?thesis
    using run_begun [OF assms(1)] run_elapse runs.trans by blast
qed

lemma run_rolled_back:
  assumes "w_tx w = None" and "world_run (begun w) w2"
  shows "world_run w (elapse d (rolled_back w w2))"
proof -
  from assms(2) have "world_run ((begun w)\<lparr>w_tx := None\<rparr>) (rolled_back w w2)"
    by (auto simp: world_run_def rolled_back_def intro: db_run.idle)
  then show ?thesis
    using run_begun [OF assms(1)] run_elapse runs.trans by blast
qed

lemma tx_outcome_run:
  assumes "tx_outcome body w r w'" and "w_tx w = None" and "state_io_rel tx_run body"
    and "\<And>a w2. run_state body (begun w) = ((None, a), w2) \<Longrightarrow>
           db_run (w_db_clock (begun w)) (w_db (begun w)) (w_db_clock w2) (w_db w2)"
  shows "world_run w w'"
  using assms(1)
proof cases
  case (begin_failed e d)
  then show ?thesis using run_begun [OF assms(2)] run_elapse runs.trans by blast
next
  case (body_failed err a w2 e d)
  with assms(3) have "world_run (begun w) w2" using begun_tx tx_run_def state_io_relD by blast
  with body_failed assms(2) show ?thesis by (simp add: run_rolled_back)
next
  case (commit_failed a w2 e d)
  with assms(3) have "world_run (begun w) w2" using begun_tx tx_run_def state_io_relD by blast
  with commit_failed assms(2) show ?thesis by (simp add: run_rolled_back)
next
  case (commit_unanswered a w2 e d)
  with assms(3) have "world_run (begun w) w2" using begun_tx tx_run_def state_io_relD by blast
  with commit_unanswered assms(2,4) show ?thesis by (simp add: run_committed)
next
  case (committed a w2 d)
  with assms(3) have "world_run (begun w) w2" using begun_tx tx_run_def state_io_relD by blast
  with committed assms(2,4) show ?thesis by (simp add: run_committed)
qed

text \<open>A provider call the body never sends is not sent by the transaction either.\<close>

lemma begun_trace: "filter is_start (w_trace (begun w)) = filter is_start (w_trace w)"
proof -
  obtain sl w1 where step: "run_state next_slot w = (sl, w1)" by (cases "run_state next_slot w")
  with quiet_next_slot have "no_start w w1" by (rule state_io_relD)
  with step show ?thesis by (simp add: begun_def no_start_def Let_def)
qed

lemma tx_outcome_quiet:
  assumes "tx_outcome body w r w'" and "state_io_rel no_start body"
  shows "no_start w w'"
  using assms(1)
proof cases
  case begin_failed
  then show ?thesis by (simp add: no_start_def elapse_def begun_trace)
next
  case (body_failed err a w2 e d)
  with assms(2) have "no_start (begun w) w2" by (blast dest: state_io_relD)
  with body_failed show ?thesis by (simp add: no_start_def elapse_def rolled_back_def begun_trace)
next
  case (commit_failed a w2 e d)
  with assms(2) have "no_start (begun w) w2" by (blast dest: state_io_relD)
  with commit_failed show ?thesis by (simp add: no_start_def elapse_def rolled_back_def begun_trace)
next
  case (commit_unanswered a w2 e d)
  with assms(2) have "no_start (begun w) w2" by (blast dest: state_io_relD)
  with commit_unanswered show ?thesis by (simp add: no_start_def elapse_def begun_trace)
next
  case (committed a w2 d)
  with assms(2) have "no_start (begun w) w2" by (blast dest: state_io_relD)
  with committed show ?thesis by (simp add: no_start_def elapse_def begun_trace)
qed

locale transactor =
  fixes tx :: "('p, 'a) transactor"
  assumes contract:
    "w_tx w = None \<Longrightarrow>
     tx_outcome body w (fst (run_state (tx ctx body) w)) (snd (run_state (tx ctx body) w))"

begin

lemma outcome:
  assumes "w_tx w = None" and "run_state (tx ctx body) w = (r, w')"
  shows "tx_outcome body w r w'"
  using contract [OF assms(1), of body ctx] assms(2) by simp

text \<open>A transaction that answers no error committed what its body did.\<close>

lemma committed_body:
  assumes "w_tx w = None" and "run_state (tx ctx body) w = ((None, c), w')"
  shows "\<exists>a w2 d. c = Some a \<and> run_state body (begun w) = ((None, a), w2) \<and>
           w' = elapse d (w2\<lparr>w_tx := None\<rparr>)"
  using outcome [OF assms] by cases blast

text \<open>The tables are either as they were when the transaction began, or as its body left them.\<close>

lemma atomic:
  assumes "w_tx w = None" and "run_state (tx ctx body) w = (r, w')"
  shows "w_db w' = w_db (begun w) \<or>
         (\<exists>a w2. run_state body (begun w) = ((None, a), w2) \<and> w_db w' = w_db w2)"
  using outcome [OF assms]
  by cases (auto simp: elapse_def rolled_back_def)

end

text \<open>
  A transactor that keeps the contract, driven by the schedule: the slot at its start says
  whether it begins, and whether its commit is answered.
\<close>

definition pg_transactor :: "('p, 'a) transactor" where
  "pg_transactor ctx body = State (\<lambda>w.
     let sl = fst (run_state next_slot w) in
     case sl_fault sl of
       Lost t \<Rightarrow> ((Some (External t), None), (begun w)\<lparr>w_tx := None\<rparr>)
     | Landed t \<Rightarrow>
         (case run_state body (begun w) of
            ((Some err, a), w2) \<Rightarrow> ((Some (Wrap ''run transaction'' err), Some a), rolled_back w w2)
          | ((None, a), w2) \<Rightarrow> ((Some (External t), Some a), w2\<lparr>w_tx := None\<rparr>))
     | Fine \<Rightarrow>
         (case run_state body (begun w) of
            ((Some err, a), w2) \<Rightarrow> ((Some (Wrap ''run transaction'' err), Some a), rolled_back w w2)
          | ((None, a), w2) \<Rightarrow> ((None, Some a), w2\<lparr>w_tx := None\<rparr>)))"

lemma elapse_0 [simp]: "elapse 0 w = w"
  by (simp add: elapse_def)

lemma pg_transactor_outcome:
  "tx_outcome body w (fst (run_state (pg_transactor ctx body) w))
     (snd (run_state (pg_transactor ctx body) w))"
proof -
  have ext: "foreign (External t)" for t by (simp add: foreign_def)
  obtain c a w2 where body: "run_state body (begun w) = ((c, a), w2)"
    by (metis prod.exhaust)
  show ?thesis
  proof (cases "sl_fault (fst (run_state next_slot w))")
    case Fine
    with body show ?thesis
      using tx_outcome.body_failed [where d = 0 and e = "Wrap ''run transaction'' (the c)" and body = body and w = w]
        tx_outcome.committed [where d = 0 and body = body and w = w]
      by (cases c) (auto simp: pg_transactor_def Let_def)
  next
    case (Lost t)
    then show ?thesis
      using tx_outcome.begin_failed [OF ext, where d = 0] by (simp add: pg_transactor_def Let_def)
  next
    case (Landed t)
    with body show ?thesis
      using tx_outcome.body_failed [where d = 0 and e = "Wrap ''run transaction'' (the c)" and body = body and w = w]
        tx_outcome.commit_unanswered [OF _ ext, where d = 0 and body = body and w = w]
      by (cases c) (auto simp: pg_transactor_def Let_def)
  qed
qed

interpretation pg: transactor pg_transactor
  by unfold_locales (rule pg_transactor_outcome)

end
