(* ===== verification/Lifecycle.thy ===== *)
theory Lifecycle
  imports World
begin

text \<open>
  The lifecycle of a generation, as the tables hold it: the invariant of the database that
  every transaction keeps, what a transaction may do to one row, and what follows for the
  database's history: a settled row never changes again, a live one is never purged, and a
  row's phase only goes forward.
\<close>

section \<open>Rows by identifier\<close>

definition find_row :: "database \<Rightarrow> uuid \<Rightarrow> generation option" where
  "find_row db i = List.find (\<lambda>g. gen_id g = i) (generations db)"

definition put_row :: "generation \<Rightarrow> database \<Rightarrow> database" where
  "put_row g db =
     db\<lparr>generations := map (\<lambda>r. if gen_id r = gen_id g then g else r) (generations db)\<rparr>"

lemma find_row_in: "find_row db i = Some g \<Longrightarrow> g \<in> set (generations db) \<and> gen_id g = i"
  unfolding find_row_def by (rule find_Some_in)

lemma find_row_None: "find_row db i = None \<longleftrightarrow> i \<notin> gen_id ` set (generations db)"
  by (auto simp: find_row_def find_None_iff)

lemma find_row_iff:
  assumes "distinct (map gen_id (generations db))"
  shows "find_row db i = Some g \<longleftrightarrow> g \<in> set (generations db) \<and> gen_id g = i"
proof
  assume "g \<in> set (generations db) \<and> gen_id g = i"
  with assms show "find_row db i = Some g"
    unfolding find_row_def by (auto intro: find_unique)
qed (rule find_row_in)

lemma put_row_ids [simp]: "map gen_id (generations (put_row g db)) = map gen_id (generations db)"
  by (simp add: put_row_def)

lemma put_row_attempts [simp]: "attempts (put_row g db) = attempts db"
  and put_row_usages [simp]: "usages (put_row g db) = usages db"
  and put_row_leader [simp]: "sweep_leader (put_row g db) = sweep_leader db"
  and put_row_json_ok [simp]: "json_ok (put_row g db) = json_ok db"
  by (simp_all add: put_row_def)

lemma find_replace:
  "List.find (\<lambda>r. f r = i) (map (\<lambda>r. if f r = f g then g else r) xs) =
     (if i = f g \<and> List.find (\<lambda>r. f r = i) xs \<noteq> None then Some g
      else List.find (\<lambda>r. f r = i) xs)"
  by (induction xs) auto

lemma find_row_put_row:
  "find_row (put_row g db) i =
     (if i = gen_id g \<and> find_row db i \<noteq> None then Some g else find_row db i)"
proof -
  have "generations (put_row g db) =
      map (\<lambda>r. if gen_id r = gen_id g then g else r) (generations db)"
    by (simp add: put_row_def)
  then show ?thesis unfolding find_row_def by (simp only: find_replace [where f = gen_id])
qed

lemma set_put_row:
  "set (generations (put_row g db)) \<subseteq> insert g (set (generations db))"
  by (auto simp: put_row_def)

text \<open>An update by a predicate that names one identifier replaces that row.\<close>

lemma update_generation_row:
  assumes "distinct (map gen_id (generations db))"
    and "update_generation p f read db = (Inr g, db')"
    and "\<And>r. p r \<Longrightarrow> gen_id r = i" and "\<And>r. gen_id (f r) = gen_id r"
  shows "\<exists>r. find_row db i = Some r \<and> p r \<and> generation_row_check (f r) \<and>
           g = (f r)\<lparr>gen_read_at := read\<rparr> \<and> db' = put_row (f r) db"
proof -
  from assms(2) obtain r where r: "List.find p (generations db) = Some r" "generation_row_check (f r)"
    "g = (f r)\<lparr>gen_read_at := read\<rparr>"
    and db': "db' = db\<lparr>generations := map (\<lambda>r. if p r then f r else r) (generations db)\<rparr>"
    by (auto simp: update_generation_def split: option.splits if_splits)
  then have rin: "r \<in> set (generations db)" and pr: "p r" by (auto dest: find_Some_in)
  with assms(3) have ri: "gen_id r = i" by blast
  have only: "p x \<longleftrightarrow> gen_id x = i" "p x \<Longrightarrow> x = r" if "x \<in> set (generations db)" for x
    using distinct_map_eq [OF assms(1) that rin] assms(3) pr ri by auto
  have "db' = put_row (f r) db"
    unfolding db' put_row_def using only ri assms(4) by auto
  moreover have "find_row db i = Some r"
    using assms(1) rin ri by (simp add: find_row_iff)
  ultimately show ?thesis using r pr by blast
qed

section \<open>The invariant of the database\<close>

definition row_inv :: "generation \<Rightarrow> bool" where
  "row_inv g \<longleftrightarrow>
     generation_row_check g \<and>
     (gen_provider_call_id g \<noteq> None \<longrightarrow> gen_start_requested_at g \<noteq> None) \<and>
     (live_status (gen_status g) \<longrightarrow> gen_settled_at g = None \<and> gen_expires_at g = None) \<and>
     (terminal_status (gen_status g) \<longrightarrow> gen_settled_at g \<noteq> None \<and> gen_expires_at g \<noteq> None)"

lemma row_inv_read [simp]: "row_inv (g\<lparr>gen_read_at := t\<rparr>) = row_inv g"
  by (simp add: row_inv_def generation_row_check_def)

definition db_inv :: "database \<Rightarrow> bool" where
  "db_inv db \<longleftrightarrow>
     distinct (map gen_id (generations db)) \<and>
     (\<forall>g \<in> set (generations db). row_inv g) \<and>
     distinct (map gen_request_key (filter keyed (generations db))) \<and>
     distinct (map (\<lambda>a. (att_generation_id a, att_attempt a)) (attempts db)) \<and>
     (\<forall>a \<in> set (attempts db). \<exists>g \<in> set (generations db).
        gen_id g = att_generation_id a \<and> terminal_status (gen_status g)) \<and>
     distinct (map (\<lambda>u. (usg_generation_id u, usg_attempt u)) (usages db)) \<and>
     (\<forall>u \<in> set (usages db). usage_check u)"

lemma db_inv_distinct: "db_inv db \<Longrightarrow> distinct (map gen_id (generations db))"
  by (simp add: db_inv_def)

text \<open>The unique index: one keyed row for a request key.\<close>

lemma keyed_unique:
  assumes "db_inv db" and "g \<in> set (generations db)" and "h \<in> set (generations db)"
    and "keyed g" and "keyed h" and "gen_request_key g = gen_request_key h"
  shows "g = h"
proof -
  from assms(1) have "distinct (map gen_request_key (filter keyed (generations db)))" by (simp add: db_inv_def)
  then have "inj_on gen_request_key (set (filter keyed (generations db)))" by (simp only: distinct_map)
  then show ?thesis using assms(2-6) by (auto dest: inj_onD)
qed

lemma db_inv_row: "db_inv db \<Longrightarrow> find_row db i = Some g \<Longrightarrow> row_inv g"
  by (auto simp: db_inv_def dest: find_row_in)

text \<open>What a transaction may make of one row.\<close>

inductive row_step :: "time \<Rightarrow> generation \<Rightarrow> generation \<Rightarrow> bool" for now where
  accept: "gen_status g = Pending \<Longrightarrow> gen_start_requested_at g \<noteq> None \<Longrightarrow>
     row_step now g
       (g\<lparr>gen_provider_call_id := Some call, gen_status := Running, gen_updated_at := now\<rparr>)"
| cancel: "live_status (gen_status g) \<Longrightarrow> row_step now g (cancel_row now r g)"
| settle: "live_status (gen_status g) \<Longrightarrow> settle_match r g \<Longrightarrow> row_step now g (settle_row now r g)"

lemma cancel_row_simps [simp]:
  "gen_id (cancel_row now r g) = gen_id g"
  "gen_owner_id (cancel_row now r g) = gen_owner_id g"
  "gen_request_key (cancel_row now r g) = gen_request_key g"
  "gen_start_requested_at (cancel_row now r g) = gen_start_requested_at g"
  "gen_provider_call_id (cancel_row now r g) = gen_provider_call_id g"
  "gen_outcome_unknown_at (cancel_row now r g) = gen_outcome_unknown_at g"
  by (simp_all add: cancel_row_def Let_def)

lemma settle_row_simps [simp]:
  "gen_id (settle_row now r g) = gen_id g"
  "gen_owner_id (settle_row now r g) = gen_owner_id g"
  "gen_request_key (settle_row now r g) = gen_request_key g"
  "gen_start_requested_at (settle_row now r g) = gen_start_requested_at g"
  "gen_provider_call_id (settle_row now r g) = gen_provider_call_id g"
  "gen_cancel_requested_at (settle_row now r g) = gen_cancel_requested_at g"
  "gen_status (settle_row now r g) = set_status r"
  "gen_settled_at (settle_row now r g) = Some now"
  "gen_expires_at (settle_row now r g) = Some (now + set_retention r)"
  by (simp_all add: settle_row_def)

lemma row_step_id: "row_step now g g' \<Longrightarrow> gen_id g' = gen_id g"
  by (auto elim: row_step.cases)

lemma row_step_key: "row_step now g g' \<Longrightarrow> gen_request_key g' = gen_request_key g"
  by (auto elim: row_step.cases)

lemma row_step_live: "row_step now g g' \<Longrightarrow> live_status (gen_status g)"
  by (auto elim!: row_step.cases simp: live_status_def)

lemma row_step_keyed: "row_step now g g' \<Longrightarrow> keyed g"
  by (drule row_step_live) (auto simp: keyed_def live_status_def)

lemma row_step_call_started:
  assumes "row_step now g g'"
    and "gen_provider_call_id g \<noteq> None \<longrightarrow> gen_start_requested_at g \<noteq> None"
  shows "gen_provider_call_id g' \<noteq> None \<longrightarrow> gen_start_requested_at g' \<noteq> None"
  using assms by cases simp_all

lemma row_step_unsettled:
  assumes "row_step now g g'" and "generation_row_check g'"
    and "gen_settled_at g = None" and "gen_expires_at g = None" and "live_status (gen_status g')"
  shows "gen_settled_at g' = None \<and> gen_expires_at g' = None"
  using assms(1)
proof cases
  case (accept call)
  with assms(3,4) show ?thesis by simp
next
  case (cancel r)
  with assms(5) show ?thesis
    by (simp add: cancel_row_def Let_def live_status_def split: if_splits)
next
  case (settle r)
  with assms(2,5) show ?thesis by (simp add: generation_row_check_def)
qed

lemma row_step_inv:
  assumes "row_step now g g'" and "generation_row_check g'" and "row_inv g"
  shows "row_inv g'"
proof -
  from assms(1,3) have unsettled: "gen_settled_at g = None" "gen_expires_at g = None"
    by (auto simp: row_inv_def dest: row_step_live)
  have "terminal_status (gen_status g') \<longrightarrow> gen_settled_at g' \<noteq> None \<and> gen_expires_at g' \<noteq> None"
    using assms(2) by (simp add: generation_row_check_def)
  then show ?thesis
    using assms(2,3) row_step_call_started [OF assms(1)]
      row_step_unsettled [OF assms(1,2) unsettled]
    unfolding row_inv_def by blast
qed

lemma distinct_keys_map:
  assumes "distinct (map key (filter p xs))"
    and "\<And>x. x \<in> set xs \<Longrightarrow> key (h x) = key x"
    and "\<And>x. x \<in> set xs \<Longrightarrow> p (h x) \<Longrightarrow> p x"
  shows "distinct (map key (filter p (map h xs)))"
  using assms
proof (induction xs)
  case Nil
  then show ?case by simp
next
  case (Cons x xs)
  then have IH: "distinct (map key (filter p (map h xs)))" by (auto split: if_splits)
  show ?case
  proof (cases "p (h x)")
    case True
    have "key (h x) \<notin> key ` set (filter p (map h xs))"
    proof
      assume "key (h x) \<in> key ` set (filter p (map h xs))"
      then obtain y where y: "y \<in> set xs" "p (h y)" "key (h y) = key (h x)" by auto
      with Cons.prems(2,3) have "p y" "key y = key x" by simp_all
      moreover have "p x" using True Cons.prems(3) by simp
      ultimately show False using Cons.prems(1) y(1) by (auto simp: image_iff)
    qed
    with True IH show ?thesis by simp
  next
    case False
    with IH show ?thesis by simp
  qed
qed

lemma put_row_inv:
  assumes inv: "db_inv db" and g: "find_row db i = Some g"
    and row: "row_step now g g'" and check: "generation_row_check g'"
  shows "db_inv (put_row g' db)"
proof -
  let ?h = "\<lambda>r. if gen_id r = gen_id g' then g' else r"
  from g have gin: "g \<in> set (generations db)" and gi: "gen_id g = i"
    by (auto dest: find_row_in)
  have same: "r = g" if "r \<in> set (generations db)" "gen_id r = gen_id g'" for r
    using distinct_map_eq [OF db_inv_distinct [OF inv] that(1) gin] that(2) row_step_id [OF row]
    by simp
  have key: "gen_request_key (?h r) = gen_request_key r" "keyed (?h r) \<Longrightarrow> keyed r"
    if "r \<in> set (generations db)" for r
  proof -
    show "gen_request_key (?h r) = gen_request_key r"
      using same [OF that] row_step_key [OF row] by simp
    show "keyed r" if "keyed (?h r)"
      using same [OF \<open>r \<in> set (generations db)\<close>] row_step_keyed [OF row] that
      by (cases "gen_id r = gen_id g'") simp_all
  qed
  have "\<forall>r \<in> set (generations db). row_inv r" using inv by (simp add: db_inv_def)
  then have rows: "\<forall>r \<in> set (generations (put_row g' db)). row_inv r"
    using row_step_inv [OF row check db_inv_row [OF inv g]] set_put_row [of g' db] by blast
  have "distinct (map gen_request_key (filter keyed (generations db)))"
    using inv by (simp add: db_inv_def)
  then have keys: "distinct (map gen_request_key (filter keyed (generations (put_row g' db))))"
    unfolding put_row_def using key
    by (auto simp del: filter_map map_map intro!: distinct_keys_map [where h = ?h])
  have parent: "\<exists>r \<in> set (generations (put_row g' db)).
          gen_id r = att_generation_id a \<and> terminal_status (gen_status r)"
    if "a \<in> set (attempts db)" for a
  proof -
    from inv that obtain r where r: "r \<in> set (generations db)" "gen_id r = att_generation_id a"
      "terminal_status (gen_status r)" unfolding db_inv_def by blast
    then have "r \<noteq> g" using row_step_live [OF row] by auto
    then have "gen_id r \<noteq> gen_id g'" using same [OF r(1)] by blast
    then have "r \<in> set (generations (put_row g' db))" using r(1) by (force simp: put_row_def)
    with r(2,3) show ?thesis by blast
  qed
  have "distinct (map gen_id (generations (put_row g' db)))"
    using db_inv_distinct [OF inv] by simp
  with inv rows keys parent show ?thesis unfolding db_inv_def by simp
qed

section \<open>What one transaction does\<close>

lemma submit_cases:
  assumes "sql_submit now r db = (Inr g, db')"
  obtains (replayed) "g \<in> set (generations db)" "keyed g" "gen_request_key g = sub_request_key r"
      "db' = db"
  | (created) "g = new_row now r" "generation_row_check g" "sub_id r \<notin> gen_id ` set (generations db)"
      "\<And>h. h \<in> set (generations db) \<Longrightarrow> keyed h \<Longrightarrow> gen_request_key h \<noteq> sub_request_key r"
      "db' = db\<lparr>generations := generations db @ [new_row now r]\<rparr>"
proof -
  let ?p = "\<lambda>g. keyed g \<and> gen_request_key g = sub_request_key r"
  from assms have check: "generation_row_check (new_row now r)"
    by (simp add: sql_submit_def split: if_splits)
  show thesis
  proof (cases "List.find ?p (generations db)")
    case (Some h)
    with assms check have "g = h" "db' = db" by (simp_all add: sql_submit_def)
    with find_Some_in [OF Some] show thesis by (intro replayed) auto
  next
    case None
    have fresh: "\<And>h. h \<in> set (generations db) \<Longrightarrow> keyed h \<Longrightarrow> gen_request_key h \<noteq> sub_request_key r"
      using find_None_notin [OF None] by blast
    from None assms check have id: "sub_id r \<notin> gen_id ` set (generations db)"
      and g: "new_row now r = g"
      and db': "db\<lparr>generations := generations db @ [new_row now r]\<rparr> = db'"
      by (auto simp: sql_submit_def split: if_splits)
    show thesis
      by (rule created [OF g [symmetric] _ id fresh db' [symmetric]]) (use check g in simp_all)
  qed
qed

lemma new_row_inv: "generation_row_check (new_row now r) \<Longrightarrow> row_inv (new_row now r)"
  by (simp add: row_inv_def new_row_def generation_row_check_def live_status_def)

lemma new_row_simps [simp]:
  "gen_id (new_row now r) = sub_id r" "gen_owner_id (new_row now r) = sub_owner_id r"
  "gen_purpose (new_row now r) = sub_purpose r" "gen_provider (new_row now r) = sub_provider r"
  "gen_request_key (new_row now r) = sub_request_key r" "gen_status (new_row now r) = Pending"
  "gen_start_requested_at (new_row now r) = Some now" "gen_provider_call_id (new_row now r) = None"
  "gen_cancel_requested_at (new_row now r) = None" "gen_settled_at (new_row now r) = None"
  "gen_streamed (new_row now r) = sub_streamed r" "gen_created_at (new_row now r) = now"
  "gen_outcome_unknown_at (new_row now r) = None"
  by (simp_all add: new_row_def)

lemma submit_inv:
  assumes "sql_submit now r db = (Inr g, db')" and "db_inv db"
  shows "db_inv db'"
  using assms(1)
proof (cases rule: submit_cases)
  case replayed
  with assms(2) show ?thesis by simp
next
  case created
  let ?n = "new_row now r"
  have row: "row_inv ?n" using created(1,2) new_row_inv by simp
  have id: "sub_id r \<notin> set (map gen_id (generations db))" using created(3) by simp
  have key: "sub_request_key r \<notin> set (map gen_request_key (filter keyed (generations db)))"
  proof
    assume "sub_request_key r \<in> set (map gen_request_key (filter keyed (generations db)))"
    then obtain h where "h \<in> set (generations db)" "keyed h" "gen_request_key h = sub_request_key r"
      by (auto simp del: created)
    then show False using created(4) by blast
  qed
  have keyed: "keyed ?n" by (simp add: keyed_def)
  from assms(2) id have ids: "distinct (map gen_id (generations db'))"
    by (simp add: db_inv_def created(5))
  from assms(2) key keyed have keys: "distinct (map gen_request_key (filter keyed (generations db')))"
    by (simp add: db_inv_def created(5))
  from assms(2) row have rows: "\<forall>g \<in> set (generations db'). row_inv g"
    by (simp add: db_inv_def created(5))
  from assms(2) have parents: "\<forall>a \<in> set (attempts db'). \<exists>g \<in> set (generations db').
      gen_id g = att_generation_id a \<and> terminal_status (gen_status g)"
    unfolding db_inv_def created(5) by auto
  from assms(2) ids keys rows parents show ?thesis
    unfolding db_inv_def created(5) by simp
qed

lemma update_inv:
  assumes "update_generation p f read db = (Inr g, db')" and "db_inv db"
    and "\<And>r. p r \<Longrightarrow> gen_id r = i" and "\<And>r. p r \<Longrightarrow> row_step now r (f r)"
    and "\<And>r. gen_id (f r) = gen_id r"
  shows "db_inv db'"
    and "\<exists>r. find_row db i = Some r \<and> p r \<and> row_step now r (f r) \<and> generation_row_check (f r) \<and>
           g = (f r)\<lparr>gen_read_at := read\<rparr> \<and> db' = put_row (f r) db"
proof -
  from update_generation_row [OF db_inv_distinct [OF assms(2)] assms(1,3,5)]
  obtain r where r: "find_row db i = Some r" "p r" "generation_row_check (f r)"
    "g = (f r)\<lparr>gen_read_at := read\<rparr>" "db' = put_row (f r) db" by blast
  with assms(4) have "row_step now r (f r)" by blast
  with r show "\<exists>r. find_row db i = Some r \<and> p r \<and> row_step now r (f r) \<and>
      generation_row_check (f r) \<and> g = (f r)\<lparr>gen_read_at := read\<rparr> \<and> db' = put_row (f r) db"
    by blast
  from put_row_inv [OF assms(2) r(1) \<open>row_step now r (f r)\<close> r(3)] r(5) show "db_inv db'" by simp
qed

lemma record_row:
  assumes "sql_record now i call db = (Inr g, db')" and "db_inv db"
  shows "db_inv db'"
    and "\<exists>r. find_row db i = Some r \<and> gen_status r = Pending \<and> gen_start_requested_at r \<noteq> None \<and>
           (\<exists>r'. r' = r\<lparr>gen_provider_call_id := Some call, gen_status := Running,
                        gen_updated_at := now\<rparr> \<and>
                 row_step now r r' \<and> g = r'\<lparr>gen_read_at := now\<rparr> \<and> db' = put_row r' db)"
  using update_inv [OF assms(1) [unfolded sql_record_def] assms(2), where i = i and now = now]
  by (auto intro: row_step.accept)

lemma request_cancel_row:
  assumes "sql_request_cancel now r db = (Inr g, db')" and "db_inv db"
  shows "db_inv db'"
    and "\<exists>x. find_row db (can_id r) = Some x \<and> gen_owner_id x = can_owner_id r \<and>
           live_status (gen_status x) \<and> row_step now x (cancel_row now r x) \<and>
           g = (cancel_row now r x)\<lparr>gen_read_at := now\<rparr> \<and> db' = put_row (cancel_row now r x) db"
  using update_inv [OF assms(1) [unfolded sql_request_cancel_def] assms(2),
      where i = "can_id r" and now = now]
  by (auto intro: row_step.cancel)

lemma settle_row_found:
  assumes "sql_settle now r db = (Inr g, db')" and "db_inv db"
  shows "db_inv db'"
    and "\<exists>x. find_row db (set_id r) = Some x \<and> settle_match r x \<and> live_status (gen_status x) \<and>
           row_step now x (settle_row now r x) \<and> generation_row_check (settle_row now r x) \<and>
           g = (settle_row now r x)\<lparr>gen_read_at := 0\<rparr> \<and> db' = put_row (settle_row now r x) db"
proof -
  have p: "gen_id x = set_id r" "row_step now x (settle_row now r x)" if "settle_match r x" for x
    using that row_step.settle [OF _ that] by (simp_all add: settle_match_def)
  note found = update_inv [OF assms(1) [unfolded sql_settle_def] assms(2) p, simplified]
  show "db_inv db'" by (rule found(1))
  from found(2) show "\<exists>x. find_row db (set_id r) = Some x \<and> settle_match r x \<and>
      live_status (gen_status x) \<and> row_step now x (settle_row now r x) \<and>
      generation_row_check (settle_row now r x) \<and>
      g = (settle_row now r x)\<lparr>gen_read_at := 0\<rparr> \<and> db' = put_row (settle_row now r x) db"
    by (blast dest: row_step_live)
qed

lemma attempt_insert_row:
  assumes "sql_attempt_insert now i response db = (Inr a, db')"
  shows "\<exists>row. att_generation_id row = i \<and> att_attempt row = 1 \<and> att_response row = response \<and>
           (i, 1) \<notin> (\<lambda>a. (att_generation_id a, att_attempt a)) ` set (attempts db) \<and>
           db' = db\<lparr>attempts := attempts db @ [row]\<rparr>"
  using assms
  by (intro exI [of _ "\<lparr>att_generation_id = i, att_attempt = 1, att_response = response,
                      att_created_at = now\<rparr>"])
     (auto simp: sql_attempt_insert_def Let_def split: if_splits)

lemma attempt_insert_inv:
  assumes "sql_attempt_insert now i response db = (Inr a, db')" and "db_inv db"
    and g: "find_row db i = Some g" and "terminal_status (gen_status g)"
  shows "db_inv db'"
proof -
  from attempt_insert_row [OF assms(1)] obtain row where row: "att_generation_id row = i"
    "att_attempt row = 1" "(i, 1) \<notin> (\<lambda>a. (att_generation_id a, att_attempt a)) ` set (attempts db)"
    and db': "db' = db\<lparr>attempts := attempts db @ [row]\<rparr>" by blast
  have "\<exists>g \<in> set (generations db). gen_id g = att_generation_id row \<and> terminal_status (gen_status g)"
    using find_row_in [OF g] assms(4) row(1) by (intro bexI [of _ g]) simp_all
  with assms(2) row show ?thesis unfolding db_inv_def db' by simp
qed

lemma usage_insert_row:
  assumes "sql_usage_insert now u db = (Inr v, db')"
  shows "v = u\<lparr>usg_attempt := 1, usg_created_at := now\<rparr> \<and> usage_check v \<and>
         (usg_generation_id u, 1) \<notin> (\<lambda>v. (usg_generation_id v, usg_attempt v)) ` set (usages db) \<and>
         db' = db\<lparr>usages := usages db @ [v]\<rparr>"
  using assms by (auto simp: sql_usage_insert_def Let_def split: if_splits)

lemma usage_insert_inv:
  assumes "sql_usage_insert now u db = (Inr v, db')" and "db_inv db"
  shows "db_inv db'"
  using usage_insert_row [OF assms(1)] assms(2) unfolding db_inv_def by auto

lemma settle_transaction_cases:
  assumes "settle_transaction now ta tu r response usage db = (Inr g, db')"
  obtains db1 db2 where "sql_settle now r db = (Inr g, db1)"
    and "response = None \<and> db2 = db1 \<or>
         (\<exists>bytes a. response = Some bytes \<and> sql_attempt_insert ta (set_id r) bytes db1 = (Inr a, db2))"
    and "(usage = None \<or> (\<exists>u. usage = Some u \<and> sql_usage_insert tu u db2 = (Inl (Sentinel ErrNoRows), db2))) \<and>
           db' = db2 \<or>
         (\<exists>u v. usage = Some u \<and> sql_usage_insert tu u db2 = (Inr v, db'))"
proof -
  from assms obtain db1 where s: "sql_settle now r db = (Inr g, db1)"
    by (auto simp: settle_transaction_def split: prod.splits sum.splits option.splits if_splits)
  show thesis
  proof (cases response)
    case None
    then show thesis
      using assms s usage_insert_failed
      by (intro that [OF s, of db1])
         (auto simp: settle_transaction_def split: prod.splits sum.splits option.splits if_splits)
  next
    case (Some bytes)
    with assms s obtain a db2 where i: "sql_attempt_insert ta (set_id r) bytes db1 = (Inr a, db2)"
      by (auto simp: settle_transaction_def split: prod.splits sum.splits option.splits if_splits)
    with Some show thesis
      using assms s usage_insert_failed
      by (intro that [OF s, of db2])
         (auto simp: settle_transaction_def split: prod.splits sum.splits option.splits if_splits)
  qed
qed

lemma settle_transaction_generations:
  assumes "settle_transaction now ta tu r response usage db = (Inr g, db')"
  obtains db1 where "sql_settle now r db = (Inr g, db1)" and "generations db' = generations db1"
  using assms
proof (cases rule: settle_transaction_cases)
  case (1 db1 db2)
  then have "generations db2 = generations db1" by (auto dest: attempt_insert_row)
  moreover from 1 have "generations db' = generations db2" by (auto dest: usage_insert_row)
  ultimately show ?thesis using that [OF 1(1)] by simp
qed

lemma settle_transaction_inv:
  assumes "settle_transaction now ta tu r response usage db = (Inr g, db')" and "db_inv db"
  shows "db_inv db'"
  using assms(1)
proof (cases rule: settle_transaction_cases)
  case (1 db1 db2)
  from settle_row_found [OF 1(1) assms(2)] obtain x where inv1: "db_inv db1"
    and x: "find_row db (set_id r) = Some x" "generation_row_check (settle_row now r x)"
      "db1 = put_row (settle_row now r x) db"
    by blast
  have row: "find_row db1 (set_id r) = Some (settle_row now r x)"
    using x find_row_in [OF x(1)] by (simp add: find_row_put_row)
  have "terminal_status (gen_status (settle_row now r x))"
    using x(2) by (simp add: generation_row_check_def)
  from 1(2) inv1 attempt_insert_inv [OF _ inv1 row this] have "db_inv db2" by blast
  with 1(3) usage_insert_inv show ?thesis by blast
qed

lemma purge_inv:
  assumes "db_inv db"
  shows "db_inv (sql_purge now chosen db)"
proof -
  let ?gone = "gen_id ` {g \<in> set (generations db). expired now g \<and> gen_id g \<in> chosen}"
  have "distinct (map gen_request_key
      (filter keyed (filter (\<lambda>g. gen_id g \<notin> ?gone) (generations db))))"
  proof -
    have swap: "filter keyed (filter (\<lambda>g. gen_id g \<notin> ?gone) (generations db)) =
          filter (\<lambda>g. gen_id g \<notin> ?gone) (filter keyed (generations db))"
      by (simp add: conj_commute)
    from assms show ?thesis unfolding swap db_inv_def by (blast intro: distinct_map_filter)
  qed
  moreover have "\<exists>g \<in> set (filter (\<lambda>g. gen_id g \<notin> ?gone) (generations db)).
          gen_id g = att_generation_id a \<and> terminal_status (gen_status g)"
    if "a \<in> set (attempts db)" "att_generation_id a \<notin> ?gone" for a
  proof -
    from assms that(1) obtain g where "g \<in> set (generations db)" "gen_id g = att_generation_id a"
      "terminal_status (gen_status g)" unfolding db_inv_def by blast
    with that(2) show ?thesis by (intro bexI [of _ g]) simp_all
  qed
  ultimately show ?thesis
    using assms unfolding db_inv_def sql_purge_def Let_def
    by (simp add: distinct_map_filter del: terminal_iff_not_live)
qed

text \<open>Every transaction of every process keeps the invariant.\<close>

lemma db_step_inv: "db_step now db db' \<Longrightarrow> db_inv db \<Longrightarrow> db_inv db'"
proof (induction rule: db_step.induct)
  case (locked s db b db')
  then show ?case by (auto simp: sql_sweep_lock_def db_inv_def split: option.splits)
next
  case (unlocked s db b db')
  then show ?case by (auto simp: sql_sweep_unlock_def db_inv_def split: if_splits)
qed (simp_all add: submit_inv record_row(1) request_cancel_row(1) settle_transaction_inv
       usage_insert_inv purge_inv)

lemma db_run_inv: "db_run s db t db' \<Longrightarrow> db_inv db \<Longrightarrow> db_inv db'"
  by (induction rule: db_run.induct) (auto intro: db_step_inv)

section \<open>The history of one row\<close>

text \<open>
  One transaction leaves a row as it is, moves it by \<open>row_step\<close>, or purges it when it
  has expired.
\<close>

lemma find_row_purge:
  assumes "db_inv db" and "find_row db i = Some g"
  shows "find_row (sql_purge now chosen db) i = Some g \<or>
         expired now g \<and> find_row (sql_purge now chosen db) i = None"
proof -
  let ?gone = "gen_id ` {g \<in> set (generations db). expired now g \<and> gen_id g \<in> chosen}"
  have gens: "generations (sql_purge now chosen db) =
      filter (\<lambda>g. gen_id g \<notin> ?gone) (generations db)"
    by (simp add: sql_purge_def Let_def)
  from find_row_in [OF assms(2)] have gin: "g \<in> set (generations db)" and gi: "gen_id g = i" by simp_all
  show ?thesis
  proof (cases "i \<in> ?gone")
    case True
    then obtain h where "h \<in> set (generations db)" "expired now h" "gen_id h = i" by auto
    moreover from this have "h = g"
      using distinct_map_eq [OF db_inv_distinct [OF assms(1)] _ gin] gi by simp
    ultimately have "expired now g" by simp
    moreover have "find_row (sql_purge now chosen db) i = None"
      unfolding find_row_None gens using True by (simp add: image_iff) metis
    ultimately show ?thesis by simp
  next
    case False
    then have "g \<in> set (generations (sql_purge now chosen db))"
      unfolding gens using gin gi by simp
    then show ?thesis
      using gi find_row_iff [OF db_inv_distinct [OF purge_inv [OF assms(1)]]] by blast
  qed
qed

lemma find_row_append: "find_row db i = Some g \<Longrightarrow>
    find_row (db\<lparr>generations := generations db @ xs\<rparr>) i = Some g"
proof -
  have "List.find p ys = Some y \<Longrightarrow> List.find p (ys @ xs) = Some y" for p and y :: generation and ys
    by (induction ys) auto
  then show "find_row db i = Some g \<Longrightarrow> ?thesis" by (simp add: find_row_def)
qed

lemma find_row_same: "generations db' = generations db \<Longrightarrow> find_row db' i = find_row db i"
  by (simp add: find_row_def)

lemma put_row_history:
  assumes "find_row db j = Some x" and "row_step now x x'" and "find_row db i = Some g"
    and "generations db' = generations (put_row x' db)"
  shows "find_row db' i = Some g \<or> (\<exists>g'. row_step now g g' \<and> find_row db' i = Some g')"
proof (cases "i = j")
  case True
  with assms(1,3) have "x = g" by simp
  then show ?thesis
    using assms True find_row_in [OF assms(1)] row_step_id [OF assms(2)]
    by (simp add: find_row_same [OF assms(4)] find_row_put_row)
next
  case False
  then show ?thesis
    using assms(3) find_row_in [OF assms(1)] row_step_id [OF assms(2)]
    by (simp add: find_row_same [OF assms(4)] find_row_put_row)
qed

lemma db_step_row:
  assumes "db_step now db db'" and "db_inv db" and "find_row db i = Some g"
  shows "find_row db' i = Some g \<or>
         (\<exists>g'. row_step now g g' \<and> find_row db' i = Some g') \<or>
         expired now g \<and> find_row db' i = None"
  using assms(1)
proof cases
  case (submitted r h)
  then show ?thesis
    using assms(3) by (cases rule: submit_cases) (auto intro: find_row_append)
next
  case (recorded j call h)
  then show ?thesis
    using record_row(2) [OF recorded assms(2)] put_row_history [OF _ _ assms(3)] by blast
next
  case (cancel_requested r h)
  then show ?thesis
    using request_cancel_row(2) [OF cancel_requested assms(2)] put_row_history [OF _ _ assms(3)]
    by blast
next
  case (settled ta tu r response usage h)
  from settled obtain db1 where "sql_settle now r db = (Inr h, db1)" "generations db' = generations db1"
    by (rule settle_transaction_generations)
  from settle_row_found(2) [OF this(1) assms(2)] this(2) obtain x where
    x: "find_row db (set_id r) = Some x" "row_step now x (settle_row now r x)"
    "generations db' = generations (put_row (settle_row now r x) db)" by auto
  from put_row_history [OF x(1,2) assms(3) x(3)] show ?thesis by blast
next
  case (metered u v)
  from usage_insert_row [OF this] have "generations db' = generations db" by simp
  from find_row_same [OF this] show ?thesis using assms(3) by simp
next
  case (purged chosen)
  then show ?thesis using find_row_purge [OF assms(2,3), of now chosen] by auto
next
  case (locked s b)
  then show ?thesis
    using assms(3) by (auto simp: sql_sweep_lock_def find_row_def split: option.splits)
next
  case (unlocked s b)
  then show ?thesis
    using assms(3) by (auto simp: sql_sweep_unlock_def find_row_def split: if_splits)
qed

inductive row_run :: "time \<Rightarrow> generation \<Rightarrow> time \<Rightarrow> generation \<Rightarrow> bool" for s g where
  row_idle: "s \<le> t \<Longrightarrow> row_run s g t g"
| row_moves: "row_run s g t h \<Longrightarrow> row_step now h g' \<Longrightarrow> t \<le> now \<Longrightarrow> now \<le> u \<Longrightarrow> row_run s g u g'"

lemma row_run_later: "row_run s g t g' \<Longrightarrow> t \<le> u \<Longrightarrow> row_run s g u g'"
proof (induction rule: row_run.induct)
  case (row_idle t)
  then show ?case by (auto intro: row_run.row_idle)
next
  case (row_moves t h now g' v)
  from row_moves.hyps row_moves.prems show ?case by (auto intro: row_run.row_moves)
qed

text \<open>
  Through any history of the tables a row moves along its own steps, until it is purged after
  its expiry.
\<close>

lemma db_run_tracks:
  assumes "db_run s db t db'" and "db_inv db" and "find_row db i = Some g"
  shows "\<exists>g'. row_run s g t g' \<and> row_inv g' \<and> (find_row db' i = Some g' \<or> expired t g')"
  using assms(1)
proof (induction rule: db_run.induct)
  case (idle t)
  then show ?case using assms(3) db_inv_row [OF assms(2,3)] by (blast intro: row_run.row_idle)
next
  case (step t db1 now db2 u)
  then obtain h where h: "row_run s g t h" "row_inv h" "find_row db1 i = Some h \<or> expired t h" by blast
  have inv: "db_inv db1" using db_run_inv [OF step.hyps(1) assms(2)] .
  have inv': "db_inv db2" using db_step_inv [OF step.hyps(2) inv] .
  have later: "row_run s g u h" using row_run_later [OF h(1)] step.hyps(3,4) by simp
  have expires: "expired t' h \<Longrightarrow> t' \<le> u \<Longrightarrow> expired u h" for t'
    by (auto simp: expired_def split: option.splits)
  from h(3) show ?case
  proof
    assume "expired t h"
    with later h(2) expires step.hyps(3,4) show ?thesis by force
  next
    assume "find_row db1 i = Some h"
    from db_step_row [OF step.hyps(2) inv this] later h(1,2) expires step.hyps(3,4)
    show ?thesis by (blast intro: row_run.row_moves db_inv_row [OF inv'])
  qed
qed

lemma db_run_row:
  assumes "db_run s db t db'" and "db_inv db" and "find_row db i = Some g"
  shows "\<exists>g'. row_run s g t g' \<and> (find_row db' i = Some g' \<or> expired t g')"
  using db_run_tracks [OF assms] by blast

lemma row_run_trans: "row_run t h u k \<Longrightarrow> row_run s g t h \<Longrightarrow> row_run s g u k"
proof (induction rule: row_run.induct)
  case (row_idle u)
  then show ?case by (rule row_run_later [rotated])
next
  case (row_moves t1 k1 now k2 u)
  then show ?case by (blast intro: row_run.row_moves)
qed

text \<open>An expired row is a settled one.\<close>

lemma expired_settled: "row_inv g \<Longrightarrow> expired t g \<Longrightarrow> \<not> live_status (gen_status g)"
  by (auto simp: row_inv_def expired_def split: option.splits)

section \<open>Phases\<close>

text \<open>
  A row's phase orders its life: waiting for the provider's answer, called, settled. The
  request for cancellation and the call id are facts a later transaction never takes back.
\<close>

datatype phase = Waiting | Called | Settled

fun phase_rank :: "phase \<Rightarrow> nat" where
  "phase_rank Waiting = 0"
| "phase_rank Called = 1"
| "phase_rank Settled = 2"

lemma phase_rank_inj: "phase_rank p = phase_rank q \<Longrightarrow> p = q"
  by (cases p; cases q) simp_all

instantiation phase :: linorder
begin

definition less_eq_phase :: "phase \<Rightarrow> phase \<Rightarrow> bool" where
  "p \<le> q \<longleftrightarrow> phase_rank p \<le> phase_rank q"

definition less_phase :: "phase \<Rightarrow> phase \<Rightarrow> bool" where
  "p < q \<longleftrightarrow> phase_rank p < phase_rank q"

instance
  by standard (auto simp: less_eq_phase_def less_phase_def intro: phase_rank_inj)

end

definition phase_of :: "generation \<Rightarrow> phase" where
  "phase_of g =
     (if \<not> live_status (gen_status g) then Settled
      else if gen_provider_call_id g \<noteq> None then Called else Waiting)"

lemma row_step_phase:
  assumes "row_step now g g'" and "generation_row_check g'"
  shows "phase_of g \<le> phase_of g'"
  using assms(1)
proof cases
  case (settle r)
  then have "phase_of g' = Settled" using assms(2) by (simp add: phase_of_def generation_row_check_def)
  then show ?thesis by (cases "phase_of g") (simp_all add: less_eq_phase_def)
qed (auto simp: phase_of_def less_eq_phase_def cancel_row_def Let_def live_status_def)

lemma row_step_keeps:
  assumes "row_step now g g'"
  shows "gen_id g' = gen_id g \<and> gen_owner_id g' = gen_owner_id g \<and>
         gen_purpose g' = gen_purpose g \<and> gen_provider g' = gen_provider g \<and>
         gen_request_key g' = gen_request_key g \<and> gen_streamed g' = gen_streamed g \<and>
         gen_start_requested_at g' = gen_start_requested_at g \<and>
         gen_created_at g' = gen_created_at g"
  using assms by cases (simp_all add: cancel_row_def settle_row_def Let_def)

lemma row_run_keeps:
  assumes "row_run s g t g'"
  shows "gen_id g' = gen_id g \<and> gen_owner_id g' = gen_owner_id g \<and>
         gen_purpose g' = gen_purpose g \<and> gen_provider g' = gen_provider g \<and>
         gen_request_key g' = gen_request_key g \<and> gen_streamed g' = gen_streamed g \<and>
         gen_start_requested_at g' = gen_start_requested_at g \<and>
         gen_created_at g' = gen_created_at g"
  using assms by (induction rule: row_run.induct) (auto dest: row_step_keeps)

lemma row_step_call:
  "row_step now g g' \<Longrightarrow> row_inv g \<Longrightarrow> gen_provider_call_id g = Some c \<Longrightarrow>
     gen_provider_call_id g' = Some c"
  by (erule row_step.cases) (auto simp: row_inv_def generation_row_check_def live_status_def)

lemma row_step_cancel_request:
  "row_step now g g' \<Longrightarrow> gen_cancel_requested_at g = Some c \<Longrightarrow>
     gen_cancel_requested_at g' = Some c"
  by (erule row_step.cases) (auto simp: cancel_row_def Let_def)

lemma row_run_cancel_request:
  assumes "row_run s g t g'" and "gen_cancel_requested_at g \<noteq> None"
  shows "gen_cancel_requested_at g' \<noteq> None"
  using assms by (induction rule: row_run.induct) (auto dest: row_step_cancel_request)

lemma row_run_settled:
  assumes "row_run s g t g'" and "\<not> live_status (gen_status g)"
  shows "g' = g"
  using assms by (induction rule: row_run.induct) (auto dest: row_step_live)

text \<open>A settled row stays in the tables, unchanged, until it expires.\<close>

lemma settled_row_kept:
  assumes "db_run s db t db'" and "db_inv db" and "find_row db i = Some g"
    and "\<not> live_status (gen_status g)" and "\<not> expired t g"
  shows "find_row db' i = Some g"
  using db_run_row [OF assms(1-3)] row_run_settled assms(4,5) by blast

text \<open>A live row is still there after any one transaction, and its phase never goes back.\<close>

lemma live_row_present:
  assumes "db_step now db db'" and "db_inv db" and "find_row db i = Some g"
    and "live_status (gen_status g)"
  shows "\<exists>g'. find_row db' i = Some g' \<and> phase_of g \<le> phase_of g'"
proof -
  have unexpired: "\<not> expired now g"
    using db_inv_row [OF assms(2,3)] assms(4) by (simp add: row_inv_def expired_def)
  from db_step_row [OF assms(1-3)] show ?thesis
  proof (elim disjE exE conjE)
    assume "find_row db' i = Some g"
    then show ?thesis by blast
  next
    fix g'
    assume g': "row_step now g g'" "find_row db' i = Some g'"
    then have "generation_row_check g'"
      using db_inv_row [OF db_step_inv [OF assms(1,2)]] by (simp add: row_inv_def)
    with g' row_step_phase show ?thesis by blast
  next
    assume "expired now g"
    with unexpired show ?thesis by simp
  qed
qed

section \<open>Properties\<close>

definition sample_request :: submit_request where
  "sample_request =
     \<lparr>sub_id = 1, sub_owner_id = 2, sub_purpose = ''chat'', sub_provider = ''openai'',
      sub_request_key = [7], sub_traceparent = None, sub_streamed = False\<rparr>"

definition sample_db :: database where
  "sample_db =
     \<lparr>generations = [new_row 10 sample_request], attempts = [], usages = [],
      sweep_leader = None, json_ok = (\<lambda>_. True)\<rparr>"

definition sample_settle :: settle_request where
  "sample_settle =
     \<lparr>set_id = 1, set_start_requested_at = Some 10, set_provider_call_id = None,
      set_status = Failed, set_error = Some ''failed'', set_failure = Some NotStarted,
      set_retention = 1000, set_outcome_unknown = False\<rparr>"

lemma sample_row_check: "generation_row_check (new_row 10 sample_request)"
  by (simp add: generation_row_check_def new_row_def sample_request_def live_status_def)

lemma sample_db_inv: "db_inv sample_db"
  using new_row_inv [OF sample_row_check] by (simp add: db_inv_def sample_db_def)

lemma sample_find: "find_row sample_db 1 = Some (new_row 10 sample_request)"
  by (simp add: find_row_def sample_db_def sample_request_def)

lemma sample_settled:
  "sql_settle 20 sample_settle sample_db =
     (Inr (settle_row 20 sample_settle (new_row 10 sample_request)),
      put_row (settle_row 20 sample_settle (new_row 10 sample_request)) sample_db)"
proof -
  let ?r = "new_row 10 sample_request"
  have "settle_match sample_settle ?r"
    by (simp add: settle_match_def sample_settle_def sample_request_def live_status_def)
  moreover have "generation_row_check (settle_row 20 sample_settle ?r)"
    by (simp add: generation_row_check_def settle_row_def sample_settle_def sample_request_def new_row_def
        live_status_def)
  ultimately show ?thesis
    by (simp add: sql_settle_def update_generation_def sample_db_def put_row_def)
       (simp add: settle_row_def new_row_def)
qed

lemma sample_settled_step:
  "db_step 20 sample_db (put_row (settle_row 20 sample_settle (new_row 10 sample_request)) sample_db)"
proof (rule db_step.settled)
  show "settle_transaction 20 20 20 sample_settle None None sample_db =
      (Inr (settle_row 20 sample_settle (new_row 10 sample_request)),
       put_row (settle_row 20 sample_settle (new_row 10 sample_request)) sample_db)"
    by (simp add: settle_transaction_def sample_settled)
qed

text \<open>C13: Through any history of committed transactions, of every process, the tables keep their
  invariant: the constraints of the schema, one live or succeeded row per request key, one answer
  and one Usage Record per generation, and answers of settled generations only.\<close>

theorem history_keeps_invariant:
  assumes "db_run s db t db'" and "db_inv db"
  shows "db_inv db'"
  using assms by (rule db_run_inv)

theorem history_keeps_invariant_witness:
  "db_inv (put_row (settle_row 20 sample_settle (new_row 10 sample_request)) sample_db)"
  by (rule history_keeps_invariant [of 0 sample_db 30])
     (simp_all add: db_run_single [OF sample_settled_step] sample_db_inv)

text \<open>C15: A generation that settled is never written again: until its retention ends, the tables
  hold it exactly as it settled, whatever any process commits.\<close>

theorem settled_immutable:
  assumes "db_run s db t db'" and "db_inv db" and "find_row db i = Some g"
    and "terminal_status (gen_status g)" and "\<not> expired t g"
  shows "find_row db' i = Some g"
  using settled_row_kept [OF assms(1-3)] assms(4,5) by simp

theorem settled_immutable_witness:
  "find_row (sql_purge 30 {1} (put_row (settle_row 20 sample_settle (new_row 10 sample_request)) sample_db)) 1
     = Some (settle_row 20 sample_settle (new_row 10 sample_request))"
proof (rule settled_immutable [of 20 _ 40])
  let ?db = "put_row (settle_row 20 sample_settle (new_row 10 sample_request)) sample_db"
  show "db_run 20 ?db 40 (sql_purge 30 {1} ?db)"
    by (rule db_run_single [OF db_step.purged]) simp_all
  show "db_inv ?db" by (rule db_step_inv [OF sample_settled_step sample_db_inv])
  show "find_row ?db 1 = Some (settle_row 20 sample_settle (new_row 10 sample_request))"
    using sample_find by (simp add: find_row_put_row) (simp add: sample_request_def)
qed (simp_all add: sample_settle_def expired_def live_status_def)

text \<open>C16: No transaction of any process loses a generation that has not settled, and none takes its
  phase back: a call recorded stays recorded, a request for cancellation stays requested, and the
  row keeps its owner, request and start.\<close>

theorem live_generation_advances:
  assumes "db_step now db db'" and "db_inv db" and "find_row db i = Some g"
    and "live_status (gen_status g)"
  shows "\<exists>g'. find_row db' i = Some g' \<and> phase_of g \<le> phase_of g' \<and>
           gen_owner_id g' = gen_owner_id g \<and> gen_request_key g' = gen_request_key g \<and>
           gen_start_requested_at g' = gen_start_requested_at g \<and>
           (gen_provider_call_id g \<noteq> None \<longrightarrow> gen_provider_call_id g' = gen_provider_call_id g) \<and>
           (gen_cancel_requested_at g \<noteq> None \<longrightarrow>
              gen_cancel_requested_at g' = gen_cancel_requested_at g)"
proof -
  obtain g' where g': "find_row db' i = Some g'" "phase_of g \<le> phase_of g'"
    using live_row_present [OF assms] by blast
  have inv: "row_inv g" using db_inv_row [OF assms(2,3)] .
  from db_step_row [OF assms(1-3)] g'(1) consider "g' = g" | "row_step now g g'" by auto
  then show ?thesis
  proof cases
    case 1
    with g' show ?thesis by simp
  next
    case 2
    from row_step_keeps [OF this] row_step_call [OF this inv] row_step_cancel_request [OF this] g'
    show ?thesis by auto
  qed
qed

theorem live_generation_advances_witness:
  "\<exists>g'. find_row (put_row (settle_row 20 sample_settle (new_row 10 sample_request)) sample_db) 1 = Some g' \<and>
     gen_owner_id g' = 2"
  using live_generation_advances [OF sample_settled_step sample_db_inv sample_find]
  by (auto simp: live_status_def sample_request_def)

end
