(* ===== verification/Dao.thy ===== *)
theory Dao
  imports Lifecycle
begin

text \<open>
  The \<^verbatim>\<open>internal/dao\<close> package: one operation per \<open>Exec\<close>, each a statement of
  \<open>Tables\<close> with the errors the code maps. \<open>postgres.GetContext\<close> reads the pool
  the entrypoints attach to every context and does not fail in this model; spans and
  \<open>otel.ReportError\<close>, which answers its error unchanged, are left out.

  The second section shows that each moves the tables only along the program's steps, and
  the third states what a client reads off an operation's answer, as a locale.
\<close>

section \<open>Operations\<close>

definition map_error :: "(goerr \<Rightarrow> goerr) \<Rightarrow> goerr + 'a \<Rightarrow> goerr + 'a" where
  "map_error f r = (case r of Inl e \<Rightarrow> Inl (f e) | Inr a \<Rightarrow> Inr a)"

lemma map_error_simps [simp]: "map_error f (Inl e) = Inl (f e)" "map_error f (Inr a) = Inr a"
  by (simp_all add: map_error_def)

lemma map_error_Inr_iff [simp]: "map_error f r = Inr a \<longleftrightarrow> r = Inr a"
  by (cases r) simp_all

text \<open>\<open>if errors.Is(err, sql.ErrNoRows) { err = errors.Join(err, \<dots>) }\<close>\<close>

definition no_rows :: "sentinel \<Rightarrow> goerr \<Rightarrow> goerr" where
  "no_rows s err = (if err_is ErrNoRows err then Join err (Sentinel s) else err)"

abbreviation execute_query :: "goerr \<Rightarrow> goerr" where
  "execute_query \<equiv> Wrap ''execute query''"

lemma err_is_no_rows: "t \<noteq> s \<Longrightarrow> err_is t (no_rows s err) = err_is t err"
  by (simp add: no_rows_def)

record generation_submit_result =
  sres_generation :: generation
  sres_created :: bool

definition PgGenerationSubmit_Exec ::
  "ctx \<Rightarrow> submit_request \<Rightarrow> ('p, goerr + generation_submit_result) process" where
  "PgGenerationSubmit_Exec ctx r = do {
     res \<leftarrow> statement ctx (\<lambda>txn now. sql_submit now r);
     State_Monad.return
       (case res of
          Inl err \<Rightarrow> Inl (execute_query err)
        | Inr entity \<Rightarrow>
            Inr \<lparr>sres_generation = entity, sres_created = (gen_id entity = sub_id r)\<rparr>)
   }"

definition PgGenerationGet_Exec :: "ctx \<Rightarrow> uuid \<Rightarrow> uuid \<Rightarrow> ('p, goerr + generation) process" where
  "PgGenerationGet_Exec ctx i owner = do {
     res \<leftarrow> statement ctx (\<lambda>txn now. sql_get now i owner);
     State_Monad.return
       (map_error (\<lambda>err. execute_query (no_rows ErrGenerationGetNotFound err)) res)
   }"

definition PgGenerationRecordProviderCall_Exec ::
  "ctx \<Rightarrow> uuid \<Rightarrow> string \<Rightarrow> ('p, goerr + generation) process" where
  "PgGenerationRecordProviderCall_Exec ctx i call = do {
     res \<leftarrow> statement ctx (\<lambda>txn now. sql_record now i call);
     State_Monad.return
       (map_error (\<lambda>err. execute_query (no_rows ErrGenerationChanged err)) res)
   }"

definition PgGenerationRequestCancel_Exec ::
  "ctx \<Rightarrow> cancel_request \<Rightarrow> ('p, goerr + generation) process" where
  "PgGenerationRequestCancel_Exec ctx r = do {
     res \<leftarrow> statement ctx (\<lambda>txn now. sql_request_cancel now r);
     State_Monad.return
       (map_error (\<lambda>err. execute_query (no_rows ErrGenerationNotCancellable err)) res)
   }"

definition PgGenerationSettle_Exec ::
  "ctx \<Rightarrow> settle_request \<Rightarrow> ('p, goerr + generation) process" where
  "PgGenerationSettle_Exec ctx r = do {
     res \<leftarrow> statement ctx (\<lambda>txn now. sql_settle now r);
     State_Monad.return
       (map_error (\<lambda>err. execute_query (refused (no_rows ErrGenerationChanged err))) res)
   }"

definition PgGenerationAttemptInsert_Exec ::
  "ctx \<Rightarrow> uuid \<Rightarrow> raw \<Rightarrow> ('p, goerr + generation_attempt) process" where
  "PgGenerationAttemptInsert_Exec ctx i response = do {
     res \<leftarrow> statement ctx (\<lambda>txn now. sql_attempt_insert now i response);
     State_Monad.return (map_error (\<lambda>err. execute_query (refused err)) res)
   }"

definition PgGenerationAttemptList_Exec ::
  "ctx \<Rightarrow> uuid \<Rightarrow> ('p, goerr + generation_attempt list) process" where
  "PgGenerationAttemptList_Exec ctx i = do {
     res \<leftarrow> statement ctx (\<lambda>txn now. sql_attempt_list i);
     State_Monad.return (map_error execute_query res)
   }"

definition PgGenerationUsageInsert_Exec ::
  "ctx \<Rightarrow> generation_usage \<Rightarrow> ('p, goerr + generation_usage) process" where
  "PgGenerationUsageInsert_Exec ctx u = do {
     res \<leftarrow> statement ctx (\<lambda>txn now. sql_usage_insert now u);
     State_Monad.return
       (map_error (\<lambda>err. execute_query (refused (no_rows ErrGenerationUsageExists err))) res)
   }"

definition PgGenerationUsageSum_Exec ::
  "ctx \<Rightarrow> uuid \<Rightarrow> string \<Rightarrow> duration list \<Rightarrow> ('p, goerr + usage_totals list) process" where
  "PgGenerationUsageSum_Exec ctx owner purpose windows = do {
     res \<leftarrow> statement ctx (\<lambda>txn now. sql_usage_sum txn owner purpose windows);
     State_Monad.return (map_error execute_query res)
   }"

definition PgGenerationCountLive_Exec ::
  "ctx \<Rightarrow> uuid \<Rightarrow> string \<Rightarrow> duration \<Rightarrow> ('p, goerr + int) process" where
  "PgGenerationCountLive_Exec ctx owner purpose window = do {
     res \<leftarrow> statement ctx (\<lambda>txn now. sql_count_live txn owner purpose window);
     State_Monad.return (map_error execute_query res)
   }"

definition PgGenerationQueueDepth_Exec :: "ctx \<Rightarrow> ('p, goerr + int \<times> duration) process" where
  "PgGenerationQueueDepth_Exec ctx = do {
     res \<leftarrow> statement ctx (\<lambda>txn now. sql_queue_depth txn);
     State_Monad.return (map_error execute_query res)
   }"

definition PgGenerationSweep_Exec ::
  "ctx \<Rightarrow> uuid \<Rightarrow> nat \<Rightarrow> ('p, goerr + generation list) process" where
  "PgGenerationSweep_Exec ctx after limit = do {
     res \<leftarrow> statement ctx (\<lambda>txn now. sql_sweep now after limit);
     State_Monad.return (map_error execute_query res)
   }"

text \<open>
  The session the pool hands out for the lock is a number, its argument here. \<open>discard\<close>
  ends a session for good: whatever lock it holds ends with it.
\<close>

definition discard :: "nat \<Rightarrow> ('p, unit) process" where
  "discard session = State (\<lambda>w. ((), w\<lparr>w_db := snd (sql_sweep_unlock session (w_db w))\<rparr>))"

definition in_transaction :: "('p, bool) process" where
  "in_transaction = State (\<lambda>w. (w_tx w \<noteq> None, w))"

definition PgGenerationSweepLock_Exec :: "ctx \<Rightarrow> nat \<Rightarrow> ('p, goerr + nat) process" where
  "PgGenerationSweepLock_Exec ctx session = do {
     tx \<leftarrow> in_transaction;
     if tx then State_Monad.return (Inl (Sentinel ErrSweepLockInTransaction))
     else do {
       conn \<leftarrow> next_slot;
       case sl_fault conn of
         Fine \<Rightarrow> do {
           res \<leftarrow> statement ctx (\<lambda>txn now. sql_sweep_lock session);
           case res of
             Inl err \<Rightarrow> do { _ \<leftarrow> discard session; State_Monad.return (Inl (execute_query err)) }
           | Inr locked \<Rightarrow>
               State_Monad.return
                 (if locked then Inr session else Inl (Sentinel ErrGenerationSweepLocked))
         }
       | Lost t \<Rightarrow> State_Monad.return (Inl (Wrap ''take a connection'' (External t)))
       | Landed t \<Rightarrow> State_Monad.return (Inl (Wrap ''take a connection'' (External t)))
     }
   }"

definition PgGenerationSweepUnlock_Exec :: "ctx \<Rightarrow> nat option \<Rightarrow> ('p, goerr option) process" where
  "PgGenerationSweepUnlock_Exec ctx lock =
     (case lock of
        None \<Rightarrow> State_Monad.return None
      | Some session \<Rightarrow> do {
          res \<leftarrow> statement ctx (\<lambda>txn now. sql_sweep_unlock session);
          case res of
            Inl err \<Rightarrow> do { _ \<leftarrow> discard session; State_Monad.return (Some (execute_query err)) }
          | Inr unlocked \<Rightarrow>
              if unlocked then State_Monad.return None
              else do { _ \<leftarrow> discard session; State_Monad.return (Some (Sentinel ErrSweepLockNotHeld)) }
        })"

section \<open>Every operation moves the tables along the program's steps\<close>

lemma reads:
  "reading (\<lambda>txn now. sql_get now i owner)"
  "reading (\<lambda>txn now. sql_attempt_list i)"
  "reading (\<lambda>txn now. sql_usage_sum txn owner purpose windows)"
  "reading (\<lambda>txn now. sql_count_live txn owner purpose window)"
  "reading (\<lambda>txn now. sql_queue_depth txn)"
  "reading (\<lambda>txn now. sql_sweep now after limit)"
  by (simp_all add: reading_def sql_get_def sql_attempt_list_def sql_usage_sum_def
      sql_count_live_def sql_queue_depth_def sql_sweep_def Let_def split: option.splits)

lemma reading_stepping: "reading f \<Longrightarrow> stepping f"
  by (simp add: reading_def stepping_def)

lemmas stepping_reads = reads [THEN reading_stepping]

lemma stepping_submit: "stepping (\<lambda>txn now. sql_submit now r)"
  unfolding stepping_def using apply_transaction_step [of _ "TxSubmit r"] by simp

lemma stepping_record: "stepping (\<lambda>txn now. sql_record now i call)"
  unfolding stepping_def using apply_transaction_step [of _ "TxRecord i call"] by simp

lemma stepping_cancel: "stepping (\<lambda>txn now. sql_request_cancel now r)"
  unfolding stepping_def using apply_transaction_step [of _ "TxCancel r"] by simp

lemma stepping_usage: "stepping (\<lambda>txn now. sql_usage_insert now u)"
  unfolding stepping_def using apply_transaction_step [of _ "TxUsage u"] by simp

lemma stepping_lock: "stepping (\<lambda>txn now. sql_sweep_lock s)"
  unfolding stepping_def using apply_transaction_step [of _ "TxLock s"] by simp

lemma stepping_unlock: "stepping (\<lambda>txn now. sql_sweep_unlock s)"
  unfolding stepping_def using apply_transaction_step [of _ "TxUnlock s"] by simp

text \<open>Alone, a settle is a settle transaction that records nothing else.\<close>

lemma settle_alone: "settle_transaction now ta tu r None None db = sql_settle now r db"
  by (cases "sql_settle now r db"; cases "fst (sql_settle now r db)")
     (auto simp: settle_transaction_def sql_settle_def dest: update_generation_failed)

lemma stepping_settle: "stepping (\<lambda>txn now. sql_settle now r)"
  unfolding stepping_def using apply_transaction_step [of _ "TxSettle r None None"]
  by (simp add: settle_alone)

lemmas statements_step =
  stepping_reads stepping_submit stepping_record stepping_cancel stepping_usage stepping_lock
  stepping_unlock stepping_settle

lemma run_discard: "state_io_rel world_run (discard s)"
proof (rule state_io_relI)
  fix a and w w' :: "'p world"
  assume "run_state (discard s) w = (a, w')"
  then have w': "w' = w\<lparr>w_db := snd (sql_sweep_unlock s (w_db w))\<rparr>" by (simp add: discard_def)
  have "db_run (w_db_clock w) (w_db w) (w_db_clock w) (snd (sql_sweep_unlock s (w_db w)))"
    using apply_transaction_step [of "w_db_clock w" "TxUnlock s" "w_db w"] by (intro db_run_maybe) auto
  then show "world_run w w'" by (simp add: w' world_run_def)
qed

lemma quiet_discard: "state_io_rel no_start (discard s)"
  by (auto simp: state_io_rel_def discard_def no_start_def)

lemma run_in_transaction: "state_io_rel world_run in_transaction"
  by (auto simp: state_io_rel_def in_transaction_def runs.refl)

lemma quiet_in_transaction: "state_io_rel no_start in_transaction"
  by (auto simp: state_io_rel_def in_transaction_def quiet.refl)

section \<open>What a client reads off an operation's answer\<close>

text \<open>The database clock and the transaction's start at a statement.\<close>

definition tx_time :: "'p world \<Rightarrow> time" where
  "tx_time w = (case w_tx w of None \<Rightarrow> w_db_clock w | Some t \<Rightarrow> t)"

lemma statement_cases:
  assumes "run_state (statement ctx f) w = (r, w')"
  obtains (answered) sl w1 d where "run_state next_slot w = (sl, w1)"
      "r = fst (f (tx_time w1) (w_db_clock w1) (w_db w1))"
      "w' = (elapse d w1)\<lparr>w_db := snd (f (tx_time w1) (w_db_clock w1) (w_db w1))\<rparr>"
  | (unanswered) sl w1 d e where "run_state next_slot w = (sl, w1)" "r = Inl e" "foreign e"
      "w' = elapse d w1 \<or>
       w' = (elapse d w1)\<lparr>w_db := snd (f (tx_time w1) (w_db_clock w1) (w_db w1))\<rparr>"
proof -
  obtain sl w1 where step: "run_state next_slot w = (sl, w1)" by (cases "run_state next_slot w")
  with assms have "run_statement ctx sl f w1 = (r, w')" by (simp add: statement_def)
  note run = this [unfolded run_statement_def Let_def, folded tx_time_def]
  have ext: "foreign (External t)" "foreign (Sentinel ErrDeadlineExceeded)" for t
    by (simp_all add: foreign_def)
  show thesis
  proof (cases "over ctx (w_clock w1)")
    case True
    with run have "r = Inl (Sentinel ErrDeadlineExceeded)" "w' = elapse 0 w1" by simp_all
    then show thesis using unanswered [OF step _ ext(2)] by blast
  next
    case False
    note sent = run [unfolded if_not_P [OF False]]
    show thesis
    proof (cases "sl_fault sl")
      case (Lost t)
      with sent have "r = Inl (External t)" "w' = elapse (time_left ctx (sl_elapsed sl) (w_clock w1)) w1"
        by auto
      then show thesis using unanswered [OF step _ ext(1)] by blast
    next
      case (Landed t)
      with sent show thesis using unanswered [OF step _ ext(1)] by auto
    next
      case Fine
      show thesis
      proof (cases "cut_short ctx (sl_elapsed sl) (w_clock w1)")
        case True
        with Fine sent have "r = Inl (Sentinel ErrDeadlineExceeded)"
          "w' = elapse (time_left ctx (sl_elapsed sl) (w_clock w1)) w1" by auto
        then show thesis using unanswered [OF step _ ext(2)] by blast
      next
        case False
        with Fine sent show thesis using answered [OF step] by auto
      qed
    qed
  qed
qed

text \<open>
  An operation sends one statement and maps its error and its row. \<open>answered\<close> and
  \<open>failed\<close> are what its client may conclude.
\<close>

locale dao_operation =
  fixes exec :: "ctx \<Rightarrow> ('p, goerr + 'c) process"
    and f :: "time \<Rightarrow> time \<Rightarrow> 'a statement"
    and err :: "goerr \<Rightarrow> goerr"
    and out :: "'a \<Rightarrow> 'c"
  assumes exec: "exec ctx = do {
      res \<leftarrow> statement ctx f;
      State_Monad.return (case res of Inl e \<Rightarrow> Inl (err e) | Inr a \<Rightarrow> Inr (out a)) }"
begin

lemma tx: "state_io_rel tx_run (exec ctx)"
  unfolding exec by (intro txs.guarantee_bind txs.guarantee_return tx_statement)

lemma quiet: "state_io_rel no_start (exec ctx)"
  unfolding exec by (intro quiet.guarantee_bind quiet.guarantee_return quiet_statement)

lemma answered:
  assumes "run_state (exec ctx) w = (Inr c, w')"
  obtains sl w1 a d db' where "run_state next_slot w = (sl, w1)"
    and "f (tx_time w1) (w_db_clock w1) (w_db w1) = (Inr a, db')" and "c = out a"
    and "w' = (elapse d w1)\<lparr>w_db := db'\<rparr>"
proof -
  from assms obtain r where r: "run_state (statement ctx f) w = (r, w')"
    "(case r of Inl e \<Rightarrow> Inl (err e) | Inr a \<Rightarrow> Inr (out a)) = Inr c"
    unfolding exec by (auto split: prod.splits)
  then obtain a where a: "r = Inr a" "c = out a" by (cases r) auto
  from r(1) show thesis
  proof (cases rule: statement_cases)
    case (answered sl w1 d)
    obtain x db' where f: "f (tx_time w1) (w_db_clock w1) (w_db w1) = (x, db')" by force
    with answered a have "x = Inr a" by simp
    with f show thesis using that [OF answered(1)] answered(3) a(2) by simp
  next
    case (unanswered sl w1 d e)
    with a show thesis by simp
  qed
qed

lemma failed:
  assumes "run_state (exec ctx) w = (Inl e, w')"
  obtains (refused) sl w1 e' d db' where "run_state next_slot w = (sl, w1)" and "e = err e'"
      and "f (tx_time w1) (w_db_clock w1) (w_db w1) = (Inl e', db')"
      and "w' = (elapse d w1)\<lparr>w_db := db'\<rparr>"
  | (unanswered) sl w1 e' d where "run_state next_slot w = (sl, w1)" and "e = err e'" and "foreign e'"
      and "w' = elapse d w1 \<or>
           w' = (elapse d w1)\<lparr>w_db := snd (f (tx_time w1) (w_db_clock w1) (w_db w1))\<rparr>"
proof -
  from assms obtain r where r: "run_state (statement ctx f) w = (r, w')"
    "(case r of Inl e \<Rightarrow> Inl (err e) | Inr a \<Rightarrow> Inr (out a)) = Inl e"
    unfolding exec by (auto split: prod.splits)
  then obtain e' where e': "r = Inl e'" "e = err e'" by (cases r) auto
  from r(1) show thesis
  proof (cases rule: statement_cases)
    case (answered sl w1 d)
    obtain x db' where f: "f (tx_time w1) (w_db_clock w1) (w_db w1) = (x, db')" by force
    with answered e' have "x = Inl e'" by simp
    with f show thesis using refused [OF answered(1) e'(2)] answered(3) by simp
  next
    case (unanswered sl w1 d e'')
    with e' show thesis using that(2) by blast
  qed
qed

end

locale dao_step = dao_operation +
  assumes step: "stepping f"
begin

lemma run: "state_io_rel world_run (exec ctx)"
  unfolding exec by (intro runs.guarantee_bind runs.guarantee_return run_statement_stepping step)

end

locale dao_read = dao_operation +
  assumes read: "reading f"
begin

lemma frozen_read: "state_io_rel frozen (exec ctx)"
  unfolding exec by (intro freezes.guarantee_bind freezes.guarantee_return frozen_statement read)

lemma untouched_read: "state_io_rel untouched (exec ctx)"
  unfolding exec by (intro rests.guarantee_bind rests.guarantee_return untouched_statement read)

lemma silent_read: "state_io_rel silent (exec ctx)"
  unfolding exec by (intro silences.guarantee_bind silences.guarantee_return silent_statement)

text \<open>Inside a transaction the answer is read off the transaction's own tables.\<close>

lemma answered_in_tx:
  assumes "run_state (exec ctx) w = (Inr c, w')" and "w_tx w = Some txn"
  obtains a now where "f txn now (w_db w) = (Inr a, w_db w)" and "c = out a" and "w_db_clock w \<le> now"
proof -
  from assms(1) show thesis
  proof (cases rule: answered)
    case (1 sl w1 a d db')
    have "frozen w w1" using frozen_next_slot 1(1) by (rule state_io_relD)
    with assms(2) have w1: "w_db w1 = w_db w" "w_tx w1 = Some txn" "w_db_clock w \<le> w_db_clock w1"
      by (simp_all add: frozen_def)
    from read 1(2) have "db' = w_db w1" by (metis reading_def snd_conv)
    with 1 w1 show thesis using that [of "w_db_clock w1" a] by (simp add: tx_time_def)
  qed
qed

end

sublocale dao_read < dao_step
  by unfold_locales (rule reading_stepping [OF read])

interpretation dsubmit: dao_step "\<lambda>ctx. PgGenerationSubmit_Exec ctx r" "\<lambda>txn now. sql_submit now r"
  execute_query "\<lambda>g. \<lparr>sres_generation = g, sres_created = (gen_id g = sub_id r)\<rparr>" for r
  by unfold_locales (simp_all add: PgGenerationSubmit_Exec_def statements_step)

interpretation dget: dao_read "\<lambda>ctx. PgGenerationGet_Exec ctx i owner" "\<lambda>txn now. sql_get now i owner"
  "\<lambda>e. execute_query (no_rows ErrGenerationGetNotFound e)" "\<lambda>g. g" for i owner
  by unfold_locales (simp_all add: PgGenerationGet_Exec_def map_error_def reads)

interpretation drecord: dao_step "\<lambda>ctx. PgGenerationRecordProviderCall_Exec ctx i c"
  "\<lambda>txn now. sql_record now i c" "\<lambda>e. execute_query (no_rows ErrGenerationChanged e)" "\<lambda>g. g" for i c
  by unfold_locales (simp_all add: PgGenerationRecordProviderCall_Exec_def map_error_def statements_step)

interpretation dcancel: dao_step "\<lambda>ctx. PgGenerationRequestCancel_Exec ctx r"
  "\<lambda>txn now. sql_request_cancel now r" "\<lambda>e. execute_query (no_rows ErrGenerationNotCancellable e)"
  "\<lambda>g. g" for r
  by unfold_locales (simp_all add: PgGenerationRequestCancel_Exec_def map_error_def statements_step)

interpretation dsettle: dao_step "\<lambda>ctx. PgGenerationSettle_Exec ctx r" "\<lambda>txn now. sql_settle now r"
  "\<lambda>e. execute_query (refused (no_rows ErrGenerationChanged e))" "\<lambda>g. g" for r
  by unfold_locales (simp_all add: PgGenerationSettle_Exec_def map_error_def statements_step)

interpretation dattempt: dao_operation "\<lambda>ctx. PgGenerationAttemptInsert_Exec ctx i b"
  "\<lambda>txn now. sql_attempt_insert now i b" "\<lambda>e. execute_query (refused e)" "\<lambda>a. a" for i b
  by unfold_locales (simp add: PgGenerationAttemptInsert_Exec_def map_error_def)

interpretation dattempts: dao_read "\<lambda>ctx. PgGenerationAttemptList_Exec ctx i"
  "\<lambda>txn now. sql_attempt_list i" execute_query "\<lambda>a. a" for i
  by unfold_locales (simp_all add: PgGenerationAttemptList_Exec_def map_error_def reads)

interpretation dusage: dao_step "\<lambda>ctx. PgGenerationUsageInsert_Exec ctx u"
  "\<lambda>txn now. sql_usage_insert now u"
  "\<lambda>e. execute_query (refused (no_rows ErrGenerationUsageExists e))" "\<lambda>v. v" for u
  by unfold_locales (simp_all add: PgGenerationUsageInsert_Exec_def map_error_def statements_step)

interpretation dsum: dao_read "\<lambda>ctx. PgGenerationUsageSum_Exec ctx owner purpose windows"
  "\<lambda>txn now. sql_usage_sum txn owner purpose windows" execute_query "\<lambda>v. v" for owner purpose windows
  by unfold_locales (simp_all add: PgGenerationUsageSum_Exec_def map_error_def reads)

interpretation dcount: dao_read "\<lambda>ctx. PgGenerationCountLive_Exec ctx owner purpose window"
  "\<lambda>txn now. sql_count_live txn owner purpose window" execute_query "\<lambda>v. v" for owner purpose window
  by unfold_locales (simp_all add: PgGenerationCountLive_Exec_def map_error_def reads)

interpretation ddepth: dao_read "\<lambda>ctx. PgGenerationQueueDepth_Exec ctx"
  "\<lambda>txn now. sql_queue_depth txn" execute_query "\<lambda>v. v"
  by unfold_locales (simp_all add: PgGenerationQueueDepth_Exec_def map_error_def reads)

interpretation dsweep: dao_read "\<lambda>ctx. PgGenerationSweep_Exec ctx after limit"
  "\<lambda>txn now. sql_sweep now after limit" execute_query "\<lambda>v. v" for after limit
  by unfold_locales (simp_all add: PgGenerationSweep_Exec_def map_error_def reads)

lemmas run_dao =
  dsubmit.run dget.run drecord.run dcancel.run dsettle.run dattempts.run dusage.run dsum.run
  dcount.run ddepth.run dsweep.run

lemmas quiet_dao =
  dsubmit.quiet dget.quiet drecord.quiet dcancel.quiet dsettle.quiet dattempt.quiet dattempts.quiet
  dusage.quiet dsum.quiet dcount.quiet ddepth.quiet dsweep.quiet

lemmas tx_dao =
  dsubmit.tx dget.tx drecord.tx dcancel.tx dsettle.tx dattempt.tx dattempts.tx dusage.tx dsum.tx
  dcount.tx ddepth.tx dsweep.tx

lemma run_sweep_lock: "state_io_rel world_run (PgGenerationSweepLock_Exec ctx s)"
  unfolding PgGenerationSweepLock_Exec_def
  by (auto intro!: runs.guarantee_constructs run_in_transaction run_next_slot run_discard
        run_statement_stepping stepping_lock split: fault.splits)

lemma run_sweep_unlock: "state_io_rel world_run (PgGenerationSweepUnlock_Exec ctx l)"
  unfolding PgGenerationSweepUnlock_Exec_def
  by (intro runs.guarantee_constructs run_discard run_statement_stepping stepping_unlock)

lemma quiet_sweep_lock: "state_io_rel no_start (PgGenerationSweepLock_Exec ctx s)"
  unfolding PgGenerationSweepLock_Exec_def
  by (auto intro!: quiet.guarantee_constructs quiet_in_transaction quiet_next_slot quiet_discard
        quiet_statement split: fault.splits)

lemma quiet_sweep_unlock: "state_io_rel no_start (PgGenerationSweepUnlock_Exec ctx l)"
  unfolding PgGenerationSweepUnlock_Exec_def
  by (intro quiet.guarantee_constructs quiet_discard quiet_statement)

end
