(* ===== verification/Connectors.thy ===== *)
theory Connectors
  imports World
begin

text \<open>
  \<^verbatim>\<open>internal/lib/connectors/connector.go\<close>: what a provider's call is, the modes a
  connector offers, and the registry that names the connector of each provider.

  A mode is a Go interface: here a record of its operations, each a process, since a provider
  call takes time and leaves its mark on the provider. \<open>async_provider\<close> is the contract
  a check relies on. A connector is code under \<^verbatim>\<open>src/\<close> (\<open>OpenAI\<close>) or any
  other implementation of the interface.
\<close>

section \<open>Calls\<close>

text \<open>
  \<open>CallState\<close> is a Go string: \<open>CallOther\<close> holds the values with no name, the
  empty one of a call built without a state among them.
\<close>

datatype call_state =
  CallQueued | CallRunning | CallSucceeded | CallFailed | CallCancelled | CallOther string

fun call_state_text :: "call_state \<Rightarrow> string" where
  "call_state_text CallQueued = ''queued''"
| "call_state_text CallRunning = ''running''"
| "call_state_text CallSucceeded = ''succeeded''"
| "call_state_text CallFailed = ''failed''"
| "call_state_text CallCancelled = ''cancelled''"
| "call_state_text (CallOther s) = s"

definition Terminal :: "call_state \<Rightarrow> bool" where
  "Terminal state \<longleftrightarrow> state \<noteq> CallQueued \<and> state \<noteq> CallRunning"

record token_usage =
  use_input_tokens :: int
  use_cached_input_tokens :: int
  use_cache_write_tokens :: int
  use_output_tokens :: int
  use_reasoning_tokens :: int

record call =
  call_id :: string
  call_state :: call_state
  call_response :: "raw option"
  call_usage :: "token_usage option"
  call_model :: string
  call_class :: string
  call_tier :: string
  call_started_at :: time
  call_completed_at :: "time option"
  call_reason :: string

text \<open>The zero value of a Go \<open>Call\<close>.\<close>

definition zero_call :: call where
  "zero_call =
     \<lparr>call_id = [], call_state = CallOther [], call_response = None, call_usage = None,
      call_model = [], call_class = [], call_tier = [], call_started_at = 0,
      call_completed_at = None, call_reason = []\<rparr>"

record stream_event =
  ev_sequence :: int
  ev_data :: raw
  ev_terminal :: bool

section \<open>Modes\<close>

text \<open>
  \<open>AsyncStartRequest.Accepted\<close> is the last argument of \<open>as_start\<close>: a process that
  answers its error, or what it captured for its caller. \<open>as_start\<close> hands the last
  answer of \<open>Accepted\<close> back with its own, \<open>None\<close> when it never called it.

  An \<open>iter.Seq2\<close> of events is the list of what it yields, errors included.
\<close>

record ('p, 'r) async =
  as_start :: "ctx \<Rightarrow> raw \<Rightarrow> bool \<Rightarrow> (call \<Rightarrow> ('p, goerr + 'r) process) \<Rightarrow>
                 ('p, (goerr + call) \<times> (goerr + 'r) option) process"
  as_get :: "ctx \<Rightarrow> string \<Rightarrow> ('p, goerr + call) process"
  as_cancel :: "ctx \<Rightarrow> string \<Rightarrow> ('p, goerr + call) process"

type_synonym 'p streaming = "ctx \<Rightarrow> string \<Rightarrow> int option \<Rightarrow> ('p, (goerr + stream_event) list) process"

record ('p, 'r) connector =
  con_async :: "('p, 'r) async option"
  con_streaming :: "'p streaming option"

type_synonym ('p, 'r) registry = "string \<Rightarrow> ('p, 'r) connector option"

definition modeOf ::
  "(('p, 'r) connector \<Rightarrow> 'm option) \<Rightarrow> ('p, 'r) registry \<Rightarrow> string \<Rightarrow> goerr + 'm" where
  "modeOf mode registry provider =
     (case registry provider of
        None \<Rightarrow> Inl (Sentinel ErrProviderUnknown)
      | Some connector \<Rightarrow>
          (case mode connector of
             None \<Rightarrow> Inl (Sentinel ErrModeUnsupported)
           | Some m \<Rightarrow> Inr m))"

definition registry_Async :: "('p, 'r) registry \<Rightarrow> string \<Rightarrow> goerr + ('p, 'r) async" where
  "registry_Async = modeOf con_async"

definition registry_Streaming :: "('p, 'r) registry \<Rightarrow> string \<Rightarrow> goerr + 'p streaming" where
  "registry_Streaming = modeOf con_streaming"

text \<open>The calls of the modes as a check sends them, each leaving its mark in the trace.\<close>

definition connector_Start ::
  "('p, 'r) async \<Rightarrow> ctx \<Rightarrow> raw \<Rightarrow> bool \<Rightarrow> (call \<Rightarrow> ('p, goerr + 'r) process) \<Rightarrow>
   ('p, (goerr + call) \<times> (goerr + 'r) option) process" where
  "connector_Start connector ctx payload stream accepted =
     do { _ \<leftarrow> act (ActStart payload stream); as_start connector ctx payload stream accepted }"

definition connector_Get :: "('p, 'r) async \<Rightarrow> ctx \<Rightarrow> string \<Rightarrow> ('p, goerr + call) process" where
  "connector_Get connector ctx i = do { _ \<leftarrow> act (ActGet i); as_get connector ctx i }"

definition connector_Cancel :: "('p, 'r) async \<Rightarrow> ctx \<Rightarrow> string \<Rightarrow> ('p, goerr + call) process" where
  "connector_Cancel connector ctx i = do { _ \<leftarrow> act (ActCancel i); as_cancel connector ctx i }"

section \<open>The contract of the Async mode\<close>

text \<open>
  What a check relies on, beyond the types. A connector does not touch this service's tables:
  through a start, what moves them is \<open>Accepted\<close>. It sends one start for one call of
  \<open>Start\<close>. It hands \<open>Accepted\<close> only a call it can name, answers none it cannot, and hands back an
  answer \<open>Accepted\<close> gave.
\<close>

locale async_provider =
  fixes connector :: "('p, 'r) async"
  assumes start_run:
      "(\<And>c. state_io_rel world_run (accepted c)) \<Longrightarrow>
       state_io_rel world_run (as_start connector ctx payload stream accepted)"
    and start_quiet:
      "(\<And>c. state_io_rel no_start (accepted c)) \<Longrightarrow>
       state_io_rel no_start (as_start connector ctx payload stream accepted)"
    and start_named:
      "(\<And>c. call_id c \<noteq> [] \<Longrightarrow> accepted c = accepted' c) \<Longrightarrow>
       as_start connector ctx payload stream accepted = as_start connector ctx payload stream accepted'"
    and start_answers:
      "run_state (as_start connector ctx payload stream accepted) w = ((Inr c, answer), w') \<Longrightarrow>
       call_id c \<noteq> []"
    and start_hands:
      "(\<And>c. state_io_rel world_run (accepted c)) \<Longrightarrow>
       run_state (as_start connector ctx payload stream accepted) w = ((outcome, Some given), w') \<Longrightarrow>
       \<exists>c v v'. call_id c \<noteq> [] \<and> world_run w v \<and> run_state (accepted c) v = (given, v')"
    and get_run: "state_io_rel world_run (as_get connector ctx i)"
    and get_silent: "state_io_rel silent (as_get connector ctx i)"
    and cancel_run: "state_io_rel world_run (as_cancel connector ctx i)"
    and cancel_silent: "state_io_rel silent (as_cancel connector ctx i)"
begin

lemma Get_run: "state_io_rel world_run (connector_Get connector ctx i)"
  unfolding connector_Get_def by (intro runs.guarantee_bind run_act get_run)

lemma Cancel_run: "state_io_rel world_run (connector_Cancel connector ctx i)"
  unfolding connector_Cancel_def by (intro runs.guarantee_bind run_act cancel_run)

lemma Start_run:
  "(\<And>c. state_io_rel world_run (accepted c)) \<Longrightarrow>
     state_io_rel world_run (connector_Start connector ctx payload stream accepted)"
  unfolding connector_Start_def by (intro runs.guarantee_bind run_act start_run) blast

lemma Start_hands:
  assumes "\<And>c. state_io_rel world_run (accepted c)"
    and "run_state (connector_Start connector ctx payload stream accepted) w = ((outcome, Some answer), w')"
  shows "\<exists>c v v'. call_id c \<noteq> [] \<and> world_run w v \<and> run_state (accepted c) v = (answer, v')"
proof -
  let ?w = "w\<lparr>w_trace := w_trace w @ [ActStart payload stream]\<rparr>"
  from assms(2) have "run_state (as_start connector ctx payload stream accepted) ?w = ((outcome, Some answer), w')"
    by (simp add: connector_Start_def act_def)
  from start_hands [OF assms(1) this] obtain c v v' where "call_id c \<noteq> []" "world_run ?w v"
    "run_state (accepted c) v = (answer, v')" by (elim exE conjE)
  moreover have "world_run w ?w" by (simp add: world_run_def db_run_refl)
  ultimately show ?thesis using runs.trans by blast
qed

lemma Start_named:
  "run_state (connector_Start connector ctx payload stream accepted) w = ((Inr c, answer), w') \<Longrightarrow>
     call_id c \<noteq> []"
  using start_answers by (auto simp: connector_Start_def act_def)

lemma Get_quiet: "state_io_rel no_start (connector_Get connector ctx i)"
  unfolding connector_Get_def by (intro quiet.guarantee_bind quiet_act silent_quiet get_silent) simp

lemma Cancel_quiet: "state_io_rel no_start (connector_Cancel connector ctx i)"
  unfolding connector_Cancel_def by (intro quiet.guarantee_bind quiet_act silent_quiet cancel_silent) simp

lemma Get_trace:
  "run_state (connector_Get connector ctx i) w = (r, w') \<Longrightarrow> w_trace w' = w_trace w @ [ActGet i]"
  by (auto simp: connector_Get_def act_def silent_def dest!: state_io_relD [OF get_silent])

lemma Cancel_trace:
  "run_state (connector_Cancel connector ctx i) w = (r, w') \<Longrightarrow> w_trace w' = w_trace w @ [ActCancel i]"
  by (auto simp: connector_Cancel_def act_def silent_def dest!: state_io_relD [OF cancel_silent])

text \<open>A start leaves exactly one start in the trace, whatever \<open>Accepted\<close> writes.\<close>

lemma Start_once:
  assumes "\<And>c. state_io_rel no_start (accepted c)"
    and "run_state (connector_Start connector ctx payload stream accepted) w = (r, w')"
  shows "filter is_start (w_trace w') = filter is_start (w_trace w) @ [ActStart payload stream]"
proof -
  from assms(2) have
    "run_state (as_start connector ctx payload stream accepted)
       (w\<lparr>w_trace := w_trace w @ [ActStart payload stream]\<rparr>) = (r, w')"
    by (simp add: connector_Start_def act_def)
  with start_quiet [OF assms(1)] have
    "no_start (w\<lparr>w_trace := w_trace w @ [ActStart payload stream]\<rparr>) w'"
    by (rule state_io_relD)
  then show ?thesis by (simp add: no_start_def)
qed

end

text \<open>A registry whose connectors all keep the contract.\<close>

definition lawful :: "('p, 'r) registry \<Rightarrow> bool" where
  "lawful registry \<longleftrightarrow>
     (\<forall>p c a. registry p = Some c \<longrightarrow> con_async c = Some a \<longrightarrow> async_provider a)"

lemma lawful_Async:
  assumes "lawful registry" and "registry_Async registry p = Inr a"
  shows "async_provider a"
  using assms
  by (auto simp: lawful_def registry_Async_def modeOf_def split: option.splits)

text \<open>A connector whose answers are fixed: it names nothing before its start returns.\<close>

definition canned_async :: "goerr + call \<Rightarrow> goerr + call \<Rightarrow> goerr + call \<Rightarrow> ('p, 'r) async" where
  "canned_async s g c =
     \<lparr>as_start = (\<lambda>ctx payload stream accepted. State_Monad.return (s, None)),
      as_get = (\<lambda>ctx i. State_Monad.return g), as_cancel = (\<lambda>ctx i. State_Monad.return c)\<rparr>"

lemma canned_provider:
  assumes "\<And>x. s = Inr x \<Longrightarrow> call_id x \<noteq> []"
  shows "async_provider (canned_async s g c)"
  using assms
  by unfold_locales
     (auto simp: canned_async_def intro!: runs.guarantee_return quiet.guarantee_return
        silences.guarantee_return)

interpretation canned: async_provider "canned_async (Inr (zero_call\<lparr>call_id := ''resp_1''\<rparr>)) g c" for g c
  by (rule canned_provider) auto

section \<open>The contract of the Streaming mode\<close>

text \<open>Reading an operation's events starts nothing and touches none of this service's tables.\<close>

locale streaming_provider =
  fixes events :: "'p streaming"
  assumes stream_run: "state_io_rel world_run (events ctx i cursor)"
    and stream_silent: "state_io_rel silent (events ctx i cursor)"
    and stream_untouched: "state_io_rel untouched (events ctx i cursor)"

definition streams_lawfully :: "('p, 'r) registry \<Rightarrow> bool" where
  "streams_lawfully registry \<longleftrightarrow>
     (\<forall>p c s. registry p = Some c \<longrightarrow> con_streaming c = Some s \<longrightarrow> streaming_provider s)"

lemma lawful_Streaming:
  assumes "streams_lawfully registry" and "registry_Streaming registry p = Inr s"
  shows "streaming_provider s"
  using assms
  by (auto simp: streams_lawfully_def registry_Streaming_def modeOf_def split: option.splits)

end
