(* ===== verification/Check.thy ===== *)
theory Check
  imports Dao Connectors
begin

text \<open>
  \<^verbatim>\<open>internal/core/generationCheck.go\<close>: one check of one generation. A check sends
  the call its submit holds, or asks the provider once and settles the generation when its
  call ended.

  The methods of \<open>GenerationCheck\<close> are the processes below, under their Go names with the
  prefix \<open>check_\<close>. Durations are compared as integers: \<open>time.Time.Sub\<close> saturates
  about 292 years out, far past every bound here. A nil dereference is the error
  \<open>Panic\<close>.
\<close>

section \<open>Constants\<close>

definition startTimeout :: duration where "startTimeout = 20 * second"
definition persistenceTimeout :: duration where "persistenceTimeout = 4 * second"
definition streamStartTimeout :: duration where "streamStartTimeout = 30 * second"
definition streamQueuedCeiling :: duration where "streamQueuedCeiling = 5 * minute"
definition recordPatience :: duration where "recordPatience = 2 * minute"
definition recordPause :: duration where "recordPause = 250 * millisecond"
definition recordPauseCeiling :: duration where "recordPauseCeiling = 5 * second"
definition startOutcomeUnknownAfter :: duration where "startOutcomeUnknownAfter = 3 * minute"
definition checkTimeout :: duration where "checkTimeout = minute"
definition startCheckTimeout :: duration where "startCheckTimeout = recordPatience + checkTimeout"
definition stopRetryWindow :: duration where "stopRetryWindow = 10 * minute"
definition runCeiling :: duration where "runCeiling = 2 * hour"

lemmas check_constants =
  startTimeout_def persistenceTimeout_def streamStartTimeout_def streamQueuedCeiling_def
  recordPatience_def recordPause_def recordPauseCeiling_def startOutcomeUnknownAfter_def
  checkTimeout_def startCheckTimeout_def stopRetryWindow_def runCeiling_def

definition generationCancelledReason :: string where
  "generationCancelledReason = ''generation cancelled''"
definition failureOutcomeUnknown :: string where
  "failureOutcomeUnknown =
     ''the provider may have accepted the call, but its outcome is unknown''"
definition failureResultLost :: string where
  "failureResultLost = ''the provider no longer holds the result''"
definition failureStartFailed :: string where
  "failureStartFailed = ''the provider call could not be started''"
definition failureCallFailed :: string where
  "failureCallFailed = ''the provider failed the call''"
definition failureRejected :: string where
  "failureRejected = ''the provider rejected the request''"
definition failureProviderUnavailable :: string where
  "failureProviderUnavailable = ''no connector serves the generation's provider''"
definition failureOverdue :: string where
  "failureOverdue = ''the provider did not finish the call in time, so it was stopped''"
definition failureNotStopped :: string where
  "failureNotStopped =
     ''the call could not be stopped, and the provider may still run it''"
definition failureResponseTooLarge :: string where
  "failureResponseTooLarge =
     ''the provider's response is larger than the 24 MiB this service reads''"
definition failureNotRecorded :: string where
  "failureNotRecorded = ''the provider's answer could not be recorded''"

lemmas check_messages =
  generationCancelledReason_def failureOutcomeUnknown_def failureResultLost_def
  failureStartFailed_def failureCallFailed_def failureRejected_def
  failureProviderUnavailable_def failureOverdue_def failureNotStopped_def
  failureResponseTooLarge_def failureNotRecorded_def

section \<open>The service\<close>

text \<open>
  The DAOs of the service are the operations of \<open>Dao\<close>, as every entrypoint wires them.
  \<open>gc_retention\<close> is \<open>config.Generations.Retention\<close>.
\<close>

record 'p generation_check =
  gc_registry :: "('p, generation) registry"
  gc_transactor :: "('p, generation option) transactor"
  gc_retention :: duration

record generation_check_start =
  cs_payload :: raw
  cs_intent_at :: time

record check_request =
  cr_generation :: generation
  cr_start :: "generation_check_start option"

definition failureLog :: "generation \<Rightarrow> string \<Rightarrow> string" where
  "failureLog g reason =
     ''generation '' @ uuid_String (gen_id g) @ '' failed: '' @
     (if reason = [] then ''provider returned no failure reason'' else reason)"

section \<open>Settling\<close>

definition settleOutcomeOf :: "generation \<Rightarrow> call \<Rightarrow> generation_status \<times> string option" where
  "settleOutcomeOf g call =
     (case call_state call of
        CallSucceeded \<Rightarrow> (Succeeded, None)
      | CallCancelled \<Rightarrow>
          if gen_cancel_requested_at g = None then (Failed, Some failureOverdue)
          else (Cancelled, Some generationCancelledReason)
      | _ \<Rightarrow> (Failed, Some failureCallFailed))"

text \<open>The Usage Record of a call, as \<open>recordUsage\<close> builds it.\<close>

definition usage_of :: "generation \<Rightarrow> call \<Rightarrow> token_usage \<Rightarrow> generation_usage" where
  "usage_of g call u =
     \<lparr>usg_generation_id = gen_id g, usg_attempt = 0, usg_owner_id = gen_owner_id g,
      usg_purpose = gen_purpose g, usg_provider = gen_provider g, usg_model = call_model call,
      usg_class = call_class call,
      usg_tier = (if call_tier call = [] then None else Some (call_tier call)),
      usg_input_tokens = use_input_tokens u, usg_cached_input_tokens = use_cached_input_tokens u,
      usg_cache_write_tokens = use_cache_write_tokens u,
      usg_output_tokens = use_output_tokens u, usg_reasoning_tokens = use_reasoning_tokens u,
      usg_started_at =
        (if call_started_at call = 0
         then (case gen_start_requested_at g of None \<Rightarrow> 0 | Some t \<Rightarrow> t)
         else call_started_at call),
      usg_completed_at = call_completed_at call, usg_created_at = 0\<rparr>"

definition check_recordUsage :: "ctx \<Rightarrow> generation \<Rightarrow> call \<Rightarrow> ('p, goerr option) process" where
  "check_recordUsage ctx g call =
     (case call_usage call of
        None \<Rightarrow> State_Monad.return None
      | Some u \<Rightarrow> do {
          res \<leftarrow> PgGenerationUsageInsert_Exec ctx (usage_of g call u);
          State_Monad.return
            (case res of
               Inl err \<Rightarrow>
                 if err_is ErrGenerationUsageExists err then None
                 else Some (Wrap ''record usage'' err)
             | Inr _ \<Rightarrow> None)
        })"

definition check_recordAttempt ::
  "ctx \<Rightarrow> generation \<Rightarrow> raw option \<Rightarrow> ('p, goerr option) process" where
  "check_recordAttempt ctx g response =
     (case response of
        None \<Rightarrow> State_Monad.return None
      | Some bytes \<Rightarrow> do {
          res \<leftarrow> PgGenerationAttemptInsert_Exec ctx (gen_id g) bytes;
          State_Monad.return
            (case res of Inl err \<Rightarrow> Some (Wrap ''record attempt'' err) | Inr _ \<Rightarrow> None)
        })"

definition commit_request ::
  "duration \<Rightarrow> generation \<Rightarrow> generation_status \<Rightarrow> string option \<Rightarrow>
   generation_failure option \<Rightarrow> settle_request" where
  "commit_request retention g status message class =
     \<lparr>set_id = gen_id g, set_start_requested_at = gen_start_requested_at g,
      set_provider_call_id = gen_provider_call_id g, set_status = status, set_error = message,
      set_failure = class, set_retention = retention,
      set_outcome_unknown = (class = Some OutcomeUnknown)\<rparr>"

definition commit_body ::
  "ctx \<Rightarrow> settle_request \<Rightarrow> generation \<Rightarrow> call \<Rightarrow> ('p, generation option) body" where
  "commit_body ctx r g call = do {
     res \<leftarrow> PgGenerationSettle_Exec ctx r;
     case res of
       Inl err \<Rightarrow> State_Monad.return (Some (Wrap ''settle generation'' err), None)
     | Inr settled \<Rightarrow> do {
         attempt_err \<leftarrow> check_recordAttempt ctx g (call_response call);
         case attempt_err of
           Some err \<Rightarrow> State_Monad.return (Some err, Some settled)
         | None \<Rightarrow> do {
             usage_err \<leftarrow> check_recordUsage ctx g call;
             State_Monad.return (usage_err, Some settled)
           }
       }
   }"

definition check_commit ::
  "'p generation_check \<Rightarrow> ctx \<Rightarrow> generation \<Rightarrow> generation_status \<Rightarrow> string option \<Rightarrow>
   generation_failure option \<Rightarrow> call \<Rightarrow> ('p, goerr + generation) process" where
  "check_commit service ctx g status message class call = do {
     res \<leftarrow> gc_transactor service ctx
       (commit_body ctx (commit_request (gc_retention service) g status message class) g call);
     State_Monad.return
       (case res of
          (Some err, _) \<Rightarrow> Inl err
        | (None, Some (Some settled)) \<Rightarrow> Inr settled
        | (None, _) \<Rightarrow> Inl (Panic ''no settled generation''))
   }"

definition check_settleFailure ::
  "'p generation_check \<Rightarrow> ctx \<Rightarrow> generation \<Rightarrow> string \<Rightarrow> generation_failure \<Rightarrow> string \<Rightarrow>
   raw option \<Rightarrow> ('p, goerr + generation) process" where
  "check_settleFailure service ctx g message class cause response = do {
     _ \<leftarrow> logger_Err (failureLog g cause);
     now \<leftarrow> time_Now;
     check_commit service (with_timeout None now persistenceTimeout) g Failed (Some message)
       (Some class) (zero_call\<lparr>call_response := response\<rparr>)
   }"

definition check_settle ::
  "'p generation_check \<Rightarrow> ctx \<Rightarrow> generation \<Rightarrow> call \<Rightarrow> ('p, goerr + generation) process" where
  "check_settle service ctx g call =
     (let (status, message) = settleOutcomeOf g call in
      if status = Failed then do {
        _ \<leftarrow> logger_Err (failureLog g
               (if call_state call = CallFailed then call_reason call
                else (case message of None \<Rightarrow> [] | Some m \<Rightarrow> m)));
        check_commit service ctx g status message (Some ProviderFailed) call
      }
      else check_commit service ctx g status message None call)"

section \<open>Asking the provider\<close>

text \<open>
  \<open>ask\<close> reads or stops the call. \<open>start\<close> and \<open>id\<close> are what its caller
  dereferenced: the start and the call id of the generation.
\<close>

definition stop_wanted :: "generation \<Rightarrow> time \<Rightarrow> time option" where
  "stop_wanted g start =
     (let since = gen_cancel_requested_at g;
          ceiling = start + runCeiling in
      if gen_read_at g - start \<ge> runCeiling \<and>
         (case since of None \<Rightarrow> True | Some t \<Rightarrow> ceiling < t)
      then Some ceiling else since)"

definition ask_stop ::
  "ctx \<Rightarrow> ('p, 'r) async \<Rightarrow> string \<Rightarrow> time \<Rightarrow> ('p, (goerr + call) \<times> time option) process" where
  "ask_stop ctx connector i since = do {
     res \<leftarrow> connector_Cancel connector ctx i;
     State_Monad.return (res, Some since)
   }"

definition check_ask ::
  "ctx \<Rightarrow> ('p, 'r) async \<Rightarrow> generation \<Rightarrow> time \<Rightarrow> string \<Rightarrow>
   ('p, (goerr + call) \<times> time option) process" where
  "check_ask ctx connector g start i =
     (case stop_wanted g start of
        Some since \<Rightarrow> ask_stop ctx connector i since
      | None \<Rightarrow> do {
          res \<leftarrow> connector_Get connector ctx i;
          case res of
            Inl err \<Rightarrow> State_Monad.return (Inl err, None)
          | Inr call \<Rightarrow>
              if \<not> gen_streamed g \<or> call_state call \<noteq> CallQueued \<or>
                 gen_read_at g - start < streamQueuedCeiling
              then State_Monad.return (Inr call, None)
              else ask_stop ctx connector i (start + streamQueuedCeiling)
        })"

text \<open>
  What a check makes of the provider's answer: settle the call's outcome, leave the generation
  to the next check, or fail it with a message, a class and a reason for the logs.
\<close>

datatype verdict = Settle call | Leave | Fail string generation_failure string

definition verdict_of :: "generation \<Rightarrow> goerr + call \<Rightarrow> time option \<Rightarrow> verdict" where
  "verdict_of g res stopSince =
     (let waiting = (case stopSince of
                       None \<Rightarrow> True | Some since \<Rightarrow> gen_read_at g - since < stopRetryWindow) in
      case res of
        Inr call \<Rightarrow>
          if Terminal (call_state call) then Settle call
          else if waiting then Leave
          else Fail failureNotStopped OutcomeUnknown
                 (''the stop left the call '' @ call_state_text (call_state call))
      | Inl err \<Rightarrow>
          if err_is ErrResponseTooLarge err
          then Fail failureResponseTooLarge OutcomeUnknown (err_text err)
          else if \<not> err_is ErrRetryable err
          then Fail failureResultLost ProviderFailed (err_text err)
          else if waiting then Leave
          else Fail failureNotStopped OutcomeUnknown (err_text err))"

text \<open>
  The settle of a terminal call. A call another check cancelled is labeled from the cancel
  request as it stands now.
\<close>

definition observe_settle ::
  "'p generation_check \<Rightarrow> ctx \<Rightarrow> generation \<Rightarrow> time \<Rightarrow> call \<Rightarrow> time option \<Rightarrow>
   ('p, goerr + generation) process" where
  "observe_settle service ctx g start call stopSince = do {
     labeled \<leftarrow>
       (if call_state call = CallCancelled \<and> gen_cancel_requested_at g = None \<and> stopSince = None
        then do {
          res \<leftarrow> PgGenerationGet_Exec ctx (gen_id g) (gen_owner_id g);
          State_Monad.return
            (case res of
               Inl err \<Rightarrow> Inl (Wrap ''re-read generation'' err)
             | Inr current \<Rightarrow>
                 Inr (g\<lparr>gen_cancel_requested_at := gen_cancel_requested_at current\<rparr>))
        }
        else State_Monad.return (Inr g));
     case labeled of
       Inl err \<Rightarrow> State_Monad.return (Inl err)
     | Inr g \<Rightarrow> do {
         settled \<leftarrow> check_settle service ctx g call;
         case settled of
           Inl err \<Rightarrow>
             if err_is ErrRefused err \<and> gen_read_at g - start \<ge> runCeiling + stopRetryWindow
             then check_settleFailure service ctx g failureNotRecorded ProviderFailed (err_text err) None
             else State_Monad.return (Inl err)
         | Inr settled \<Rightarrow> State_Monad.return (Inr settled)
       }
   }"

definition check_observe ::
  "'p generation_check \<Rightarrow> ctx \<Rightarrow> generation \<Rightarrow> ('p, goerr + generation) process" where
  "check_observe service ctx g =
     (case registry_Async (gc_registry service) (gen_provider g) of
        Inl err \<Rightarrow>
          check_settleFailure service ctx g failureProviderUnavailable OutcomeUnknown (err_text err) None
      | Inr connector \<Rightarrow>
          (case (gen_start_requested_at g, gen_provider_call_id g) of
             (Some start, Some i) \<Rightarrow> do {
               (res, stopSince) \<leftarrow> check_ask ctx connector g start i;
               case verdict_of g res stopSince of
                 Settle call \<Rightarrow> observe_settle service ctx g start call stopSince
               | Leave \<Rightarrow> State_Monad.return (Inr g)
               | Fail message class reason \<Rightarrow>
                   check_settleFailure service ctx g message class reason None
             }
           | _ \<Rightarrow> State_Monad.return (Inl (Panic ''nil pointer dereference''))))"

section \<open>Sending a call\<close>

definition check_stopOrphan ::
  "ctx \<Rightarrow> ('p, 'r) async \<Rightarrow> generation \<Rightarrow> string \<Rightarrow> ('p, unit) process" where
  "check_stopOrphan ctx connector g callID = do {
     res \<leftarrow> connector_Cancel connector ctx callID;
     err \<leftarrow>
       (case res of
          Inl err \<Rightarrow> State_Monad.return (Some err)
        | Inr call \<Rightarrow> do {
            now \<leftarrow> time_Now;
            check_recordUsage (with_timeout ctx now persistenceTimeout) g call
          });
     case err of
       None \<Rightarrow> State_Monad.return ()
     | Some err \<Rightarrow>
         logger_Err (''generation '' @ uuid_String (gen_id g) @ '': stop orphaned provider call '' @
                     callID @ '': '' @ err_text err)
   }"

text \<open>One write of a call id, in a deadline of its own.\<close>

definition record_write ::
  "ctx \<Rightarrow> uuid \<Rightarrow> string \<Rightarrow> ('p, goerr + generation) process" where
  "record_write ctx i callID = do {
     now \<leftarrow> time_Now;
     PgGenerationRecordProviderCall_Exec (with_timeout ctx now persistenceTimeout) i callID
   }"

text \<open>The pause before the \<open>n\<close>-th retry: doubled after each write, up to the ceiling.\<close>

primrec record_pause :: "nat \<Rightarrow> duration" where
  "record_pause 0 = recordPause"
| "record_pause (Suc n) = min (record_pause n + record_pause n) recordPauseCeiling"

lemma record_pause_pos: "0 < record_pause n"
  by (induction n) (simp_all add: recordPause_def recordPauseCeiling_def)

definition sleep :: "duration \<Rightarrow> 'p world \<Rightarrow> 'p world" where
  "sleep d w = w\<lparr>w_clock := w_clock w + max d 0, w_db_clock := w_db_clock w + max d 0\<rparr>"

lemma run_record_write: "state_io_rel world_run (record_write ctx i callID)"
  unfolding record_write_def by (intro runs.guarantee_bind run_time_Now run_dao)

lemma quiet_record_write: "state_io_rel no_start (record_write ctx i callID)"
  unfolding record_write_def
  by (intro quiet.guarantee_bind quiet_time_Now quiet_dao)

text \<open>
  The retries of \<open>recordCall\<close>. \<open>Inl\<close> is the early return of a context that ended
  during a pause, \<open>Inr\<close> what the last write answered.
\<close>

function record_retry ::
  "ctx \<Rightarrow> uuid \<Rightarrow> string \<Rightarrow> time \<Rightarrow> nat \<Rightarrow> goerr + generation \<Rightarrow> 'p world \<Rightarrow>
   (goerr + (goerr + generation)) \<times> 'p world" where
  "record_retry ctx i callID deadline n res w =
     (case res of
        Inr g \<Rightarrow> (Inr (Inr g), w)
      | Inl err \<Rightarrow>
          if \<not> err_is ErrGenerationChanged err \<and> w_clock w + record_pause n < deadline
          then if (case ctx of None \<Rightarrow> False | Some t \<Rightarrow> t < w_clock w + record_pause n)
               then (Inl (Join err (Sentinel ErrDeadlineExceeded)), sleep (the ctx - w_clock w) w)
               else
                 (let (res', w') = run_state (record_write ctx i callID) (sleep (record_pause n) w) in
                  record_retry ctx i callID deadline (Suc n) res' w')
          else (Inr (Inl err), w))"
  by pat_completeness auto

termination
proof (relation "measure (\<lambda>(ctx, i, callID, deadline, n, res, w). nat (deadline - w_clock w))")
  show "wf (measure (\<lambda>(ctx :: ctx, i :: uuid, callID :: string, deadline, n :: nat,
      res :: goerr + generation, w :: 'p world). nat (deadline - w_clock w)))"
    by simp
next
  fix ctx :: ctx and i :: uuid and callID :: string and deadline :: time and n :: nat
    and res res' :: "goerr + generation" and w w' :: "'p world" and err x
  assume next_write: "x = run_state (record_write ctx i callID) (sleep (record_pause n) w)"
    "(res', w') = x"
    and more: "\<not> err_is ErrGenerationChanged err \<and> w_clock w + record_pause n < deadline"
  have "world_run (sleep (record_pause n) w) w'"
    using run_record_write [of ctx i callID] next_write by (metis state_io_relD)
  then have "w_clock w + record_pause n \<le> w_clock w'"
    using record_pause_pos [of n] by (simp add: world_run_def sleep_def)
  then show "((ctx, i, callID, deadline, Suc n, res', w'), ctx, i, callID, deadline, n, res, w)
      \<in> measure (\<lambda>(ctx, i, callID, deadline, n, res, w). nat (deadline - w_clock w))"
    using more record_pause_pos [of n] by simp
qed

declare record_retry.simps [simp del]

lemma record_retry_done [simp]:
  "record_retry ctx i callID deadline n (Inr g) w = (Inr (Inr g), w)"
  by (simp add: record_retry.simps)

lemma record_retry_again:
  assumes "\<not> err_is ErrGenerationChanged err" and "w_clock w + record_pause n < deadline"
    and "run_state (record_write None i callID) (sleep (record_pause n) w) = (res, w')"
  shows "record_retry None i callID deadline n (Inl err) w =
           record_retry None i callID deadline (Suc n) res w'"
  using assms by (subst record_retry.simps) simp

definition check_recordCall ::
  "ctx \<Rightarrow> ('p, 'r) async \<Rightarrow> generation \<Rightarrow> time \<Rightarrow> string \<Rightarrow> ('p, goerr + generation) process" where
  "check_recordCall ctx connector intent intentAt callID = do {
     first \<leftarrow> record_write ctx (gen_id intent) callID;
     let movedOn = (case first of Inl err \<Rightarrow> err_is ErrGenerationChanged err | Inr _ \<Rightarrow> False);
     written \<leftarrow> State (record_retry ctx (gen_id intent) callID (intentAt + recordPatience) 0 first);
     case written of
       Inl err \<Rightarrow> State_Monad.return (Inl err)
     | Inr (Inr recorded) \<Rightarrow> State_Monad.return (Inr recorded)
     | Inr (Inl err) \<Rightarrow> do {
         carried \<leftarrow>
           (if movedOn then State_Monad.return None
            else do {
              now \<leftarrow> time_Now;
              got \<leftarrow> PgGenerationGet_Exec (with_timeout ctx now persistenceTimeout)
                       (gen_id intent) (gen_owner_id intent);
              State_Monad.return
                (case got of
                   Inl _ \<Rightarrow> Some (Inl err)
                 | Inr current \<Rightarrow>
                     if (case gen_provider_call_id current of None \<Rightarrow> [] | Some c \<Rightarrow> c) = callID
                     then Some (Inr current) else None)
            });
         case carried of
           Some answer \<Rightarrow> State_Monad.return answer
         | None \<Rightarrow> do {
             _ \<leftarrow> check_stopOrphan ctx connector intent callID;
             State_Monad.return (Inl err)
           }
       }
   }"

definition failStart_class :: "goerr \<Rightarrow> string \<times> generation_failure \<times> raw option" where
  "failStart_class cause =
     (case as_rejection cause of
        Some response \<Rightarrow> (failureRejected, Rejected, response)
      | None \<Rightarrow>
          if err_is ErrStartAmbiguous cause then (failureOutcomeUnknown, OutcomeUnknown, None)
          else (failureStartFailed, NotStarted, None))"

definition check_failStart ::
  "'p generation_check \<Rightarrow> ctx \<Rightarrow> generation \<Rightarrow> goerr \<Rightarrow> ('p, goerr + generation) process" where
  "check_failStart service ctx intent cause =
     (let (message, class, response) = failStart_class cause in
      check_settleFailure service ctx intent message class (err_text cause) response)"

definition check_recorded ::
  "'p generation_check \<Rightarrow> ctx \<Rightarrow> generation \<Rightarrow> ('p, goerr + generation) process" where
  "check_recorded service ctx recorded =
     (if gen_cancel_requested_at recorded = None then State_Monad.return (Inr recorded)
      else check_observe service ctx recorded)"

definition check_start ::
  "'p generation_check \<Rightarrow> ctx \<Rightarrow> generation \<Rightarrow> generation_check_start \<Rightarrow> ('p, goerr + generation) process" where
  "check_start service ctx intent start =
     (case registry_Async (gc_registry service) (gen_provider intent) of
        Inl err \<Rightarrow>
          check_settleFailure service ctx intent failureProviderUnavailable NotStarted (err_text err) None
      | Inr connector \<Rightarrow> do {
          now \<leftarrow> time_Now;
          if now - cs_intent_at start \<ge> startTimeout then do {
            settled \<leftarrow> check_settleFailure service ctx intent failureStartFailed NotStarted
              ''start intent too old to send'' None;
            State_Monad.return (map_error (Wrap ''settle stale start'') settled)
          }
          else do {
            let record_call = (\<lambda>call.
              check_recordCall ctx connector intent (cs_intent_at start) (call_id call));
            now \<leftarrow> time_Now;
            (outcome, recorded) \<leftarrow> connector_Start connector
              (with_timeout ctx now (if gen_streamed intent then streamStartTimeout else startTimeout))
              (cs_payload start) (gen_streamed intent) record_call;
            case recorded of
              Some (Inl recordErr) \<Rightarrow>
                State_Monad.return (Inl (Wrap ''record provider call'' recordErr))
            | Some (Inr g) \<Rightarrow> check_recorded service ctx g
            | None \<Rightarrow>
                (case outcome of
                   Inl err \<Rightarrow> check_failStart service ctx intent err
                 | Inr call \<Rightarrow> do {
                     res \<leftarrow> record_call call;
                     case res of
                       Inl err \<Rightarrow> State_Monad.return (Inl (Wrap ''record provider call'' err))
                     | Inr g \<Rightarrow> check_recorded service ctx g
                   })
          }
        })"

section \<open>The check\<close>

definition check_resolveStart ::
  "'p generation_check \<Rightarrow> ctx \<Rightarrow> generation \<Rightarrow> time \<Rightarrow> ('p, goerr + generation) process" where
  "check_resolveStart service ctx g start =
     (if gen_read_at g - start < startOutcomeUnknownAfter then State_Monad.return (Inr g)
      else check_settleFailure service ctx g failureOutcomeUnknown OutcomeUnknown
             ''start intent recorded without a provider call id'' None)"

definition check_transition ::
  "'p generation_check \<Rightarrow> ctx \<Rightarrow> check_request \<Rightarrow> ('p, goerr + generation) process" where
  "check_transition service ctx request =
     (let g = cr_generation request in
      if gen_provider_call_id g \<noteq> None then check_observe service ctx g
      else case gen_start_requested_at g of
        Some at \<Rightarrow>
          (case cr_start request of
             Some start \<Rightarrow> check_start service ctx g start
           | None \<Rightarrow> check_resolveStart service ctx g at)
      | None \<Rightarrow>
          if gen_cancel_requested_at g \<noteq> None
          then check_settle service ctx g (zero_call\<lparr>call_state := CallCancelled\<rparr>)
          else check_settleFailure service ctx g failureStartFailed NotStarted
                 ''no start intent to send'' None)"

definition GenerationCheck_Exec ::
  "'p generation_check \<Rightarrow> check_request \<Rightarrow> ('p, goerr + generation) process" where
  "GenerationCheck_Exec service request = do {
     now \<leftarrow> time_Now;
     let ctx = with_timeout None now
       (if cr_start request \<noteq> None then startCheckTimeout else checkTimeout);
     let g = cr_generation request;
     if gen_settled_at g \<noteq> None then State_Monad.return (Inr g)
     else do {
       checked \<leftarrow> check_transition service ctx request;
       case checked of
         Inr g \<Rightarrow> State_Monad.return (Inr g)
       | Inl err \<Rightarrow>
           if err_is ErrGenerationChanged err
           then PgGenerationGet_Exec ctx (gen_id g) (gen_owner_id g)
           else State_Monad.return (Inl err)
     }
   }"

section \<open>The commit is one settle transaction\<close>

lemma next_slot_clock:
  assumes "run_state next_slot w = (sl, w1)"
  shows "w_db_clock w \<le> w_db_clock w1 \<and> w_clock w \<le> w_clock w1 \<and> w_tx w1 = w_tx w"
  using state_io_relD [OF run_next_slot assms] by (simp add: world_run_def)

lemma next_slot_in_tx:
  assumes "run_state next_slot w = (sl, w1)" and "w_tx w \<noteq> None"
  shows "w_db w1 = w_db w"
  using assms by (cases "w_sched w") (auto simp: next_slot_def arrive_def Let_def)

text \<open>The Usage Record a commit writes, when the call reports its usage.\<close>

abbreviation usage_record :: "generation \<Rightarrow> call \<Rightarrow> generation_usage option" where
  "usage_record g call \<equiv> map_option (usage_of g call) (call_usage call)"

lemma recordAttempt_wrote:
  assumes "run_state (check_recordAttempt ctx g response) w = (None, w')" and "w_tx w \<noteq> None"
  obtains "response = None" "w' = w"
  | bytes a t where "response = Some bytes"
      "sql_attempt_insert t (gen_id g) bytes (w_db w) = (Inr a, w_db w')"
      "w_db_clock w \<le> w_db_clock w'" "w_tx w' = w_tx w"
proof (cases response)
  case None
  with assms(1) that(1) show thesis by (simp add: check_recordAttempt_def)
next
  case (Some bytes)
  with assms(1) obtain a where
    "run_state (PgGenerationAttemptInsert_Exec ctx (gen_id g) bytes) w = (Inr a, w')"
    by (auto simp: check_recordAttempt_def split: prod.splits sum.splits)
  then show thesis
  proof (cases rule: dattempt.answered)
    case (1 sl w1 a d db')
    with that(2) [OF Some, of "w_db_clock w1" a] next_slot_in_tx [OF 1(1) assms(2)]
      next_slot_clock [OF 1(1)]
    show thesis by (simp add: elapse_def)
  qed
qed

lemma recordUsage_wrote:
  assumes "run_state (check_recordUsage ctx g call) w = (None, w')" and "w_tx w \<noteq> None"
  obtains t where
    "w_db_clock w \<le> w_db_clock w'"
    "usage_record g call = None \<and> w_db w' = w_db w \<or>
     (\<exists>u. usage_record g call = Some u \<and>
        (sql_usage_insert t u (w_db w) = (Inl (Sentinel ErrNoRows), w_db w') \<or>
         (\<exists>v. sql_usage_insert t u (w_db w) = (Inr v, w_db w'))))"
proof (cases "call_usage call")
  case None
  with assms(1) that show thesis by (simp add: check_recordUsage_def)
next
  case (Some u)
  let ?u = "usage_of g call u"
  from Some assms(1) obtain r where r:
    "run_state (PgGenerationUsageInsert_Exec ctx ?u) w = (r, w')"
    "case r of Inl err \<Rightarrow> err_is ErrGenerationUsageExists err | Inr _ \<Rightarrow> True"
    by (auto simp: check_recordUsage_def split: prod.splits sum.splits if_splits)
  show thesis
  proof (cases r)
    case (Inr v)
    with r(1) have "run_state (PgGenerationUsageInsert_Exec ctx ?u) w = (Inr v, w')" by simp
    then show thesis
    proof (cases rule: dusage.answered)
      case (1 sl w1 v d db')
      with Some that [of "w_db_clock w1"] next_slot_in_tx [OF 1(1) assms(2)] next_slot_clock [OF 1(1)]
      show thesis by (auto simp: elapse_def)
    qed
  next
    case (Inl err)
    with r have run: "run_state (PgGenerationUsageInsert_Exec ctx ?u) w = (Inl err, w')"
      and exists: "err_is ErrGenerationUsageExists err" by simp_all
    from run show thesis
    proof (cases rule: dusage.failed)
      case (refused sl w1 e' d db')
      then have "e' = Sentinel ErrNoRows"
        using exists by (auto simp: sql_usage_insert_def Let_def no_rows_def refused_def refusedClasses_def
            split: if_splits option.splits)
      with refused Some that [of "w_db_clock w1"] next_slot_in_tx [OF refused(1) assms(2)]
        next_slot_clock [OF refused(1)]
      show thesis by (auto simp: elapse_def)
    next
      case (unanswered sl w1 e' d)
      then show thesis using exists
        by (auto simp: foreign_def no_rows_def err_is_refused split: if_splits)
    qed
  qed
qed

lemma commit_body_wrote:
  assumes "run_state (commit_body ctx r g call) w = ((None, a), w2)" and "w_tx w \<noteq> None"
    and "set_id r = gen_id g"
  obtains settled t1 t2 t3 where "a = Some settled"
    and "settle_transaction t1 t2 t3 r (call_response call) (usage_record g call) (w_db w) =
           (Inr settled, w_db w2)"
    and "w_db_clock w \<le> t1" and "t1 \<le> w_db_clock w2"
proof -
  from assms(1) obtain settled w1 w2' where
    s: "run_state (PgGenerationSettle_Exec ctx r) w = (Inr settled, w1)"
    and t: "run_state (check_recordAttempt ctx g (call_response call)) w1 = (None, w2')"
    and u: "run_state (check_recordUsage ctx g call) w2' = (None, w2)" and a: "a = Some settled"
    by (auto simp: commit_body_def split: prod.splits sum.splits option.splits)
  from s show thesis
  proof (cases rule: dsettle.answered)
    case (1 sl v row d db')
    let ?t1 = "w_db_clock v"
    from 1 next_slot_clock [OF 1(1)] have clock: "w_db_clock w \<le> ?t1" "?t1 \<le> w_db_clock w1"
      and tx: "w_tx w1 \<noteq> None" using assms(2) by (simp_all add: elapse_def)
    have settle: "sql_settle ?t1 r (w_db w) = (Inr settled, w_db w1)"
      using 1 next_slot_in_tx [OF 1(1) assms(2)] by (simp add: elapse_def)
    from t tx obtain t2 where attempt:
      "(case call_response call of None \<Rightarrow> w_db w2' = w_db w1
        | Some bytes \<Rightarrow> \<exists>a. sql_attempt_insert t2 (set_id r) bytes (w_db w1) = (Inr a, w_db w2'))"
      and clock2: "w_db_clock w1 \<le> w_db_clock w2'" and tx2: "w_tx w2' \<noteq> None"
      by (cases rule: recordAttempt_wrote) (use tx assms(3) in auto)
    from u tx2 obtain t3 where usage:
      "usage_record g call = None \<and> w_db w2 = w_db w2' \<or>
       (\<exists>u. usage_record g call = Some u \<and>
          (sql_usage_insert t3 u (w_db w2') = (Inl (Sentinel ErrNoRows), w_db w2) \<or>
           (\<exists>v. sql_usage_insert t3 u (w_db w2') = (Inr v, w_db w2))))"
      and clock3: "w_db_clock w2' \<le> w_db_clock w2"
      by (rule recordUsage_wrote)
    have "settle_transaction ?t1 t2 t3 r (call_response call) (usage_record g call) (w_db w) =
        (Inr settled, w_db w2)"
    proof -
      from usage have "usage_record g call = None \<and> w_db w2 = w_db w2' \<or>
         (\<exists>u. usage_record g call = Some u \<and>
            (sql_usage_insert t3 u (w_db w2') = (Inl (Sentinel ErrNoRows), w_db w2') \<and>
               w_db w2 = w_db w2' \<or>
             (\<exists>v. sql_usage_insert t3 u (w_db w2') = (Inr v, w_db w2))))"
        using usage_insert_failed by metis
      with settle attempt show ?thesis
        by (auto simp: settle_transaction_def split: option.splits)
    qed
    then show thesis using that a clock clock2 clock3 by simp
  qed
qed

lemma run_recordUsage: "state_io_rel world_run (check_recordUsage ctx g call)"
  unfolding check_recordUsage_def by (intro runs.guarantee_constructs run_dao)

lemma quiet_recordUsage: "state_io_rel no_start (check_recordUsage ctx g call)"
  unfolding check_recordUsage_def by (intro quiet.guarantee_constructs quiet_dao)

lemma quiet_commit_body: "state_io_rel no_start (commit_body ctx r g call)"
  unfolding commit_body_def check_recordAttempt_def
  by (intro quiet.guarantee_constructs quiet_dao quiet_recordUsage)

section \<open>What a check guarantees\<close>

text \<open>When a check has a call to send.\<close>

definition sends_start :: "check_request \<Rightarrow> bool" where
  "sends_start request \<longleftrightarrow>
     cr_start request \<noteq> None \<and> gen_settled_at (cr_generation request) = None \<and>
     gen_provider_call_id (cr_generation request) = None \<and>
     gen_start_requested_at (cr_generation request) \<noteq> None"

text \<open>
  \<open>call_guarantee\<close> holds what the parts of a check that open no transaction rest on, and
  \<open>check_guarantee\<close> adds its commit. Each relation below gets the whole check's
  guarantee by discharging these few laws.
\<close>

locale call_guarantee = guarantee R for R :: "'p world \<Rightarrow> 'p world \<Rightarrow> bool" +
  assumes now: "state_io_rel R time_Now"
    and log: "state_io_rel R (logger_Err msg)"
    and call_write: "state_io_rel R (record_write ctx i callID)"
    and pause: "R w (sleep d w)"
    and get_row: "state_io_rel R (PgGenerationGet_Exec ctx i owner)"
    and usage: "state_io_rel R (PgGenerationUsageInsert_Exec ctx u)"
    and get: "async_provider (a :: ('p, generation) async) \<Longrightarrow> state_io_rel R (connector_Get a ctx c)"
    and cancel: "async_provider (a :: ('p, generation) async) \<Longrightarrow> state_io_rel R (connector_Cancel a ctx c)"
begin

lemma recordUsage: "state_io_rel R (check_recordUsage ctx g call)"
  unfolding check_recordUsage_def by (intro guarantee_constructs usage)

lemma stopOrphan:
  "async_provider (a :: ('p, generation) async) \<Longrightarrow> state_io_rel R (check_stopOrphan ctx a g c)"
  unfolding check_stopOrphan_def by (intro guarantee_constructs recordUsage cancel log now)

lemma ask:
  "async_provider (a :: ('p, generation) async) \<Longrightarrow> state_io_rel R (check_ask ctx a g start c)"
  unfolding check_ask_def ask_stop_def by (intro guarantee_constructs cancel get)

lemma retry: "R w (snd (record_retry ctx i callID deadline n res w))"
proof (induction ctx i callID deadline n res w rule: record_retry.induct)
  case (1 ctx i callID deadline n res w)
  have step: "R w (snd (run_state (record_write ctx i callID) (sleep (record_pause n) w)))"
    using call_write [of ctx i callID] pause [of w "record_pause n"] trans state_io_relD prod.collapse
    by metis
  show ?case
  proof (cases res)
    case (Inr g)
    then show ?thesis by (simp add: record_retry.simps refl)
  next
    case (Inl err)
    note IH = "1.IH" [OF Inl _ _ HOL.refl prod.collapse]
    show ?thesis
    proof (cases "\<not> err_is ErrGenerationChanged err \<and> w_clock w + record_pause n < deadline \<and>
        \<not> (case ctx of None \<Rightarrow> False | Some t \<Rightarrow> t < w_clock w + record_pause n)")
      case True
      then have "snd (record_retry ctx i callID deadline n res w) =
          snd (record_retry ctx i callID deadline (Suc n)
            (fst (run_state (record_write ctx i callID) (sleep (record_pause n) w)))
            (snd (run_state (record_write ctx i callID) (sleep (record_pause n) w))))"
        using Inl by (subst record_retry.simps) (simp add: split_def Let_def)
      with IH True step trans show ?thesis by metis
    next
      case False
      then show ?thesis
        using Inl pause by (subst record_retry.simps) (auto simp: refl)
    qed
  qed
qed

lemma retry_process: "state_io_rel R (State (record_retry ctx i callID deadline n res))"
proof (rule state_io_relI)
  fix a and w w' :: "'p world"
  assume "run_state (State (record_retry ctx i callID deadline n res)) w = (a, w')"
  with retry [of w ctx i callID deadline n res] show "R w w'" by simp
qed

lemma recordCall:
  "async_provider (a :: ('p, generation) async) \<Longrightarrow> state_io_rel R (check_recordCall ctx a g intentAt c)"
  unfolding check_recordCall_def
  by (intro guarantee_constructs call_write retry_process now get_row stopOrphan)

end

locale check_guarantee = call_guarantee R for R :: "'p world \<Rightarrow> 'p world \<Rightarrow> bool" +
  fixes service :: "'p generation_check"
  assumes registry: "lawful (gc_registry service)"
    and commit: "state_io_rel R (gc_transactor service ctx
          (commit_body ctx (commit_request retention g status message class) g call))"
begin

lemma check_commit: "state_io_rel R (check_commit service ctx g status message class call)"
  unfolding check_commit_def by (intro guarantee_bind guarantee_return commit)

lemma settleFailure:
  "state_io_rel R (check_settleFailure service ctx g message class cause response)"
  unfolding check_settleFailure_def by (intro guarantee_bind log now check_commit)

lemma settle: "state_io_rel R (check_settle service ctx g call)"
  unfolding check_settle_def Let_def
  by (intro guarantee_constructs log check_commit)

lemma observe_settle: "state_io_rel R (observe_settle service ctx g start call since)"
  unfolding observe_settle_def
  by (intro guarantee_constructs get_row settle settleFailure)

lemma verdict:
  assumes "\<And>c. state_io_rel R (f c)" and "state_io_rel R m"
    and "\<And>message class reason. state_io_rel R (h message class reason)"
  shows "state_io_rel R (case v of Settle c \<Rightarrow> f c | Leave \<Rightarrow> m | Fail message class reason \<Rightarrow> h message class reason)"
  using assms by (cases v) simp_all

lemma observe: "state_io_rel R (check_observe service ctx g)"
  unfolding check_observe_def
  by (intro guarantee_constructs settleFailure ask verdict observe_settle)
     (rule lawful_Async [OF registry])

lemma failStart: "state_io_rel R (check_failStart service ctx g cause)"
  unfolding check_failStart_def Let_def by (intro guarantee_constructs settleFailure)

lemma recorded: "state_io_rel R (check_recorded service ctx g)"
  unfolding check_recorded_def by (intro guarantee_constructs observe)

lemma resolveStart: "state_io_rel R (check_resolveStart service ctx g at)"
  unfolding check_resolveStart_def by (intro guarantee_constructs settleFailure)

text \<open>A check with no start to send.\<close>

lemma unstarted: "\<not> sends_start request \<Longrightarrow> state_io_rel R (GenerationCheck_Exec service request)"
  unfolding GenerationCheck_Exec_def check_transition_def Let_def sends_start_def
  by (auto intro!: guarantee_constructs now observe resolveStart settle settleFailure get_row
        split: option.splits)

end

interpretation run_calls: call_guarantee world_run
proof
  fix ctx :: ctx and i :: uuid and callID :: string and w :: "'a world" and d
  show "state_io_rel world_run (record_write ctx i callID :: ('a, goerr + generation) process)"
    by (rule run_record_write)
  show "world_run w (sleep d w)" by (auto simp: sleep_def world_run_def intro: db_run.idle)
qed (simp_all add: run_primitives run_dao async_provider.Get_run async_provider.Cancel_run)

interpretation quiet_calls: call_guarantee no_start
proof
  fix ctx :: ctx and i :: uuid and callID :: string and w :: "'a world" and d
  show "state_io_rel no_start (record_write ctx i callID :: ('a, goerr + generation) process)"
    by (rule quiet_record_write)
  show "no_start w (sleep d w)" by (simp add: sleep_def no_start_def)
qed (simp_all add: quiet_primitives quiet_dao async_provider.Get_quiet async_provider.Cancel_quiet)

text \<open>
  \<open>check_service\<close> is a check wired as the entrypoints wire it: connectors that keep the
  contract of their mode, and a transactor that keeps its own. Whatever the schedule does, such
  a check moves the tables only along the program's steps, and without a start to send it sends
  none.
\<close>

lemma tx_commit_body: "state_io_rel tx_run (commit_body ctx r g call)"
  unfolding commit_body_def check_recordAttempt_def check_recordUsage_def
  by (intro txs.guarantee_constructs tx_dao)

lemma commit_body_run:
  assumes "run_state (commit_body ctx r g call) (begun w) = ((None, a), w2)"
    and "set_id r = gen_id g"
  shows "db_run (w_db_clock (begun w)) (w_db (begun w)) (w_db_clock w2) (w_db w2)"
  using assms(1) begun_tx assms(2)
proof (cases rule: commit_body_wrote)
  case (1 settled t1 t2 t3)
  then show ?thesis by (blast intro: db_run_single db_step.settled)
qed

locale check_service =
  fixes service :: "'p generation_check"
  assumes lawful_registry: "lawful (gc_registry service)"
    and wired_transactor: "transactor (gc_transactor service)"
begin

lemma commit_top_quiet:
  "state_io_rel top_quiet (gc_transactor service ctx
     (commit_body ctx (commit_request retention g status message class) g call))"
proof (rule state_io_relI)
  fix r and w w' :: "'p world"
  let ?body = "commit_body ctx (commit_request retention g status message class) g call"
  assume run: "run_state (gc_transactor service ctx ?body) w = (r, w')"
  show "top_quiet w w'"
    unfolding top_quiet_def
  proof
    assume top: "w_tx w = None"
    have outcome: "tx_outcome ?body w r w'"
      by (rule transactor.outcome [OF wired_transactor top run])
    have "world_run w w'"
      by (rule tx_outcome_run [OF outcome top tx_commit_body])
         (erule commit_body_run, simp add: commit_request_def)
    with tx_outcome_quiet [OF outcome quiet_commit_body] show "world_run w w' \<and> no_start w w'"
      by blast
  qed
qed

end

sublocale check_service < calm: check_guarantee top_quiet service
proof
  fix ctx :: ctx and i owner :: uuid and callID c :: string and w :: "'a world" and d msg u
    and a :: "('a, generation) async" and retention g status message failure call
  show "state_io_rel top_quiet (time_Now :: ('a, time) process)"
    by (intro top_quiet_mono run_primitives quiet_primitives)
  show "state_io_rel top_quiet (logger_Err msg :: ('a, unit) process)"
    by (intro top_quiet_mono run_primitives quiet_primitives)
  show "state_io_rel top_quiet (record_write ctx i callID :: ('a, goerr + generation) process)"
    by (intro top_quiet_mono run_record_write quiet_record_write)
  show "top_quiet w (sleep d w)"
    using run_calls.pause [of w d] quiet_calls.pause [of w d] by (simp add: top_quiet_def)
  show "state_io_rel top_quiet (PgGenerationGet_Exec ctx i owner :: ('a, goerr + generation) process)"
    by (intro top_quiet_mono run_dao quiet_dao)
  show "state_io_rel top_quiet (PgGenerationUsageInsert_Exec ctx u :: ('a, goerr + generation_usage) process)"
    by (intro top_quiet_mono run_dao quiet_dao)
  show "async_provider a \<Longrightarrow> state_io_rel top_quiet (connector_Get a ctx c)"
    by (intro top_quiet_mono run_calls.get quiet_calls.get)
  show "async_provider a \<Longrightarrow> state_io_rel top_quiet (connector_Cancel a ctx c)"
    by (intro top_quiet_mono run_calls.cancel quiet_calls.cancel)
  show "lawful (gc_registry service)" by (rule lawful_registry)
  show "state_io_rel top_quiet (gc_transactor service ctx
     (commit_body ctx (commit_request retention g status message failure) g call))"
    by (rule commit_top_quiet)
qed

sublocale check_service < moves: check_guarantee top_run service
proof
  fix ctx :: ctx and i owner :: uuid and callID c :: string and w :: "'a world" and d msg u
    and a :: "('a, generation) async" and retention g status message failure call
  show "state_io_rel top_run (time_Now :: ('a, time) process)"
    by (intro top_run_mono run_primitives)
  show "state_io_rel top_run (logger_Err msg :: ('a, unit) process)"
    by (intro top_run_mono run_primitives)
  show "state_io_rel top_run (record_write ctx i callID :: ('a, goerr + generation) process)"
    by (intro top_run_mono run_record_write)
  show "top_run w (sleep d w)"
    using run_calls.pause [of w d] by (simp add: top_run_def)
  show "state_io_rel top_run (PgGenerationGet_Exec ctx i owner :: ('a, goerr + generation) process)"
    by (intro top_run_mono run_dao)
  show "state_io_rel top_run (PgGenerationUsageInsert_Exec ctx u :: ('a, goerr + generation_usage) process)"
    by (intro top_run_mono run_dao)
  show "async_provider a \<Longrightarrow> state_io_rel top_run (connector_Get a ctx c)"
    by (intro top_run_mono run_calls.get)
  show "async_provider a \<Longrightarrow> state_io_rel top_run (connector_Cancel a ctx c)"
    by (intro top_run_mono run_calls.cancel)
  show "lawful (gc_registry service)" by (rule lawful_registry)
  show "state_io_rel top_run (gc_transactor service ctx
     (commit_body ctx (commit_request retention g status message failure) g call))"
    by (rule top_quiet_run [OF commit_top_quiet])
qed

context check_service
begin

lemma start_moves: "state_io_rel top_run (check_start service ctx intent start)"
proof (cases "registry_Async (gc_registry service) (gen_provider intent)")
  case (Inl err)
  then show ?thesis by (simp add: check_start_def moves.settleFailure)
next
  case (Inr connector)
  then have provider: "async_provider connector" by (rule lawful_Async [OF lawful_registry])
  have Start: "state_io_rel top_run (connector_Start connector c payload stream
      (\<lambda>call. check_recordCall ctx connector intent t (call_id call)))" for c payload stream t
    by (intro top_run_mono async_provider.Start_run [OF provider] run_calls.recordCall provider)
  show ?thesis
    unfolding check_start_def Inr sum.case Let_def
    by (intro tops.guarantee_constructs moves.now moves.settleFailure Start moves.recorded
          moves.failStart moves.recordCall provider)
qed

lemma check_moves: "state_io_rel top_run (GenerationCheck_Exec service request)"
  unfolding GenerationCheck_Exec_def check_transition_def Let_def
  by (auto intro!: tops.guarantee_constructs moves.now moves.observe moves.resolveStart moves.settle
        moves.settleFailure moves.get_row start_moves split: option.splits)

text \<open>Nor does any check outlive the transaction scope it began in, nor send more than one start.\<close>

lemma start_once:
  assumes "run_state (check_start service ctx intent start) w = (r, w')" and "w_tx w = None"
  shows "filter is_start (w_trace w') = filter is_start (w_trace w) \<or>
         filter is_start (w_trace w') =
           filter is_start (w_trace w) @ [ActStart (cs_payload start) (gen_streamed intent)]"
proof (cases "registry_Async (gc_registry service) (gen_provider intent)")
  case (Inl err)
  with assms(1) have "run_state (check_settleFailure service ctx intent failureProviderUnavailable
      NotStarted (err_text err) None) w = (r, w')"
    by (simp add: check_start_def)
  with calm.settleFailure assms(2) have "no_start w w'"
    by (meson state_io_relD top_quiet_def)
  then show ?thesis by (simp add: no_start_def)
next
  case (Inr connector)
  then have provider: "async_provider connector" by (rule lawful_Async [OF lawful_registry])
  let ?recording = "\<lambda>call. check_recordCall ctx connector intent (cs_intent_at start) (call_id call)"
  show ?thesis
  proof (cases "w_clock w - cs_intent_at start \<ge> startTimeout")
    case True
    with assms(1) Inr obtain s where "run_state (check_settleFailure service ctx intent failureStartFailed
        NotStarted ''start intent too old to send'' None) w = (s, w')"
      by (auto simp: check_start_def time_Now_def split: prod.splits)
    with calm.settleFailure assms(2) have "no_start w w'"
      by (meson state_io_relD top_quiet_def)
    then show ?thesis by (simp add: no_start_def)
  next
    case False
    let ?ctx = "with_timeout ctx (w_clock w) (if gen_streamed intent then streamStartTimeout else startTimeout)"
    obtain outcome recorded w1 where
      s: "run_state (connector_Start connector ?ctx (cs_payload start) (gen_streamed intent) ?recording) w =
          ((outcome, recorded), w1)" by (metis prod.exhaust)
    have quiet: "state_io_rel no_start (?recording c)" for c
      by (intro quiet_calls.recordCall provider)
    have run: "state_io_rel world_run (?recording c)" for c
      by (intro run_calls.recordCall provider)
    have started: "filter is_start (w_trace w1) =
        filter is_start (w_trace w) @ [ActStart (cs_payload start) (gen_streamed intent)]"
      by (rule async_provider.Start_once [OF provider quiet s])
    have "world_run w w1"
      using async_provider.Start_run [OF provider run] s by (rule state_io_relD)
    then have top: "w_tx w1 = None" using assms(2) by (simp add: world_run_def)
    let ?rest = "case recorded of
              Some (Inl recordErr) \<Rightarrow>
                State_Monad.return (Inl (Wrap ''record provider call'' recordErr))
            | Some (Inr g) \<Rightarrow> check_recorded service ctx g
            | None \<Rightarrow>
                (case outcome of
                   Inl err \<Rightarrow> check_failStart service ctx intent err
                 | Inr call \<Rightarrow> do {
                     res \<leftarrow> ?recording call;
                     case res of
                       Inl err \<Rightarrow> State_Monad.return (Inl (Wrap ''record provider call'' err))
                     | Inr g \<Rightarrow> check_recorded service ctx g
                   })"
    have "state_io_rel top_quiet ?rest"
      by (intro calms.guarantee_constructs calm.recorded calm.failStart calm.recordCall provider)
    moreover have "run_state ?rest w1 = (r, w')"
      using assms(1) Inr False s by (simp add: check_start_def time_Now_def Let_def)
    ultimately have "no_start w1 w'" using top by (meson state_io_relD top_quiet_def)
    with started show ?thesis by (simp add: no_start_def)
  qed
qed

lemma exec_starts:
  assumes "run_state (GenerationCheck_Exec service request) w = (r, w')" and "w_tx w = None"
  shows "filter is_start (w_trace w') = filter is_start (w_trace w) \<or>
         (\<exists>start. sends_start request \<and> cr_start request = Some start \<and>
            filter is_start (w_trace w') = filter is_start (w_trace w) @
              [ActStart (cs_payload start) (gen_streamed (cr_generation request))])"
proof (cases "sends_start request")
  case False
  then have "top_quiet w w'" using calm.unstarted assms(1) by (blast dest: state_io_relD)
  with assms(2) show ?thesis by (simp add: top_quiet_def no_start_def)
next
  case True
  then obtain start at where s: "cr_start request = Some start"
    "gen_start_requested_at (cr_generation request) = Some at"
    "gen_provider_call_id (cr_generation request) = None" "gen_settled_at (cr_generation request) = None"
    by (auto simp: sends_start_def)
  let ?ctx = "with_timeout None (w_clock w) startCheckTimeout"
  obtain checked w1 where c: "run_state (check_start service ?ctx (cr_generation request) start) w = (checked, w1)"
    by fastforce
  have "top_run w w1" using start_moves c by (rule state_io_relD)
  then have top: "w_tx w1 = None" using assms(2) by (simp add: top_run_def world_run_def)
  let ?rest = "case checked of
         Inr g \<Rightarrow> State_Monad.return (Inr g)
       | Inl err \<Rightarrow>
           if err_is ErrGenerationChanged err
           then PgGenerationGet_Exec ?ctx (gen_id (cr_generation request)) (gen_owner_id (cr_generation request))
           else State_Monad.return (Inl err)"
  have rest: "run_state ?rest w1 = (r, w')"
    using assms(1) s c
    by (simp add: GenerationCheck_Exec_def check_transition_def time_Now_def Let_def)
  have "state_io_rel no_start ?rest"
    by (intro quiet.guarantee_constructs quiet_dao)
  then have "no_start w1 w'" using rest by (rule state_io_relD)
  then have same: "filter is_start (w_trace w') = filter is_start (w_trace w1)"
    by (simp add: no_start_def)
  show ?thesis using start_once [OF c assms(2)] True s(1) unfolding same by blast
qed

end

section \<open>What a check leaves in the tables\<close>

context check_service
begin

text \<open>A commit settles in one transaction, or changes nothing.\<close>

lemma commit_cases:
  assumes "run_state (check_commit service ctx g status message failure call) w = (res, w')"
    and "w_tx w = None"
  obtains (committed) settled t1 t2 t3 where
      "settle_transaction t1 t2 t3 (commit_request (gc_retention service) g status message failure)
         (call_response call) (usage_record g call) (w_db (begun w)) = (Inr settled, w_db w')"
      and "\<And>x. res = Inr x \<Longrightarrow> x = settled"
      and "w_db_clock (begun w) \<le> t1" and "t1 \<le> w_db_clock w'"
  | (nothing) "w_db w' = w_db (begun w)" and "\<And>x. res \<noteq> Inr x"
proof -
  let ?r = "commit_request (gc_retention service) g status message failure"
  let ?body = "commit_body ctx ?r g call"
  from assms(1) obtain a where a: "run_state (gc_transactor service ctx ?body) w = (a, w')"
    and res: "res = (case a of
          (Some err, _) \<Rightarrow> Inl err
        | (None, Some (Some settled)) \<Rightarrow> Inr settled
        | (None, _) \<Rightarrow> Inl (Panic ''no settled generation''))"
    by (auto simp: check_commit_def split: prod.splits)
  have id: "set_id ?r = gen_id g" by (simp add: commit_request_def)
  have body: thesis if "run_state ?body (begun w) = ((None, b), w2)" "w_db w' = w_db w2"
    "w_db_clock w2 \<le> w_db_clock w'" "\<And>x. res = Inr x \<Longrightarrow> b = Some x" for b w2
    using that(1) begun_tx id
  proof (cases rule: commit_body_wrote)
    case (1 settled t1 t2 t3)
    with that show thesis by (intro committed [of t1 t2 t3 settled]) auto
  qed
  from transactor.outcome [OF wired_transactor assms(2) a] show thesis
  proof cases
    case (begin_failed e d)
    show thesis by (rule nothing) (use begin_failed res in \<open>simp_all add: elapse_def\<close>)
  next
    case (body_failed err b w2 e d)
    show thesis
      by (rule nothing) (use body_failed res in \<open>simp_all add: elapse_def rolled_back_def\<close>)
  next
    case (commit_failed b w2 e d)
    show thesis
      by (rule nothing) (use commit_failed res in \<open>simp_all add: elapse_def rolled_back_def\<close>)
  next
    case (commit_unanswered b w2 e d)
    with res show thesis by (intro body [of b w2]) (simp_all add: elapse_def)
  next
    case (committed b w2 d)
    with res show thesis
      by (intro body [of b w2]) (auto simp: elapse_def split: option.splits)
  qed
qed

end

text \<open>The settle of a check is one the constraints of the table accept.\<close>

lemma commit_request_accepted:
  assumes "settle_match (commit_request retention g status message failure) row" and "row_inv row"
    and "terminal_status status" and "message \<noteq> Some []"
    and "failure \<noteq> None \<longrightarrow> status = Failed"
  shows "generation_row_check (settle_row now (commit_request retention g status message failure) row)"
  using assms
  by (auto simp: generation_row_check_def settle_row_def commit_request_def row_inv_def)

lemma settleOutcomeOf_terminal:
  "settleOutcomeOf g call = (status, message) \<Longrightarrow> terminal_status status \<and> message \<noteq> Some []"
  by (auto simp: settleOutcomeOf_def check_messages live_status_def split: call_state.splits if_splits)

text \<open>The row, the answer and the usage a settle transaction leaves.\<close>

lemma settle_transaction_left:
  assumes "settle_transaction t1 t2 t3 r response usage db = (Inr settled, db')" and "db_inv db"
  obtains row where "find_row db (set_id r) = Some row" and "settle_match r row"
    and "find_row db' (set_id r) = Some (settle_row t1 r row)"
    and "settled = (settle_row t1 r row)\<lparr>gen_read_at := 0\<rparr>"
    and "\<And>bytes. response = Some bytes \<Longrightarrow>
           \<exists>a \<in> set (attempts db'). att_generation_id a = set_id r \<and> att_response a = bytes"
    and "\<And>u. usage = Some u \<Longrightarrow>
           \<exists>v \<in> set (usages db'). usg_generation_id v = usg_generation_id u"
  using assms(1)
proof (cases rule: settle_transaction_cases)
  case (1 db1 db2)
  from settle_row_found [OF 1(1) assms(2)] obtain row where
    row: "find_row db (set_id r) = Some row" "settle_match r row"
      "settled = (settle_row t1 r row)\<lparr>gen_read_at := 0\<rparr>" "db1 = put_row (settle_row t1 r row) db"
    by blast
  have gens: "generations db2 = generations db1" "generations db' = generations db2"
    using 1(2,3) by (auto dest!: attempt_insert_row usage_insert_row)
  have id: "gen_id (settle_row t1 r row) = set_id r" using row(2) by (simp add: settle_match_def)
  have found: "find_row db' (set_id r) = Some (settle_row t1 r row)"
    using row(1) id by (simp add: find_row_same [OF gens(2)] find_row_same [OF gens(1)] row(4) find_row_put_row)
  have att: "attempts db' = attempts db2" using 1(3) by (auto dest: usage_insert_row)
  have answer: "\<exists>a \<in> set (attempts db'). att_generation_id a = set_id r \<and> att_response a = bytes"
    if "response = Some bytes" for bytes
    using 1(2) that unfolding att by (auto dest: attempt_insert_row)
  have usage: "\<exists>v \<in> set (usages db'). usg_generation_id v = usg_generation_id u" if "usage = Some u" for u
  proof -
    from 1(3) that consider
      "sql_usage_insert t3 u db2 = (Inl (Sentinel ErrNoRows), db2)" "db' = db2"
      | v where "sql_usage_insert t3 u db2 = (Inr v, db')" by auto
    then show ?thesis
    proof cases
      case 1
      then show ?thesis by (auto simp: sql_usage_insert_def Let_def split: if_splits)
    next
      case 2
      from usage_insert_row [OF this] show ?thesis by auto
    qed
  qed
  show thesis by (rule that [OF row(1,2) found row(3) answer usage])
qed

text \<open>The retries of a call id end within their patience.\<close>

lemma record_write_answered:
  assumes "run_state (record_write ctx i callID) w = (Inr g, w')"
  shows "w_clock w' \<le> w_clock w + persistenceTimeout"
proof -
  let ?ctx = "with_timeout ctx (w_clock w) persistenceTimeout"
  obtain t where t: "?ctx = Some t" "t \<le> w_clock w + persistenceTimeout"
    by (cases ctx) (auto simp: with_timeout_def)
  from assms have "run_state (PgGenerationRecordProviderCall_Exec (Some t) i callID) w = (Inr g, w')"
    by (simp add: record_write_def time_Now_def t(1))
  then obtain sl w1 where "run_statement (Some t) sl (\<lambda>txn now. sql_record now i callID) w1 = (Inr g, w')"
    by (auto simp: PgGenerationRecordProviderCall_Exec_def statement_def split: prod.splits)
  then have "w_clock w' \<le> t"
    by (auto simp: run_statement_def Let_def over_def cut_short_def time_left_def elapse_def
        split: fault.splits if_splits)
  with t(2) show ?thesis by simp
qed

lemma record_retry_answered:
  "record_retry ctx i callID deadline n res w = (Inr (Inr g), w') \<Longrightarrow>
     (res = Inr g \<and> w' = w) \<or> w_clock w' < deadline + persistenceTimeout"
proof (induction ctx i callID deadline n res w rule: record_retry.induct)
  case (1 ctx i callID deadline n res w)
  show ?case
  proof (cases res)
    case (Inr h)
    with "1.prems" show ?thesis by (simp add: record_retry.simps)
  next
    case (Inl err)
    with "1.prems" have go: "\<not> err_is ErrGenerationChanged err \<and> w_clock w + record_pause n < deadline"
      "\<not> (case ctx of None \<Rightarrow> False | Some t \<Rightarrow> t < w_clock w + record_pause n)"
      by (auto simp: record_retry.simps split: if_splits option.splits)
    obtain res' w1 where step: "run_state (record_write ctx i callID) (sleep (record_pause n) w) = (res', w1)"
      by fastforce
    from "1.prems" Inl go step have "record_retry ctx i callID deadline (Suc n) res' w1 = (Inr (Inr g), w')"
      by (subst (asm) record_retry.simps) (simp add: split_def Let_def)
    from "1.IH" [OF Inl go step [symmetric] refl this] show ?thesis
    proof
      assume "res' = Inr g \<and> w' = w1"
      with step have "w_clock w' \<le> w_clock (sleep (record_pause n) w) + persistenceTimeout"
        using record_write_answered by blast
      then have "w_clock w' < deadline + persistenceTimeout"
        using go(1) record_pause_pos [of n] by (simp add: sleep_def)
      then show ?thesis by simp
    qed simp
  qed
qed

text \<open>The call id a recording answers is the one it was given.\<close>

lemma world_run_inv:
  assumes "world_run w w'" and "w_tx w = None" and "db_inv (w_db w)"
  shows "db_inv (w_db w') \<and> w_tx w' = None"
  using assms db_run_inv by (auto simp: world_run_def)

lemma slot_inv:
  assumes "run_state next_slot w = (sl, w1)" and "w_tx w = None" and "db_inv (w_db w)"
  shows "db_inv (w_db w1) \<and> w_tx w1 = None"
  using world_run_inv [OF state_io_relD [OF run_next_slot assms(1)] assms(2,3)] .

lemma record_write_carries:
  assumes "run_state (record_write ctx i callID) w = (Inr g, w')" and "w_tx w = None"
    and "db_inv (w_db w)"
  shows "gen_provider_call_id g = Some callID \<and> gen_start_requested_at g \<noteq> None"
proof -
  from assms(1) obtain c where
    "run_state (PgGenerationRecordProviderCall_Exec c i callID) w = (Inr g, w')"
    by (auto simp: record_write_def time_Now_def)
  then show ?thesis
  proof (cases rule: drecord.answered)
    case (1 sl w1 a d db')
    from record_row(2) [OF 1(2)] slot_inv [OF 1(1) assms(2,3)] 1(3) show ?thesis by auto
  qed
qed

lemma record_retry_carries:
  "record_retry ctx i callID deadline n res w = (Inr (Inr g), w') \<Longrightarrow> w_tx w = None \<Longrightarrow>
   db_inv (w_db w) \<Longrightarrow>
   (\<And>h. res = Inr h \<Longrightarrow> gen_provider_call_id h = Some callID \<and> gen_start_requested_at h \<noteq> None) \<Longrightarrow>
     gen_provider_call_id g = Some callID \<and> gen_start_requested_at g \<noteq> None"
proof (induction ctx i callID deadline n res w rule: record_retry.induct)
  case (1 ctx i callID deadline n res w)
  show ?case
  proof (cases res)
    case (Inr h)
    with 1 show ?thesis by (simp add: record_retry.simps)
  next
    case (Inl err)
    with "1.prems" have go: "\<not> err_is ErrGenerationChanged err \<and> w_clock w + record_pause n < deadline"
      "\<not> (case ctx of None \<Rightarrow> False | Some t \<Rightarrow> t < w_clock w + record_pause n)"
      by (auto simp: record_retry.simps split: if_splits option.splits)
    obtain res' w1 where step: "run_state (record_write ctx i callID) (sleep (record_pause n) w) = (res', w1)"
      by fastforce
    from "1.prems" Inl go step have again: "record_retry ctx i callID deadline (Suc n) res' w1 = (Inr (Inr g), w')"
      by (subst (asm) record_retry.simps) (simp add: split_def Let_def)
    have slept: "w_tx (sleep (record_pause n) w) = None" "db_inv (w_db (sleep (record_pause n) w))"
      using "1.prems"(2,3) by (simp_all add: sleep_def)
    have kept: "db_inv (w_db w1) \<and> w_tx w1 = None"
      using world_run_inv [OF state_io_relD [OF run_record_write step] slept] .
    show ?thesis
    proof (rule "1.IH" [OF Inl go step [symmetric] refl again])
      show "w_tx w1 = None" "db_inv (w_db w1)" using kept by simp_all
    next
      fix h
      assume "res' = Inr h"
      with record_write_carries [OF _ slept] step
      show "gen_provider_call_id h = Some callID \<and> gen_start_requested_at h \<noteq> None" by simp
    qed
  qed
qed

lemma get_row_inv:
  assumes "run_state (PgGenerationGet_Exec ctx i owner) w = (Inr g, w')" and "w_tx w = None"
    and "db_inv (w_db w)"
  shows "row_inv g \<and> gen_id g = i \<and> gen_owner_id g = owner"
  using assms(1)
proof (cases rule: dget.answered)
  case (1 sl w1 a d db')
  from 1(2) obtain row where row: "row \<in> set (generations (w_db w1))" "gen_id row = i"
    "gen_owner_id row = owner" and a: "a = row\<lparr>gen_read_at := w_db_clock w1\<rparr>"
    by (auto simp: sql_get_def split: option.splits dest: find_Some_in)
  from slot_inv [OF 1(1) assms(2,3)] row(1) have "row_inv row" by (simp add: db_inv_def)
  with row(2,3) show ?thesis unfolding 1(3) a by simp
qed

lemma recordCall_carries:
  assumes run: "run_state (check_recordCall ctx connector intent intentAt callID) w = (Inr g, w')"
    and top: "w_tx w = None" and inv: "db_inv (w_db w)" and named: "callID \<noteq> []"
  shows "gen_provider_call_id g = Some callID \<and> gen_start_requested_at g \<noteq> None"
proof -
  obtain first w1 where first: "run_state (record_write ctx (gen_id intent) callID) w = (first, w1)"
    by fastforce
  have inv1: "db_inv (w_db w1) \<and> w_tx w1 = None"
    using world_run_inv [OF state_io_relD [OF run_record_write first] top inv] .
  let ?deadline = "intentAt + recordPatience"
  obtain written w2 where written: "record_retry ctx (gen_id intent) callID ?deadline 0 first w1 = (written, w2)"
    by fastforce
  have "world_run w1 w2" using run_calls.retry [of w1 ctx "gen_id intent" callID ?deadline 0 first] written by simp
  then have inv2: "db_inv (w_db w2) \<and> w_tx w2 = None" using world_run_inv inv1 by blast
  show ?thesis
  proof (cases written)
    case (Inl err)
    with run first written show ?thesis by (simp add: check_recordCall_def Let_def)
  next
    case (Inr last)
    show ?thesis
    proof (cases last)
      case (Inr h)
      with run first written \<open>written = Inr last\<close> have "h = g" by (simp add: check_recordCall_def Let_def)
      with written Inr \<open>written = Inr last\<close> have
        "record_retry ctx (gen_id intent) callID ?deadline 0 first w1 = (Inr (Inr g), w2)" by simp
      then show ?thesis
        using record_retry_carries record_write_carries [OF _ top inv] first inv1 by blast
    next
      case (Inl err)
      with run first written \<open>written = Inr last\<close> obtain c w3 where
        "run_state (PgGenerationGet_Exec c (gen_id intent) (gen_owner_id intent)) w2 = (Inr g, w3)"
        "(case gen_provider_call_id g of None \<Rightarrow> [] | Some c \<Rightarrow> c) = callID"
        by (auto simp: check_recordCall_def Let_def time_Now_def
            split: if_splits sum.splits option.splits prod.splits)
      with get_row_inv inv2 named show ?thesis
        by (fastforce simp: row_inv_def split: option.splits)
    qed
  qed
qed

context check_service
begin

lemmas calm_settleFailure = calm.settleFailure

text \<open>A failure a check answers is in the row, with its message and its class.\<close>

lemma settleFailure_left:
  assumes "run_state (check_settleFailure service ctx g message failure cause response) w = (Inr settled, w')"
    and "w_tx w = None" and "db_inv (w_db w)"
  shows "\<exists>row. find_row (w_db w') (gen_id g) = Some row \<and> settled = row\<lparr>gen_read_at := 0\<rparr> \<and>
           gen_status row = Failed \<and> gen_failure row = Some failure \<and> gen_error row = Some message \<and>
           gen_provider_call_id row = gen_provider_call_id g \<and>
           gen_outcome_unknown_at row = (if failure = OutcomeUnknown then gen_settled_at row else None)"
proof -
  let ?r = "commit_request (gc_retention service) g Failed (Some message) (Some failure)"
  obtain c w1 where commit: "run_state (check_commit service c g Failed (Some message) (Some failure)
      (zero_call\<lparr>call_response := response\<rparr>)) w1 = (Inr settled, w')"
    and w1: "w_db w1 = w_db w" "w_tx w1 = None"
    using assms(1,2) by (auto simp: check_settleFailure_def logger_Err_def time_Now_def)
  have inv: "db_inv (w_db (begun w1))"
    using run_begun [OF w1(2)] w1 assms(3) world_run_inv [of w1 "(begun w1)\<lparr>w_tx := None\<rparr>"] by simp
  from commit w1(2) show ?thesis
  proof (rule commit_cases)
    fix row t1 t2 t3
    assume committed: "settle_transaction t1 t2 t3 ?r (call_response (zero_call\<lparr>call_response := response\<rparr>))
        (usage_record g (zero_call\<lparr>call_response := response\<rparr>)) (w_db (begun w1)) = (Inr row, w_db w')"
      and "\<And>x. (Inr settled :: goerr + generation) = Inr x \<Longrightarrow> x = row"
    then have "settled = row" by blast
    with settle_transaction_left [OF committed inv] obtain old where
      old: "settle_match ?r old" "find_row (w_db w') (set_id ?r) = Some (settle_row t1 ?r old)"
        "settled = (settle_row t1 ?r old)\<lparr>gen_read_at := 0\<rparr>" by metis
    have read: "gen_read_at (settle_row t1 ?r old) = gen_read_at old" by (simp add: settle_row_def)
    show ?thesis
      using old by (intro exI [of _ "settle_row t1 ?r old"])
        (auto simp: commit_request_def settle_row_def settle_match_def)
  next
    assume "\<And>x. (Inr settled :: goerr + generation) \<noteq> Inr x"
    then show ?thesis by blast
  qed
qed

end

end
