(* ===== verification/Check_Answers.thy ===== *)
theory Check_Answers
  imports Check
begin

text \<open>
  Which generation a check answers. A check is asked about one generation of one owner; every path
  through \<open>check_transition\<close> reads, writes or settles the row of that id, so what it answers, when it
  answers one, is that generation.
\<close>

text \<open>\<open>answers P m\<close>: run outside a transaction on tables that keep their invariant, a
  generation \<open>m\<close> answers is one \<open>P\<close> holds of.\<close>

definition answers :: "(generation \<Rightarrow> bool) \<Rightarrow> ('p, goerr + generation) process \<Rightarrow> bool" where
  "answers P m \<longleftrightarrow>
     (\<forall>w g w'. run_state m w = (Inr g, w') \<longrightarrow> w_tx w = None \<longrightarrow> db_inv (w_db w) \<longrightarrow> P g)"

lemma answersD:
  "answers P m \<Longrightarrow> run_state m w = (Inr g, w') \<Longrightarrow> w_tx w = None \<Longrightarrow> db_inv (w_db w) \<Longrightarrow> P g"
  unfolding answers_def by blast

lemma answers_return: "(\<And>g. r = Inr g \<Longrightarrow> P g) \<Longrightarrow> answers P (State_Monad.return r)"
  by (simp add: answers_def)

lemma top_run_kept:
  assumes "state_io_rel top_run m" and "run_state m w = (a, w1)" and "w_tx w = None" and "db_inv (w_db w)"
  shows "w_tx w1 = None \<and> db_inv (w_db w1)"
proof -
  from assms(1,2) have "top_run w w1" by (rule state_io_relD)
  with assms(3) have "world_run w w1" by (simp add: top_run_def)
  with world_run_inv [OF this assms(3,4)] show ?thesis by simp
qed

lemma answers_bind:
  assumes "state_io_rel top_run m" and "\<And>a. answers P (f a)"
  shows "answers P (Monad_Syntax.bind m f)"
  unfolding answers_def
proof (intro allI impI)
  fix w g w'
  assume run: "run_state (Monad_Syntax.bind m f) w = (Inr g, w')" and top: "w_tx w = None" "db_inv (w_db w)"
  from run obtain a w1 where a: "run_state m w = (a, w1)" "run_state (f a) w1 = (Inr g, w')"
    by (rule run_state_bindE)
  with top_run_kept [OF assms(1) a(1) top] answersD [OF assms(2) a(2)] show "P g" by blast
qed

text \<open>The next step may rely on what the first one answered.\<close>

lemma answers_then:
  assumes "state_io_rel top_run m" and "answers Q m"
    and "\<And>e. answers P (f (Inl e))" and "\<And>g. Q g \<Longrightarrow> answers P (f (Inr g))"
  shows "answers P (Monad_Syntax.bind m f)"
  unfolding answers_def
proof (intro allI impI)
  fix w g w'
  assume run: "run_state (Monad_Syntax.bind m f) w = (Inr g, w')" and top: "w_tx w = None" "db_inv (w_db w)"
  from run obtain a w1 where a: "run_state m w = (a, w1)" "run_state (f a) w1 = (Inr g, w')"
    by (rule run_state_bindE)
  have kept: "w_tx w1 = None" "db_inv (w_db w1)" using top_run_kept [OF assms(1) a(1) top] by simp_all
  show "P g"
  proof (cases a)
    case (Inl e)
    with answersD [OF assms(3)] a(2) kept show ?thesis by blast
  next
    case (Inr h)
    with answersD [OF assms(2)] a(1) top have "Q h" by blast
    from answersD [OF assms(4) [OF this]] a(2) Inr kept show ?thesis by blast
  qed
qed

lemma answers_if:
  "(b \<Longrightarrow> answers P m) \<Longrightarrow> (\<not> b \<Longrightarrow> answers P n) \<Longrightarrow> answers P (if b then m else n)"
  by simp

lemma answers_mono: "answers Q m \<Longrightarrow> (\<And>g. Q g \<Longrightarrow> P g) \<Longrightarrow> answers P m"
  unfolding answers_def by blast

abbreviation same_as :: "generation \<Rightarrow> generation \<Rightarrow> bool" where
  "same_as g g' \<equiv> gen_id g' = gen_id g"

lemma get_answers: "answers (\<lambda>g. gen_id g = i \<and> gen_owner_id g = owner) (PgGenerationGet_Exec ctx i owner)"
  using get_row_inv unfolding answers_def by blast

lemma record_write_answers: "answers (\<lambda>g. gen_id g = i) (record_write ctx i callID)"
  unfolding answers_def
proof (intro allI impI)
  fix w g w'
  assume run: "run_state (record_write ctx i callID) w = (Inr g, w')" and top: "w_tx w = None" "db_inv (w_db w)"
  from run obtain c where "run_state (PgGenerationRecordProviderCall_Exec c i callID) w = (Inr g, w')"
    by (auto simp: record_write_def time_Now_def)
  then show "gen_id g = i"
  proof (cases rule: drecord.answered)
    case (1 sl w1 a d db')
    from record_row(2) [OF 1(2)] slot_inv [OF 1(1) top] 1(3) show ?thesis by (auto dest: find_row_in)
  qed
qed

lemma record_retry_answers:
  "record_retry ctx i callID deadline n res w = (Inr (Inr g), w') \<Longrightarrow> w_tx w = None \<Longrightarrow>
   db_inv (w_db w) \<Longrightarrow> (\<And>h. res = Inr h \<Longrightarrow> gen_id h = i) \<Longrightarrow> gen_id g = i"
proof (induction ctx i callID deadline n res w rule: record_retry.induct)
  case (1 ctx i callID deadline n res w)
  show ?case
  proof (cases res)
    case (Inr h)
    with 1 show ?thesis by simp
  next
    case (Inl err)
    with "1.prems" have go: "\<not> err_is ErrGenerationChanged err \<and> w_clock w + record_pause n < deadline"
      "\<not> (case ctx of None \<Rightarrow> False | Some t \<Rightarrow> t < w_clock w + record_pause n)"
      by (auto simp: record_retry.simps split: if_splits option.splits)
    obtain res' w1 where step: "run_state (record_write ctx i callID) (sleep (record_pause n) w) = (res', w1)"
      by fastforce
    from "1.prems" Inl go step have again: "record_retry ctx i callID deadline (Suc n) res' w1 = (Inr (Inr g), w')"
      by (subst (asm) record_retry.simps) (simp add: split_def Let_def)
    have slept: "w_tx (sleep (record_pause n) w) = None" "db_inv (w_db (sleep (record_pause n) w))"
      using "1.prems"(2,3) by (simp_all add: sleep_def)
    have kept: "db_inv (w_db w1) \<and> w_tx w1 = None"
      using world_run_inv [OF state_io_relD [OF run_record_write step] slept] .
    show ?thesis
      by (rule "1.IH" [OF Inl go step [symmetric] refl again])
         (use kept answersD [OF record_write_answers _ slept] step in auto)
  qed
qed

lemma recordCall_answers: "answers (same_as intent) (check_recordCall ctx connector intent intentAt callID)"
  unfolding answers_def
proof (intro allI impI)
  fix w g w'
  assume run: "run_state (check_recordCall ctx connector intent intentAt callID) w = (Inr g, w')"
    and top: "w_tx w = None" and inv: "db_inv (w_db w)"
  obtain first w1 where first: "run_state (record_write ctx (gen_id intent) callID) w = (first, w1)"
    by fastforce
  have inv1: "db_inv (w_db w1) \<and> w_tx w1 = None"
    using world_run_inv [OF state_io_relD [OF run_record_write first] top inv] .
  let ?deadline = "intentAt + recordPatience"
  obtain written w2 where written: "record_retry ctx (gen_id intent) callID ?deadline 0 first w1 = (written, w2)"
    by fastforce
  have "world_run w1 w2" using run_calls.retry [of w1 ctx "gen_id intent" callID ?deadline 0 first] written by simp
  then have inv2: "db_inv (w_db w2) \<and> w_tx w2 = None" using world_run_inv inv1 by blast
  consider (early) err where "written = Inl err" | (written) h where "written = Inr (Inr h)"
    | (failed) err where "written = Inr (Inl err)" by (cases written; cases "projr written") auto
  then show "gen_id g = gen_id intent"
  proof cases
    case early
    with run first written show ?thesis by (simp add: check_recordCall_def Let_def)
  next
    case (written h)
    with run first \<open>record_retry _ _ _ _ _ _ _ = _\<close> have "h = g" by (simp add: check_recordCall_def Let_def)
    with written \<open>record_retry _ _ _ _ _ _ _ = _\<close> have
      "record_retry ctx (gen_id intent) callID ?deadline 0 first w1 = (Inr (Inr g), w2)" by simp
    then show ?thesis
      using record_retry_answers answersD [OF record_write_answers _ top inv] first inv1 by blast
  next
    case (failed err)
    with run first written obtain c w3 where
      "run_state (PgGenerationGet_Exec c (gen_id intent) (gen_owner_id intent)) w2 = (Inr g, w3)"
      by (auto simp: check_recordCall_def Let_def time_Now_def
          split: if_splits sum.splits option.splits prod.splits)
    with get_row_inv inv2 show ?thesis by blast
  qed
qed

context check_service
begin

lemma commit_answers: "answers (same_as g) (check_commit service ctx g status message failure call)"
  unfolding answers_def
proof (intro allI impI)
  fix w settled w'
  assume run: "run_state (check_commit service ctx g status message failure call) w = (Inr settled, w')"
    and top: "w_tx w = None" and inv: "db_inv (w_db w)"
  have begun: "db_inv (w_db (begun w))"
    using run_begun [OF top] top inv world_run_inv [of w "(begun w)\<lparr>w_tx := None\<rparr>"] by simp
  from run top show "gen_id settled = gen_id g"
  proof (rule commit_cases)
    fix row t1 t2 t3
    assume committed: "settle_transaction t1 t2 t3 (commit_request (gc_retention service) g status message failure)
        (call_response call) (usage_record g call) (w_db (begun w)) = (Inr row, w_db w')"
      and "\<And>x. (Inr settled :: goerr + generation) = Inr x \<Longrightarrow> x = row"
    then have "settled = row" by blast
    with settle_transaction_left [OF committed begun] obtain old where
      "settle_match (commit_request (gc_retention service) g status message failure) old"
      "settled = (settle_row t1 (commit_request (gc_retention service) g status message failure) old)\<lparr>gen_read_at := 0\<rparr>"
      by metis
    then show ?thesis by (simp add: settle_match_def commit_request_def)
  next
    assume "\<And>x. (Inr settled :: goerr + generation) \<noteq> Inr x"
    then show ?thesis by blast
  qed
qed

lemma settleFailure_answers: "answers (same_as g) (check_settleFailure service ctx g message class cause response)"
  unfolding check_settleFailure_def by (intro answers_bind moves.log moves.now commit_answers)

lemma settle_answers: "answers (same_as g) (check_settle service ctx g call)"
  unfolding check_settle_def Let_def
  by (auto intro!: answers_bind moves.log commit_answers split: prod.splits)

lemma observe_settle_answers: "answers (same_as g) (observe_settle service ctx g start call since)"
proof -
  let ?relabel = "(if call_state call = CallCancelled \<and> gen_cancel_requested_at g = None \<and> since = None
        then do {
          res \<leftarrow> PgGenerationGet_Exec ctx (gen_id g) (gen_owner_id g);
          State_Monad.return
            (case res of
               Inl err \<Rightarrow> Inl (Wrap ''re-read generation'' err)
             | Inr current \<Rightarrow>
                 Inr (g\<lparr>gen_cancel_requested_at := gen_cancel_requested_at current\<rparr>))
        }
        else State_Monad.return (Inr g)) :: ('p, goerr + generation) process"
  have run: "state_io_rel top_run ?relabel"
    by (intro tops.guarantee_constructs moves.get_row)
  have same: "answers (same_as g) ?relabel"
    by (intro answers_if answers_bind moves.get_row answers_return) (auto split: sum.splits)
  show ?thesis
    unfolding observe_settle_def
  proof (rule answers_then [OF run same], simp_all only: sum.case)
    show "answers (same_as g) (State_Monad.return (Inl e))" for e by (rule answers_return) simp
    fix h
    assume h: "same_as g h"
    have s: "answers (same_as g) (check_settle service ctx h call)"
      and f: "answers (same_as g) (check_settleFailure service ctx h m c t r)" for m c t r
      using settle_answers [of h] settleFailure_answers [of h] h by simp_all
    show "answers (same_as g) (do {
         settled \<leftarrow> check_settle service ctx h call;
         case settled of
           Inl err \<Rightarrow>
             if err_is ErrRefused err \<and> gen_read_at h - start \<ge> runCeiling + stopRetryWindow
             then check_settleFailure service ctx h failureNotRecorded ProviderFailed (err_text err) None
             else State_Monad.return (Inl err)
         | Inr settled \<Rightarrow> State_Monad.return (Inr settled)
       })"
      by (rule answers_then [OF moves.settle s])
         (auto intro!: f answers_return)
  qed
qed

lemma observe_answers: "answers (same_as g) (check_observe service ctx g)"
proof (cases "registry_Async (gc_registry service) (gen_provider g)")
  case (Inl err)
  then show ?thesis by (simp add: check_observe_def settleFailure_answers)
next
  case (Inr connector)
  then have provider: "async_provider connector" by (rule lawful_Async [OF lawful_registry])
  have "answers (same_as g) (case verdict_of g res since of
                 Settle call \<Rightarrow> observe_settle service ctx g start call since
               | Leave \<Rightarrow> State_Monad.return (Inr g)
               | Fail message class reason \<Rightarrow>
                   check_settleFailure service ctx g message class reason None)" for res since start
    by (auto intro!: observe_settle_answers settleFailure_answers answers_return split: verdict.splits)
  then show ?thesis
    unfolding check_observe_def Inr sum.case
    by (auto intro!: answers_bind moves.ask provider answers_return split: option.splits)
qed

lemma recorded_answers: "answers (same_as g) (check_recorded service ctx g)"
  unfolding check_recorded_def by (intro answers_if answers_return observe_answers) simp

lemma start_answers: "answers (same_as intent) (check_start service ctx intent start)"
proof (cases "registry_Async (gc_registry service) (gen_provider intent)")
  case (Inl err)
  then show ?thesis by (simp add: check_start_def settleFailure_answers)
next
  case (Inr connector)
  then have provider: "async_provider connector" by (rule lawful_Async [OF lawful_registry])
  let ?recording = "\<lambda>call. check_recordCall ctx connector intent (cs_intent_at start) (call_id call)
    :: ('p, goerr + generation) process"
  have recording: "state_io_rel world_run (?recording c)" for c by (intro run_calls.recordCall provider)
  have late: "answers (same_as intent) (do {
      settled \<leftarrow> check_settleFailure service ctx intent failureStartFailed NotStarted
        ''start intent too old to send'' None;
      State_Monad.return (map_error (Wrap ''settle stale start'') settled) })"
    by (rule answers_then [OF moves.settleFailure settleFailure_answers]) (auto intro!: answers_return)
  have recorded: "same_as intent g \<Longrightarrow> answers (same_as intent) (check_recorded service ctx g)" for g
    using recorded_answers [of g ctx] by simp
  have sent: "answers (same_as intent) (do {
      (outcome, recorded) \<leftarrow> connector_Start connector c payload stream ?recording;
      case recorded of
        Some (Inl recordErr) \<Rightarrow> State_Monad.return (Inl (Wrap ''record provider call'' recordErr))
      | Some (Inr g) \<Rightarrow> check_recorded service ctx g
      | None \<Rightarrow>
          (case outcome of
             Inl err \<Rightarrow> check_failStart service ctx intent err
           | Inr call \<Rightarrow> do {
               res \<leftarrow> ?recording call;
               case res of
                 Inl err \<Rightarrow> State_Monad.return (Inl (Wrap ''record provider call'' err))
               | Inr g \<Rightarrow> check_recorded service ctx g
             }) })" for c payload stream
    unfolding answers_def
  proof (intro allI impI)
    fix w g w'
    let ?rest = "\<lambda>(outcome, recorded). case recorded of
        Some (Inl recordErr) \<Rightarrow> State_Monad.return (Inl (Wrap ''record provider call'' recordErr))
      | Some (Inr g) \<Rightarrow> check_recorded service ctx g
      | None \<Rightarrow>
          (case outcome of
             Inl err \<Rightarrow> check_failStart service ctx intent err
           | Inr call \<Rightarrow> do {
               res \<leftarrow> ?recording call;
               case res of
                 Inl err \<Rightarrow> State_Monad.return (Inl (Wrap ''record provider call'' err))
               | Inr g \<Rightarrow> check_recorded service ctx g
             })"
    assume run: "run_state (Monad_Syntax.bind (connector_Start connector c payload stream ?recording) ?rest) w
        = (Inr g, w')"
      and top: "w_tx w = None" and inv: "db_inv (w_db w)"
    from run obtain out w1 where s: "run_state (connector_Start connector c payload stream ?recording) w = (out, w1)"
      and rest: "run_state (?rest out) w1 = (Inr g, w')" by (rule run_state_bindE)
    obtain outcome answer where out: "out = (outcome, answer)" by fastforce
    have kept: "w_tx w1 = None \<and> db_inv (w_db w1)"
      by (rule top_run_kept [OF top_run_mono [OF async_provider.Start_run [OF provider recording]] s top inv])
    show "same_as intent g"
    proof (cases answer)
      case None
      have "answers (same_as intent) (?rest (outcome, None))"
        by (cases outcome)
           (auto simp: check_failStart_def Let_def split_def intro!: settleFailure_answers answers_return recorded
              answers_then [OF top_run_mono [OF recording] recordCall_answers])
      with rest kept out None show ?thesis by (blast dest: answersD)
    next
      case (Some a)
      from async_provider.Start_hands [OF provider recording s [unfolded out Some]] obtain x :: call and v v' where
        x: "call_id x \<noteq> []" "world_run w v" "run_state (?recording x) v = (a, v')" by (elim exE conjE)
      have v: "db_inv (w_db v) \<and> w_tx v = None" by (rule world_run_inv [OF x(2) top inv])
      show ?thesis
      proof (cases a)
        case (Inl e)
        with rest out Some show ?thesis by simp
      next
        case (Inr h)
        with answersD [OF recordCall_answers] x(3) v have "same_as intent h" by blast
        from answersD [OF recorded [OF this]] rest out Some Inr kept show ?thesis by simp
      qed
    qed
  qed
  show ?thesis
    unfolding check_start_def Inr sum.case Let_def
    by (intro answers_bind moves.now answers_if late sent)
qed

lemma exec_answers: "answers (same_as (cr_generation request)) (GenerationCheck_Exec service request)"
proof -
  have resolve: "answers (same_as g) (check_resolveStart service ctx g at)" for g ctx at
    unfolding check_resolveStart_def by (intro answers_if answers_return settleFailure_answers) simp
  have transition: "answers (same_as (cr_generation request)) (check_transition service ctx request)" for ctx
    unfolding check_transition_def Let_def
    by (auto intro!: answers_if observe_answers settle_answers settleFailure_answers start_answers resolve
          split: option.splits)
  have moved: "state_io_rel top_run (check_transition service ctx request)" for ctx
    unfolding check_transition_def Let_def
    by (auto intro!: tops.guarantee_constructs moves.observe moves.resolveStart moves.settle
          moves.settleFailure start_moves split: option.splits)
  show ?thesis
    unfolding GenerationCheck_Exec_def Let_def
    by (intro answers_bind moves.now answers_if answers_return answers_then [OF moved transition])
       (auto intro!: answers_if answers_return answers_mono [OF get_answers])
qed

end

end
