(* ===== verification/RequestKey.thy ===== *)
theory RequestKey
  imports Prelude
begin

text \<open>
  The key of a request, \<open>requestKey\<close> of
  \<^verbatim>\<open>internal/core/generationSubmit.go\<close>: a digest of the fields that make the
  request, each written after its length. The digest is SHA-256, a parameter
  \<open>sha256\<close>, and the canonical payload is its other input.

  The lemmas show the framing injective: two requests with one preimage are one request.
\<close>

section \<open>Bytes\<close>

definition bytes_of :: "string \<Rightarrow> byte list" where
  "bytes_of s = map (\<lambda>c. word_of_nat (of_char c)) s"

text \<open>\<open>n\<close> bytes of a word, the most significant first.\<close>

primrec big_endian :: "nat \<Rightarrow> 'a::len word \<Rightarrow> byte list" where
  "big_endian 0 w = []"
| "big_endian (Suc n) w = ucast (drop_bit (8 * n) w) # big_endian n w"

lemma length_big_endian [simp]: "length (big_endian n w) = n"
  by (induction n) simp_all

lemma word_of_nat_small:
  assumes "(word_of_nat m :: 'a::len word) = word_of_nat n" and "m < 2 ^ LENGTH('a)" and "n < 2 ^ LENGTH('a)"
  shows "m = n"
proof -
  from assms(1) have "unat (word_of_nat m :: 'a word) = unat (word_of_nat n :: 'a word)" by simp
  with assms(2,3) show ?thesis by (simp add: unat_of_nat)
qed

lemma bytes_of_inj: "bytes_of s = bytes_of t \<Longrightarrow> s = t"
proof -
  have "inj (\<lambda>c :: char. word_of_nat (of_char c) :: byte)"
  proof (rule injI)
    fix c d :: char
    assume "(word_of_nat (of_char c) :: byte) = word_of_nat (of_char d)"
    then have "(of_char c :: nat) = of_char d"
      by (rule word_of_nat_small)
         (use nat_of_char_less_256 [of c] nat_of_char_less_256 [of d] in simp_all)
    then show "c = d" by simp
  qed
  then show "bytes_of s = bytes_of t \<Longrightarrow> s = t" by (simp add: bytes_of_def inj_map_eq_map)
qed

text \<open>The bytes of a word determine as many of its bits.\<close>

lemma big_endian_take_bit:
  fixes v w :: "'a::len word"
  assumes "big_endian n v = big_endian n w"
  shows "take_bit (8 * n) v = take_bit (8 * n) w"
  using assms
proof (induction n)
  case 0
  then show ?case by simp
next
  case (Suc n)
  then have rest: "take_bit (8 * n) v = take_bit (8 * n) w"
    and top: "(ucast (drop_bit (8 * n) v) :: byte) = ucast (drop_bit (8 * n) w)"
    by simp_all
  show ?case
  proof (rule bit_eqI)
    fix k
    assume "possible_bit TYPE('a word) k"
    then have len: "k < LENGTH('a)" by (simp add: possible_bit_word)
    show "bit (take_bit (8 * Suc n) v) k = bit (take_bit (8 * Suc n) w) k"
    proof (cases "k < 8 * n")
      case True
      from rest have "bit (take_bit (8 * n) v) k = bit (take_bit (8 * n) w) k" by simp
      with True len show ?thesis by (simp add: bit_take_bit_iff)
    next
      case False
      from top have "bit (ucast (drop_bit (8 * n) v) :: byte) (k - 8 * n) =
          bit (ucast (drop_bit (8 * n) w) :: byte) (k - 8 * n)" by simp
      with False len show ?thesis
        by (auto simp: bit_take_bit_iff bit_ucast_iff bit_drop_bit_eq)
    qed
  qed
qed

lemma big_endian_inj:
  fixes v w :: "'a::len word"
  assumes "LENGTH('a) \<le> 8 * n" and "big_endian n v = big_endian n w"
  shows "v = w"
  using big_endian_take_bit [OF assms(2)] assms(1)
  by (metis take_bit_word_eq_self)

section \<open>Framing\<close>

definition frame :: "byte list \<Rightarrow> byte list" where
  "frame field = big_endian 8 (word_of_nat (length field) :: 64 word) @ field"

lemma frame_cons_inj:
  assumes "frame f @ xs = frame g @ ys" and "length f < 2 ^ 64" and "length g < 2 ^ 64"
  shows "f = g \<and> xs = ys"
proof -
  from assms(1) have "big_endian 8 (word_of_nat (length f) :: 64 word) =
      big_endian 8 (word_of_nat (length g) :: 64 word)" and rest: "f @ xs = g @ ys"
    by (auto simp: frame_def)
  then have "(word_of_nat (length f) :: 64 word) = word_of_nat (length g)"
    by (intro big_endian_inj [of 8]) simp_all
  then have "length f = length g"
    by (rule word_of_nat_small) (use assms(2,3) in simp_all)
  with rest show ?thesis by simp
qed

lemma frames_inj:
  assumes "concat (map frame fs) = concat (map frame gs)" and "length fs = length gs"
    and "\<forall>f \<in> set fs. length f < 2 ^ 64" and "\<forall>g \<in> set gs. length g < 2 ^ 64"
  shows "fs = gs"
  using assms
proof (induction fs arbitrary: gs)
  case Nil
  then show ?case by simp
next
  case (Cons f fs)
  then obtain g gs' where gs: "gs = g # gs'" by (cases gs) auto
  with Cons.prems have "f = g \<and> concat (map frame fs) = concat (map frame gs')"
    by (intro frame_cons_inj) auto
  with Cons gs show ?case by auto
qed

section \<open>The request key\<close>

definition requestKeyTag :: string where
  "requestKeyTag = ''a-novel/genai/request-key/v4''"
definition asyncMode :: string where "asyncMode = ''async''"
definition streamedMode :: string where "streamedMode = ''async-streamed''"

record key_request =
  kr_owner_id :: uuid
  kr_purpose :: string
  kr_provider :: string
  kr_stream :: bool
  kr_payload :: raw
  kr_variant :: "32 word"

definition key_fields :: "key_request \<Rightarrow> byte list list" where
  "key_fields r =
     [bytes_of requestKeyTag,
      big_endian 16 (kr_owner_id r),
      bytes_of (kr_purpose r),
      bytes_of (kr_provider r),
      bytes_of (if kr_stream r then streamedMode else asyncMode),
      bytes_of (kr_payload r),
      big_endian 4 (kr_variant r)]"

definition key_preimage :: "key_request \<Rightarrow> byte list" where
  "key_preimage r = concat (map frame (key_fields r))"

lemma key_fields_inj: "key_fields r = key_fields r' \<Longrightarrow> r = r'"
  by (rule key_request.equality)
     (auto simp: key_fields_def streamedMode_def asyncMode_def dest!: bytes_of_inj
        big_endian_inj [rotated] split: if_splits)

lemma key_preimage_eq:
  assumes "key_preimage r = key_preimage r'"
    and "\<forall>f \<in> set (key_fields r) \<union> set (key_fields r'). length f < 2 ^ 64"
  shows "r = r'"
proof -
  have "key_fields r = key_fields r'"
    by (rule frames_inj) (use assms in \<open>auto simp: key_preimage_def key_fields_def\<close>)
  then show ?thesis by (rule key_fields_inj)
qed

section \<open>Properties\<close>

text \<open>The bytes a request key digests determine the request: its owner, purpose, provider, mode,
  canonical payload and variant. So no two different requests share a key, short of a collision of
  the digest itself.\<close>

theorem request_key_preimage_injective:
  assumes "key_preimage r = key_preimage r'"
    and "length (kr_purpose r) < 2 ^ 64" and "length (kr_provider r) < 2 ^ 64"
    and "length (kr_payload r) < 2 ^ 64" and "length (kr_purpose r') < 2 ^ 64"
    and "length (kr_provider r') < 2 ^ 64" and "length (kr_payload r') < 2 ^ 64"
  shows "r = r'"
  using assms
  by (intro key_preimage_eq) (auto simp: key_fields_def bytes_of_def requestKeyTag_def
      streamedMode_def asyncMode_def)

theorem request_key_preimage_injective_witness:
  "key_preimage \<lparr>kr_owner_id = 1, kr_purpose = ''ab'', kr_provider = ''c'', kr_stream = False,
      kr_payload = ''{}'', kr_variant = 0\<rparr> \<noteq>
   key_preimage \<lparr>kr_owner_id = 1, kr_purpose = ''a'', kr_provider = ''bc'', kr_stream = False,
      kr_payload = ''{}'', kr_variant = 0\<rparr>"
  using request_key_preimage_injective
    [of "\<lparr>kr_owner_id = 1, kr_purpose = ''ab'', kr_provider = ''c'', kr_stream = False,
      kr_payload = ''{}'', kr_variant = 0\<rparr>"
     "\<lparr>kr_owner_id = 1, kr_purpose = ''a'', kr_provider = ''bc'', kr_stream = False,
      kr_payload = ''{}'', kr_variant = 0\<rparr>"]
  by auto

end
