(* ===== verification/Environment.thy ===== *)
theory Environment
  imports Errors
begin

text \<open>
  \<^verbatim>\<open>internal/config/env\<close>: the variables of the process environment the service reads, under
  its prefix, and the value each has while it is unset.

  \<^verbatim>\<open>config.LoadEnv\<close> and the servers' \<^verbatim>\<open>LoadServerConfig\<close> belong to golib, and the parsers to the
  standard library and golib: \<open>env_library\<close> holds them, one field for each parser, each from the
  variable's text and the default to the value. \<open>env_laws\<close> states what the package's comments rely on:
  an unset variable, whose text is empty, gives the default.
\<close>

section \<open>Defaults\<close>

definition AppNameDefault :: string where "AppNameDefault = ''service-genai''"
definition TimeoutShutdownDefault :: duration where "TimeoutShutdownDefault = 6 * second"
definition MaxConcurrentCallsDefault :: int where "MaxConcurrentCallsDefault = 20"
definition MetricsPortDefault :: int where "MetricsPortDefault = 9090"
definition TimeoutRequestDefault :: duration where "TimeoutRequestDefault = 2 * minute"
definition TimeoutWriteDefault :: duration where
  "TimeoutWriteDefault = TimeoutRequestDefault + 15 * second"
definition OpenAIBaseURLDefault :: string where
  "OpenAIBaseURLDefault = ''https://api.openai.com/v1/''"
definition RetentionDefault :: duration where "RetentionDefault = 6 * hour"
definition SweepIntervalDefault :: duration where "SweepIntervalDefault = minute"
definition SweepBatchSizeDefault :: int where "SweepBatchSizeDefault = 50"
definition PostgresMaxOpenConnsDefault :: int where "PostgresMaxOpenConnsDefault = 20"
definition PostgresMaxIdleConnsDefault :: int where "PostgresMaxIdleConnsDefault = 20"
definition PostgresPortDefault :: int where "PostgresPortDefault = 5432"
definition PostgresTLSEnabledDefault :: bool where "PostgresTLSEnabledDefault = True"

section \<open>The libraries\<close>

text \<open>The fields of the servers' configurations this repository names.\<close>

record http_server =
  hs_port :: int
  hs_liveness :: string
  hs_shutdown :: duration
  hs_request :: duration
  hs_write :: duration
  hs_methods :: "string list"

record rpc_server =
  rs_port :: int
  rs_shutdown :: duration
  rs_max_calls :: int

record env_library =
  el_string :: "string \<Rightarrow> string \<Rightarrow> string"
  el_int :: "string \<Rightarrow> int \<Rightarrow> int"
  el_bool :: "string \<Rightarrow> bool \<Rightarrow> bool"
  el_duration :: "string \<Rightarrow> duration \<Rightarrow> duration"
  el_list :: "string \<Rightarrow> string list \<Rightarrow> string list"
  el_start :: "string \<Rightarrow> time option \<Rightarrow> time option"
  el_http :: "(string \<Rightarrow> string) \<Rightarrow> http_server \<Rightarrow> http_server"
  el_http_default :: http_server
  el_rpc :: "(string \<Rightarrow> string) \<Rightarrow> rpc_server \<Rightarrow> rpc_server"
  el_rpc_default :: rpc_server

section \<open>The variables\<close>

text \<open>\<open>os.Getenv\<close>: the text of a variable, empty when it is unset.\<close>

definition env_prefix :: "(string \<Rightarrow> string) \<Rightarrow> string" where
  "env_prefix os = os ''SERVICE_GENAI_ENV_PREFIX''"

definition getEnv :: "(string \<Rightarrow> string) \<Rightarrow> string \<Rightarrow> string" where
  "getEnv os name = os (env_prefix os @ name)"

definition restDefaults :: "env_library \<Rightarrow> http_server" where
  "restDefaults lib =
     (el_http_default lib)
       \<lparr>hs_shutdown := TimeoutShutdownDefault, hs_request := TimeoutRequestDefault,
        hs_write := TimeoutWriteDefault, hs_methods := [''HEAD'', ''GET'', ''POST'']\<rparr>"

definition grpcDefaults :: "env_library \<Rightarrow> rpc_server" where
  "grpcDefaults lib =
     (el_rpc_default lib)\<lparr>rs_shutdown := TimeoutShutdownDefault, rs_max_calls := MaxConcurrentCallsDefault\<rparr>"

definition metricsConfig :: "env_library \<Rightarrow> (string \<Rightarrow> string) \<Rightarrow> http_server" where
  "metricsConfig lib os =
     (el_http_default lib)
       \<lparr>hs_port := el_int lib (getEnv os ''METRICS_PORT'') MetricsPortDefault,
        hs_shutdown := TimeoutShutdownDefault\<rparr>"

record environment =
  PostgresDSN :: string
  PostgresHost :: string
  PostgresPort :: int
  PostgresUser :: string
  PostgresPassword :: string
  PostgresDatabase :: string
  PostgresTLSEnabled :: bool
  PostgresMaxOpenConns :: int
  PostgresMaxIdleConns :: int
  AppName :: string
  Otel :: bool
  GrpcURL :: string
  Rest :: http_server
  Grpc :: rpc_server
  Metrics :: http_server
  ServiceTokenIssuer :: string
  ServiceTokenAudience :: string
  ServiceTokenCallers :: "string list"
  ServiceIssuerOptional :: bool
  OpenAIAPIKey :: string
  OpenAIBaseURL :: string
  Retention :: duration
  SweepInterval :: duration
  SweepBatchSize :: int
  SweepTicker :: bool
  OTLPEndpoint :: string
  DowntimeStart :: "time option"

definition load_environment :: "env_library \<Rightarrow> (string \<Rightarrow> string) \<Rightarrow> environment" where
  "load_environment lib os =
     (let env = getEnv os in
      \<lparr>PostgresDSN = env ''POSTGRES_DSN'',
       PostgresHost = env ''POSTGRES_HOST'',
       PostgresPort = el_int lib (env ''POSTGRES_PORT'') PostgresPortDefault,
       PostgresUser = env ''POSTGRES_USER'',
       PostgresPassword = env ''POSTGRES_PASSWORD'',
       PostgresDatabase = env ''POSTGRES_DATABASE'',
       PostgresTLSEnabled = el_bool lib (env ''POSTGRES_TLS_ENABLED'') PostgresTLSEnabledDefault,
       PostgresMaxOpenConns = el_int lib (env ''POSTGRES_MAX_OPEN_CONNS'') PostgresMaxOpenConnsDefault,
       PostgresMaxIdleConns = el_int lib (env ''POSTGRES_MAX_IDLE_CONNS'') PostgresMaxIdleConnsDefault,
       AppName = el_string lib (env ''APP_NAME'') AppNameDefault,
       Otel = el_bool lib (env ''OTEL'') False,
       GrpcURL = env ''GRPC_URL'',
       Rest = el_http lib env (restDefaults lib),
       Grpc = el_rpc lib env (grpcDefaults lib),
       Metrics = metricsConfig lib os,
       ServiceTokenIssuer = env ''SERVICE_TOKEN_ISSUER'',
       ServiceTokenAudience = env ''SERVICE_TOKEN_AUDIENCE'',
       ServiceTokenCallers = el_list lib (env ''SERVICE_TOKEN_CALLERS'') [],
       ServiceIssuerOptional = el_bool lib (env ''SERVICE_ISSUER_OPTIONAL'') False,
       OpenAIAPIKey = env ''OPENAI_API_KEY'',
       OpenAIBaseURL = el_string lib (env ''OPENAI_BASE_URL'') OpenAIBaseURLDefault,
       Retention = el_duration lib (env ''RETENTION'') RetentionDefault,
       SweepInterval = el_duration lib (env ''SWEEP_INTERVAL'') SweepIntervalDefault,
       SweepBatchSize = el_int lib (env ''SWEEP_BATCH_SIZE'') SweepBatchSizeDefault,
       SweepTicker = el_bool lib (env ''SWEEP_TICKER'') False,
       OTLPEndpoint = os ''OTEL_EXPORTER_OTLP_ENDPOINT'',
       DowntimeStart = el_start lib (env ''DOWNTIME_START'') None\<rparr>)"

text \<open>
  A host project's own variables do not reach the service: it reads those under its prefix, the prefix
  itself and the one OpenTelemetry shares.
\<close>

lemma load_environment_own:
  assumes "env_prefix os' = env_prefix os" and "\<And>name. os' (env_prefix os @ name) = os (env_prefix os @ name)"
    and "os' ''OTEL_EXPORTER_OTLP_ENDPOINT'' = os ''OTEL_EXPORTER_OTLP_ENDPOINT''"
  shows "load_environment lib os' = load_environment lib os"
proof -
  have "getEnv os' = getEnv os" using assms(1,2) by (simp add: getEnv_def fun_eq_iff)
  then show ?thesis using assms(3) by (simp add: load_environment_def metricsConfig_def Let_def)
qed

locale env_laws =
  fixes lib :: env_library
  assumes unset: "el_string lib [] s = s" "el_int lib [] i = i" "el_bool lib [] b = b" "el_duration lib [] d = d"
    "el_list lib [] l = l" "el_start lib [] t = t"
    and unset_server: "el_http lib (\<lambda>name. []) h = h" "el_rpc lib (\<lambda>name. []) r = r"
begin

lemma unset_settings:
  "load_environment lib (\<lambda>name. []) =
     \<lparr>PostgresDSN = [], PostgresHost = [], PostgresPort = PostgresPortDefault, PostgresUser = [],
      PostgresPassword = [], PostgresDatabase = [], PostgresTLSEnabled = PostgresTLSEnabledDefault,
      PostgresMaxOpenConns = PostgresMaxOpenConnsDefault, PostgresMaxIdleConns = PostgresMaxIdleConnsDefault,
      AppName = AppNameDefault, Otel = False, GrpcURL = [], Rest = restDefaults lib, Grpc = grpcDefaults lib,
      Metrics = (el_http_default lib)\<lparr>hs_port := MetricsPortDefault, hs_shutdown := TimeoutShutdownDefault\<rparr>,
      ServiceTokenIssuer = [], ServiceTokenAudience = [], ServiceTokenCallers = [],
      ServiceIssuerOptional = False, OpenAIAPIKey = [], OpenAIBaseURL = OpenAIBaseURLDefault,
      Retention = RetentionDefault, SweepInterval = SweepIntervalDefault,
      SweepBatchSize = SweepBatchSizeDefault, SweepTicker = False, OTLPEndpoint = [], DowntimeStart = None\<rparr>"
proof -
  have "getEnv (\<lambda>name. []) = (\<lambda>name. [])" by (simp add: getEnv_def fun_eq_iff)
  then show ?thesis by (simp add: load_environment_def metricsConfig_def Let_def unset unset_server)
qed

end

text \<open>Libraries that keep the law, with a boolean's text as Go's parser reads \<open>true\<close>.\<close>

definition sample_env_library :: env_library where
  "sample_env_library =
     \<lparr>el_string = (\<lambda>s d. if s = [] then d else s), el_int = (\<lambda>s d. if s = [] then d else int (length s)),
      el_bool = (\<lambda>s d. if s = [] then d else s = ''true''), el_duration = (\<lambda>s d. if s = [] then d else int (length s)),
      el_list = (\<lambda>s d. if s = [] then d else [s]), el_start = (\<lambda>s d. if s = [] then d else Some (int (length s))),
      el_http = (\<lambda>env d. d),
      el_http_default = \<lparr>hs_port = 8080, hs_liveness = ''/ping'', hs_shutdown = 0, hs_request = 0, hs_write = 0,
        hs_methods = []\<rparr>,
      el_rpc = (\<lambda>env d. d), el_rpc_default = \<lparr>rs_port = 8080, rs_shutdown = 0, rs_max_calls = 0\<rparr>\<rparr>"

interpretation sample_env: env_laws sample_env_library
  by unfold_locales (simp_all add: sample_env_library_def)

end
