(* ===== verification/Format.thy ===== *)
theory Format
  imports Prelude
begin

text \<open>
  The text of numbers, durations and quoted strings as Go's \<^verbatim>\<open>fmt\<close>,
  \<^verbatim>\<open>strconv\<close> and \<^verbatim>\<open>time\<close> packages write them, where the
  program's messages hold them, and the checks on strings its validation tags make.

  A Go string is its bytes.
\<close>

section \<open>Numbers\<close>

definition digit :: "nat \<Rightarrow> char" where
  "digit n = ''0123456789'' ! n"

fun decimal :: "nat \<Rightarrow> string" where
  "decimal n = (if n < 10 then [digit n] else decimal (n div 10) @ [digit (n mod 10)])"

declare decimal.simps [simp del]

definition itoa :: "int \<Rightarrow> string" where
  "itoa i = (if i < 0 then ''-'' @ decimal (nat (- i)) else decimal (nat i))"

definition digit_value :: "char \<Rightarrow> nat" where
  "digit_value c = of_char c - 48"

definition value_of :: "string \<Rightarrow> nat" where
  "value_of s = foldl (\<lambda>v c. v * 10 + digit_value c) 0 s"

lemma digit_value_digit: "n < 10 \<Longrightarrow> digit_value (digit n) = n"
proof -
  assume "n < 10"
  then have "n \<in> {0, 1, 2, 3, 4, 5, 6, 7, 8, 9}" by auto
  then show ?thesis by (auto simp: digit_def digit_value_def)
qed

lemma value_of_decimal: "value_of (decimal n) = n"
proof (induction n rule: decimal.induct)
  case (1 n)
  show ?case
  proof (cases "n < 10")
    case True
    then show ?thesis by (simp add: decimal.simps value_of_def digit_value_digit)
  next
    case False
    then have "value_of (decimal n) = value_of (decimal (n div 10)) * 10 + n mod 10"
      by (subst decimal.simps) (simp add: value_of_def digit_value_digit)
    with 1 False show ?thesis by simp
  qed
qed

lemma decimal_inj: "decimal m = decimal n \<Longrightarrow> m = n"
  by (metis value_of_decimal)

section \<open>Durations\<close>

text \<open>
  \<open>time.Duration.String\<close>. The fraction is written without its trailing zeros, and not at
  all when it is zero.
\<close>

fun pad :: "nat \<Rightarrow> nat \<Rightarrow> string" where
  "pad 0 v = []"
| "pad (Suc p) v = pad p (v div 10) @ [digit (v mod 10)]"

definition fraction :: "nat \<Rightarrow> nat \<Rightarrow> string" where
  "fraction v prec = (if v = 0 then [] else ''.'' @ rev (dropWhile (\<lambda>c. c = CHR ''0'') (rev (pad prec v))))"

definition clock_String :: "nat \<Rightarrow> string" where
  "clock_String u =
     (let s = u div 1000000000; m = s div 60; h = m div 60 in
      (if h > 0 then decimal h @ ''h'' else []) @
      (if m > 0 then decimal (m mod 60) @ ''m'' else []) @
      decimal (s mod 60) @ fraction (u mod 1000000000) 9 @ ''s'')"

definition duration_String :: "duration \<Rightarrow> string" where
  "duration_String d =
     (let u = nat \<bar>d\<bar> in
      (if d < 0 then ''-'' else []) @
      (if u = 0 then ''0s''
       else if u < 1000 then decimal u @ ''ns''
       else if u < 1000000 then
         decimal (u div 1000) @ fraction (u mod 1000) 3 @ [CHR 0xC2, CHR 0xB5, CHR ''s'']
       else if u < 1000000000 then decimal (u div 1000000) @ fraction (u mod 1000000) 6 @ ''ms''
       else clock_String u))"

text \<open>\<open>strings.TrimSuffix\<close> and \<open>strings.HasSuffix\<close>.\<close>

definition HasSuffix :: "string \<Rightarrow> string \<Rightarrow> bool" where
  "HasSuffix s t = suffix t s"

definition TrimSuffix :: "string \<Rightarrow> string \<Rightarrow> string" where
  "TrimSuffix s t = (if suffix t s then take (length s - length t) s else s)"

lemma TrimSuffix_append [simp]: "TrimSuffix (s @ t) t = s"
  by (simp add: TrimSuffix_def suffix_def)

section \<open>Quoting\<close>

text \<open>
  \<open>strconv.Quote\<close> on ASCII text: a quote and a backslash are escaped, a control character is
  written by its short name or in hexadecimal. The bytes past ASCII are kept, as Go keeps the
  printable runes they encode.
\<close>

definition hex_char :: "nat \<Rightarrow> char" where
  "hex_char n = (if n < 10 then digit n else char_of (87 + n))"

definition quote_char :: "char \<Rightarrow> string" where
  "quote_char c =
     (if c = CHR 0x22 then [CHR 0x5C, CHR 0x22]
      else if c = CHR 0x5C then [CHR 0x5C, CHR 0x5C]
      else if c = CHR 0x07 then [CHR 0x5C, CHR ''a'']
      else if c = CHR 0x08 then [CHR 0x5C, CHR ''b'']
      else if c = CHR 0x0B then [CHR 0x5C, CHR ''v'']
      else if c = CHR 0x0C then [CHR 0x5C, CHR ''f'']
      else if c = CHR 0x09 then [CHR 0x5C, CHR ''t'']
      else if c = CHR 0x0A then [CHR 0x5C, CHR ''n'']
      else if c = CHR 0x0D then [CHR 0x5C, CHR ''r'']
      else if (of_char c :: nat) < 32 \<or> (of_char c :: nat) = 127
      then [CHR 0x5C, CHR ''x'', hex_char ((of_char c :: nat) div 16), hex_char ((of_char c :: nat) mod 16)]
      else [c])"

definition quoted :: "string \<Rightarrow> string" where
  "quoted s = [CHR 0x22] @ concat (map quote_char s) @ [CHR 0x22]"

section \<open>Validation of strings\<close>

text \<open>
  Protobuf guarantees the strings of a request valid UTF-8, where a rune begins at every byte
  that does not continue one.
\<close>

definition rune_count :: "string \<Rightarrow> nat" where
  "rune_count s = length (filter (\<lambda>c. \<not> (0x80 \<le> (of_char c :: nat) \<and> (of_char c :: nat) < 0xC0)) s)"

text \<open>The white space of \<open>strings.TrimSpace\<close>, Unicode's, by its UTF-8 bytes.\<close>

definition space1 :: "nat \<Rightarrow> bool" where
  "space1 a \<longleftrightarrow> a = 0x20 \<or> (0x09 \<le> a \<and> a \<le> 0x0D)"

definition space2 :: "nat \<Rightarrow> nat \<Rightarrow> bool" where
  "space2 a b \<longleftrightarrow> a = 0xC2 \<and> (b = 0x85 \<or> b = 0xA0)"

definition space3 :: "nat \<Rightarrow> nat \<Rightarrow> nat \<Rightarrow> bool" where
  "space3 a b c \<longleftrightarrow>
     (a = 0xE1 \<and> b = 0x9A \<and> c = 0x80) \<or>
     (a = 0xE2 \<and> b = 0x80 \<and> ((0x80 \<le> c \<and> c \<le> 0x8A) \<or> c = 0xA8 \<or> c = 0xA9 \<or> c = 0xAF)) \<or>
     (a = 0xE2 \<and> b = 0x81 \<and> c = 0x9F) \<or>
     (a = 0xE3 \<and> b = 0x80 \<and> c = 0x80)"

fun all_space :: "nat list \<Rightarrow> bool" where
  "all_space [] = True"
| "all_space [a] = space1 a"
| "all_space [a, b] = (if space1 a then all_space [b] else space2 a b)"
| "all_space (a # b # c # r) =
     (if space1 a then all_space (b # c # r)
      else if space2 a b then all_space (c # r)
      else space3 a b c \<and> all_space r)"

definition blank :: "string \<Rightarrow> bool" where
  "blank s = all_space (map of_char s)"

end
