(* ===== verification/Config.thy ===== *)
theory Config
  imports Environment Format
begin

text \<open>
  \<^verbatim>\<open>internal/config\<close>: the settings the service runs with, the values it refuses to
  start with, and the ones it starts with by default, read from the environment. A setting whose type is a
  library's is the choice this code makes of it, with the fields it sets.
\<close>

section \<open>Settings\<close>

definition SweepIntervalCeiling :: duration where "SweepIntervalCeiling = 5 * minute"
definition UnknownOutcomeHold :: duration where "UnknownOutcomeHold = 15 * minute"

record config_sweep =
  csw_interval :: duration
  csw_batch_size :: int
  csw_concurrency :: int
  csw_ticker :: bool

record config_openai =
  coa_base_url :: string
  coa_api_key :: string

record config_token =
  ctk_issuer :: string
  ctk_audience :: string
  ctk_callers :: "string list"

text \<open>The exporters of telemetry and the loggers the code chooses among, with what it sets of them.\<close>

datatype config_otel =
    OtelDisabled
  | OtelLocal duration
  | OtelOTLP "string list" duration

datatype config_logger = LogLocal | LogOTel
datatype config_rpc_logger = GRPCLocal | GRPCOTel
datatype config_http_logger = HTTPLocal config_logger | HTTPUnlogged

record config_app =
  app_name :: string
  app_grpc :: rpc_server
  app_metrics :: http_server
  app_rest :: http_server
  app_downtime_start :: "time option"
  app_service_token :: config_token
  app_issuer_optional :: bool
  app_retention :: duration
  app_sweep :: config_sweep
  app_openai :: config_openai
  app_purposes :: "string list"
  app_otel :: config_otel
  app_logger :: config_logger
  app_grpc_logger :: config_rpc_logger
  app_rest_logger :: config_http_logger

definition app_Validate :: "config_app \<Rightarrow> goerr option" where
  "app_Validate app =
     (let sweep = app_sweep app in
      if app_retention app < UnknownOutcomeHold then
        Some (Annotate (Sentinel ErrInvalidConfig)
          (''the retention must be at least '' @ duration_String UnknownOutcomeHold))
      else if csw_interval sweep \<le> 0 \<or> csw_interval sweep > SweepIntervalCeiling then
        Some (Annotate (Sentinel ErrInvalidConfig)
          (''the sweep interval must be positive and at most '' @ duration_String SweepIntervalCeiling))
      else if csw_batch_size sweep < 1 \<or> csw_batch_size sweep > 100 then
        Some (Annotate (Sentinel ErrInvalidConfig) ''the sweep batch size must be between 1 and 100'')
      else if csw_concurrency sweep < 1 then
        Some (Annotate (Sentinel ErrInvalidConfig) ''the sweep concurrency must be positive'')
      else None)"

section \<open>Defaults\<close>

definition sweepConcurrencyCeiling :: int where "sweepConcurrencyCeiling = 8"

definition sweepConcurrency :: "int \<Rightarrow> int" where
  "sweepConcurrency maxOpenConns =
     (if maxOpenConns \<le> 0 then sweepConcurrencyCeiling
      else max (min (maxOpenConns - 1) sweepConcurrencyCeiling) 1)"

definition OtelFlushTimeout :: duration where "OtelFlushTimeout = 2 * second"
definition SweepTelemetryTimeout :: duration where "SweepTelemetryTimeout = 10 * second"

definition exportsOTLP :: "environment \<Rightarrow> bool" where
  "exportsOTLP env \<longleftrightarrow> Otel env \<and> OTLPEndpoint env \<noteq> []"

definition newOtelPreset :: "environment \<Rightarrow> config_otel" where
  "newOtelPreset env =
     (if \<not> Otel env then OtelDisabled
      else if OTLPEndpoint env = [] then OtelLocal OtelFlushTimeout
      else OtelOTLP [hs_liveness (Rest env)] OtelFlushTimeout)"

definition PurposesDefault :: "string list" where
  "PurposesDefault = [''studio.generation'']"

definition AppPresetDefault :: "environment \<Rightarrow> config_app" where
  "AppPresetDefault env =
     \<lparr>app_name = AppName env,
      app_grpc = Grpc env,
      app_metrics = Metrics env,
      app_rest = Rest env,
      app_downtime_start = DowntimeStart env,
      app_service_token =
        \<lparr>ctk_issuer = ServiceTokenIssuer env, ctk_audience = ServiceTokenAudience env,
         ctk_callers = ServiceTokenCallers env\<rparr>,
      app_issuer_optional = ServiceIssuerOptional env,
      app_retention = Retention env,
      app_sweep =
        \<lparr>csw_interval = SweepInterval env, csw_batch_size = SweepBatchSize env,
         csw_concurrency = sweepConcurrency (PostgresMaxOpenConns env), csw_ticker = SweepTicker env\<rparr>,
      app_openai = \<lparr>coa_base_url = OpenAIBaseURL env, coa_api_key = OpenAIAPIKey env\<rparr>,
      app_purposes = PurposesDefault,
      app_otel = newOtelPreset env,
      app_logger = (if \<not> exportsOTLP env then LogLocal else LogOTel),
      app_grpc_logger = (if \<not> exportsOTLP env then GRPCLocal else GRPCOTel),
      app_rest_logger = (if \<not> exportsOTLP env then HTTPLocal LogLocal else HTTPUnlogged)\<rparr>"

section \<open>The database connection\<close>

text \<open>
  The connection's options are golib's, built from the fields it is given, and may be refused, which ends
  the process while its packages initialise: \<open>connection_options\<close>. Session parameters are the
  driver's: each is a name and its text.
\<close>

record postgres_connection =
  pc_DSN :: string
  pc_Host :: string
  pc_Port :: int
  pc_User :: string
  pc_Password :: string
  pc_Database :: string
  pc_TLSEnabled :: bool

datatype 'o pg_option = ConnectionOption 'o | WithConnParams "(string \<times> string) list"

record 'o postgres_preset =
  pp_options :: "'o pg_option list"
  pp_max_open :: int
  pp_max_idle :: int

definition NewPostgresPreset ::
  "(postgres_connection \<Rightarrow> goerr + 'o list) \<Rightarrow> environment \<Rightarrow> 'o pg_option list \<Rightarrow> goerr + 'o postgres_preset" where
  "NewPostgresPreset connection_options env extra =
     (let connection =
        \<lparr>pc_DSN = PostgresDSN env, pc_Host = PostgresHost env, pc_Port = PostgresPort env,
         pc_User = PostgresUser env, pc_Password = PostgresPassword env, pc_Database = PostgresDatabase env,
         pc_TLSEnabled = PostgresTLSEnabled env\<rparr>
      in case connection_options connection of
           Inl err \<Rightarrow> Inl err
         | Inr opts \<Rightarrow> Inr
             \<lparr>pp_options = map ConnectionOption opts @ extra,
              pp_max_open = PostgresMaxOpenConns env, pp_max_idle = PostgresMaxIdleConns env\<rparr>)"

definition serverSessionTimeouts :: "(string \<times> string) list" where
  "serverSessionTimeouts =
     [(''statement_timeout'', ''9s''), (''lock_timeout'', ''5s''),
      (''idle_in_transaction_session_timeout'', ''30s'')]"

definition PostgresPresetServer ::
  "(postgres_connection \<Rightarrow> goerr + 'o list) \<Rightarrow> environment \<Rightarrow> goerr + 'o postgres_preset" where
  "PostgresPresetServer connection_options env =
     NewPostgresPreset connection_options env [WithConnParams serverSessionTimeouts]"

definition PostgresPresetMigrations ::
  "(postgres_connection \<Rightarrow> goerr + 'o list) \<Rightarrow> environment \<Rightarrow> goerr + 'o postgres_preset" where
  "PostgresPresetMigrations connection_options env =
     NewPostgresPreset connection_options env [WithConnParams [(''lock_timeout'', ''3s'')]]"

text \<open>The timeouts apply last, over whatever the connection's own options carry.\<close>

lemma server_timeouts_last:
  assumes "PostgresPresetServer connection_options env = Inr preset"
  shows "last (pp_options preset) = WithConnParams serverSessionTimeouts"
  using assms by (auto simp: PostgresPresetServer_def NewPostgresPreset_def Let_def split: sum.splits)

section \<open>Properties\<close>

text \<open>The service starts on a configuration exactly when its settings are in range: the retention
  outlasts the hold of an unknown outcome, and the sweep's interval, batch and concurrency are in
  their bounds. Any refusal is an invalid configuration.\<close>

theorem config_accepted_iff_in_range:
  "(app_Validate app = None) =
     (UnknownOutcomeHold \<le> app_retention app \<and>
      0 < csw_interval (app_sweep app) \<and> csw_interval (app_sweep app) \<le> SweepIntervalCeiling \<and>
      1 \<le> csw_batch_size (app_sweep app) \<and> csw_batch_size (app_sweep app) \<le> 100 \<and>
      1 \<le> csw_concurrency (app_sweep app)) \<and>
   (\<nexists>err. app_Validate app = Some err \<and> \<not> err_is ErrInvalidConfig err)"
  by (auto simp: app_Validate_def Let_def)

text \<open>Whatever size the pool is set to, the checks a sweep runs at once number between one and the
  ceiling, and with more than one connection they leave one for the leader role. So no pool size
  keeps the service from starting.\<close>

theorem sweep_concurrency_fits_pool:
  "1 \<le> sweepConcurrency m \<and> sweepConcurrency m \<le> sweepConcurrencyCeiling \<and>
   (m \<le> 1 \<or> sweepConcurrency m + 1 \<le> m) \<and>
   app_Validate (AppPresetDefault (env\<lparr>PostgresMaxOpenConns := m\<rparr>)) = app_Validate (AppPresetDefault env)"
proof -
  have range: "1 \<le> sweepConcurrency m" for m
    by (simp add: sweepConcurrency_def sweepConcurrencyCeiling_def)
  have "app_Validate (AppPresetDefault (env\<lparr>PostgresMaxOpenConns := m\<rparr>)) = app_Validate (AppPresetDefault env)"
    using range [of m] range [of "PostgresMaxOpenConns env"]
    by (simp add: app_Validate_def AppPresetDefault_def Let_def)
  then show ?thesis
    using range [of m] by (auto simp: sweepConcurrency_def sweepConcurrencyCeiling_def)
qed

text \<open>With no variable set, the service starts on its defaults.\<close>

context env_laws
begin

lemma unset_starts: "app_Validate (AppPresetDefault (load_environment lib (\<lambda>name. []))) = None"
  by (simp add: unset_settings app_Validate_def AppPresetDefault_def Let_def RetentionDefault_def
      UnknownOutcomeHold_def SweepIntervalDefault_def SweepIntervalCeiling_def SweepBatchSizeDefault_def
      sweepConcurrency_def sweepConcurrencyCeiling_def PostgresMaxOpenConnsDefault_def)

end

end
