(* ===== verification/Core.thy ===== *)
theory Core
  imports Dao Config
begin

text \<open>
  \<^verbatim>\<open>internal/core/generation.go\<close>: a generation as the services answer it, with the
  provider's answers.
\<close>

definition PayloadSizeCeiling :: nat where "PayloadSizeCeiling = 16777216"

record attempt_view =
  av_number :: int
  av_response :: raw

record generation_view =
  gv_id :: uuid
  gv_owner_id :: uuid
  gv_purpose :: string
  gv_provider :: string
  gv_error :: "string option"
  gv_failure :: "generation_failure option"
  gv_status :: generation_status
  gv_attempts :: "attempt_view list"
  gv_created_at :: time
  gv_updated_at :: time
  gv_settled_at :: "time option"
  gv_expires_at :: "time option"

definition newGeneration :: "generation \<Rightarrow> generation_attempt list \<Rightarrow> generation_view" where
  "newGeneration g answers =
     \<lparr>gv_id = gen_id g, gv_owner_id = gen_owner_id g, gv_purpose = gen_purpose g,
      gv_provider = gen_provider g, gv_error = gen_error g, gv_failure = gen_failure g,
      gv_status = gen_status g,
      gv_attempts = map (\<lambda>a. \<lparr>av_number = att_attempt a, av_response = att_response a\<rparr>) answers,
      gv_created_at = gen_created_at g, gv_updated_at = gen_updated_at g,
      gv_settled_at = gen_settled_at g, gv_expires_at = gen_expires_at g\<rparr>"

definition mayHaveAttempts :: "generation \<Rightarrow> bool" where
  "mayHaveAttempts g \<longleftrightarrow> gen_settled_at g \<noteq> None"

text \<open>The end every service shares: the generation with its answers, when it can have any.\<close>

definition with_attempts :: "ctx \<Rightarrow> generation \<Rightarrow> ('p, goerr + generation_view) process" where
  "with_attempts ctx g =
     (if mayHaveAttempts g then do {
        res \<leftarrow> PgGenerationAttemptList_Exec ctx (gen_id g);
        State_Monad.return
          (case res of
             Inl err \<Rightarrow> Inl (Wrap ''list attempts'' err)
           | Inr answers \<Rightarrow> Inr (newGeneration g answers))
      }
      else State_Monad.return (Inr (newGeneration g [])))"

lemma newGeneration_simps [simp]:
  "gv_id (newGeneration g as) = gen_id g" "gv_owner_id (newGeneration g as) = gen_owner_id g"
  "gv_status (newGeneration g as) = gen_status g"
  by (simp_all add: newGeneration_def)

lemma run_with_attempts: "state_io_rel world_run (with_attempts ctx g)"
  unfolding with_attempts_def by (intro runs.guarantee_constructs run_dao)

lemma quiet_with_attempts: "state_io_rel no_start (with_attempts ctx g)"
  unfolding with_attempts_def by (intro quiet.guarantee_constructs quiet_dao)

lemma silent_with_attempts: "state_io_rel silent (with_attempts ctx g)"
  unfolding with_attempts_def by (intro silences.guarantee_constructs dattempts.silent_read)

lemma calm_with_attempts: "state_io_rel top_quiet (with_attempts ctx g)"
  by (rule top_quiet_mono [OF run_with_attempts quiet_with_attempts])

lemma with_attempts_view:
  "run_state (with_attempts ctx g) w = (Inr v, w') \<Longrightarrow>
     gv_id v = gen_id g \<and> gv_owner_id v = gen_owner_id g \<and> gv_status v = gen_status g"
  by (auto simp: with_attempts_def split: if_splits sum.splits prod.splits)

text \<open>A validation error carries the validator's own text, which this model does not spell out.\<close>

definition invalid :: "goerr" where
  "invalid = Join (External ''validation'') (Sentinel ErrInvalidRequest)"

lemma invalid_is: "err_is s invalid = (s = ErrInvalidRequest)"
  by (simp add: invalid_def)

end
