(* ===== verification/Submit.thy ===== *)
theory Submit
  imports Check_Answers RequestKey Core
begin

text \<open>
  \<^verbatim>\<open>internal/core/generationSubmit.go\<close>: a submit records a generation under a key of
  its request, admits it against the caps its caller sent in the same transaction, and sends
  its provider call once it is recorded.

  The identifier \<open>uuid.NewV7\<close> mints and the trace context are arguments of
  \<open>GenerationSubmit_Exec\<close>. The digest, the JSON functions and the test that a payload is an I-JSON
  object are fields of the service.
\<close>

section \<open>Requests\<close>

record cap_window =
  win_duration :: duration
  win_input_tokens :: "int option"
  win_output_tokens :: "int option"

record generation_caps =
  caps_concurrency :: "int option"
  caps_windows :: "cap_window list"

record generation_submission =
  sb_owner_id :: uuid
  sb_purpose :: string
  sb_provider :: string
  sb_payload :: raw
  sb_variant :: "32 word"
  sb_stream :: bool
  sb_caps :: "generation_caps option"

record generation_submitted =
  sd_generation :: generation_view
  sd_created :: bool

type_synonym submit_vars = "generation_submit_result option \<times> goerr option"

text \<open>
  What a payload is canonicalized with. \<open>pj_members\<close> decodes it into its members, in the order the
  loop over the map visits them, \<open>pj_format\<close> is \<open>jsontext.Value.Format\<close> and \<open>pj_encode\<close> is
  \<open>json.Marshal\<close> of the map.
\<close>

record payload_json =
  pj_members :: "raw \<Rightarrow> goerr + (string \<times> raw) list"
  pj_format :: "raw \<Rightarrow> goerr + raw"
  pj_encode :: "(string \<rightharpoonup> raw) \<Rightarrow> goerr + raw"

record 'p generation_submit =
  gs_check :: "'p generation_check"
  gs_registry :: "('p, generation) registry"
  gs_transactor :: "('p, submit_vars) transactor"
  gs_purposes :: "string list"
  gs_sha256 :: "byte list \<Rightarrow> byte list"
  gs_json :: payload_json
  gs_ijson_object :: "raw \<Rightarrow> bool"

section \<open>Validation\<close>

definition non_negative :: "int option \<Rightarrow> bool" where
  "non_negative limit = (case limit of None \<Rightarrow> True | Some n \<Rightarrow> 0 \<le> n)"

definition window_valid :: "cap_window \<Rightarrow> bool" where
  "window_valid win \<longleftrightarrow>
     0 < win_duration win \<and> win_duration win \<le> 8760 * hour \<and>
     non_negative (win_input_tokens win) \<and> non_negative (win_output_tokens win)"

definition caps_valid :: "generation_caps \<Rightarrow> bool" where
  "caps_valid caps \<longleftrightarrow>
     non_negative (caps_concurrency caps) \<and>
     length (caps_windows caps) \<le> 10 \<and> distinct (map win_duration (caps_windows caps)) \<and>
     list_all window_valid (caps_windows caps)"

text \<open>The \<open>validate\<close> tags of the request.\<close>

definition submission_valid :: "generation_submission \<Rightarrow> bool" where
  "submission_valid r \<longleftrightarrow>
     sb_owner_id r \<noteq> 0 \<and>
     sb_purpose r \<noteq> [] \<and> \<not> blank (sb_purpose r) \<and> rune_count (sb_purpose r) \<le> 255 \<and>
     sb_provider r \<noteq> [] \<and> rune_count (sb_provider r) \<le> 255 \<and>
     sb_payload r \<noteq> [] \<and>
     (case sb_caps r of None \<Rightarrow> True | Some caps \<Rightarrow> caps_valid caps)"

definition submit_modes :: "'p generation_submit \<Rightarrow> generation_submission \<Rightarrow> goerr option" where
  "submit_modes service r =
     (case registry_Async (gs_registry service) (sb_provider r) of
        Inl err \<Rightarrow> Some err
      | Inr _ \<Rightarrow>
          if sb_stream r then
            (case registry_Streaming (gs_registry service) (sb_provider r) of
               Inl err \<Rightarrow> Some err | Inr _ \<Rightarrow> None)
          else None)"

definition submit_validateRequest :: "'p generation_submit \<Rightarrow> generation_submission \<Rightarrow> goerr option" where
  "submit_validateRequest service r =
     (if \<not> submission_valid r then Some invalid
      else if sb_purpose r \<notin> set (gs_purposes service) then
        Some (Annotate (Sentinel ErrInvalidRequest)
          (''purpose '' @ quoted (sb_purpose r) @ '' is not declared''))
      else if length (sb_payload r) > PayloadSizeCeiling then
        Some (Annotate (Sentinel ErrInvalidRequest)
          (''payload contains '' @ decimal (length (sb_payload r)) @ '' bytes, limit is '' @
           decimal PayloadSizeCeiling))
      else if \<not> gs_ijson_object service (sb_payload r) then
        Some (Annotate (Sentinel ErrInvalidRequest) ''payload is not a valid I-JSON object (RFC 7493)'')
      else case submit_modes service r of
        None \<Rightarrow> None
      | Some err \<Rightarrow>
          if err_is ErrProviderUnknown err then
            Some (Annotate (Wrap2 (Sentinel ErrInvalidRequest) err) (quoted (sb_provider r)))
          else Some (Wrap (''provider '' @ quoted (sb_provider r)) err))"

section \<open>Admission\<close>

definition reached :: "int option \<Rightarrow> int \<Rightarrow> bool" where
  "reached limit used = (case limit of None \<Rightarrow> False | Some n \<Rightarrow> used \<ge> n)"

definition formatWindow :: "duration \<Rightarrow> string" where
  "formatWindow window =
     (let written = duration_String window;
          written = (if HasSuffix written ''m0s'' then TrimSuffix written ''0s'' else written);
          written = (if HasSuffix written ''h0m'' then TrimSuffix written ''0m'' else written)
      in written)"

definition windowRefusal ::
  "string \<Rightarrow> cap_window \<Rightarrow> usage_totals \<Rightarrow> time \<Rightarrow> usage_cap_error option" where
  "windowRefusal scope win used now =
     (let refusal = (\<lambda>tokens. Some
        \<lparr>cap_scope = scope,
         cap_limit = tokens @ '' tokens over '' @ formatWindow (win_duration win),
         cap_retry_after =
           (case tot_oldest_at used of
              None \<Rightarrow> 0 | Some oldest \<Rightarrow> max (oldest + win_duration win - now) 0),
         cap_reason = scope @ '' over '' @ duration_String (win_duration win)\<rparr>)
      in if reached (win_input_tokens win) (tot_input_tokens used) then refusal ''input''
         else if reached (win_output_tokens win) (tot_output_tokens used) then refusal ''output''
         else None)"

text \<open>The windows in order, each against the total at its own index.\<close>

fun refuse_windows ::
  "string \<Rightarrow> cap_window list \<Rightarrow> usage_totals list \<Rightarrow> ('p, goerr option) process" where
  "refuse_windows scope [] used = State_Monad.return None"
| "refuse_windows scope (win # wins) [] = State_Monad.return (Some (Panic ''index out of range''))"
| "refuse_windows scope (win # wins) (u # used) = do {
     now \<leftarrow> time_Now;
     case windowRefusal scope win u now of
       Some refusal \<Rightarrow> State_Monad.return (Some (UsageCap refusal))
     | None \<Rightarrow> refuse_windows scope wins used
   }"

definition submit_scope :: "generation_submission \<Rightarrow> string" where
  "submit_scope r = ''purpose '' @ quoted (sb_purpose r)"

definition submit_caps :: "generation_submission \<Rightarrow> generation_caps" where
  "submit_caps r =
     (case sb_caps r of None \<Rightarrow> \<lparr>caps_concurrency = None, caps_windows = []\<rparr> | Some caps \<Rightarrow> caps)"

definition admit_concurrency :: "ctx \<Rightarrow> generation_submission \<Rightarrow> ('p, goerr option) process" where
  "admit_concurrency ctx r =
     (case caps_concurrency (submit_caps r) of
        None \<Rightarrow> State_Monad.return None
      | Some cap \<Rightarrow> do {
          res \<leftarrow> PgGenerationCountLive_Exec ctx (sb_owner_id r) (sb_purpose r) UnknownOutcomeHold;
          State_Monad.return
            (case res of
               Inl err \<Rightarrow> Some (Wrap ''count live generations'' err)
             | Inr live \<Rightarrow>
                 if live > cap then
                   Some (UsageCap
                     \<lparr>cap_scope = submit_scope r, cap_limit = ''concurrency '' @ itoa cap,
                      cap_retry_after = 0,
                      cap_reason = submit_scope r @ '' concurrency: '' @ itoa (live - 1) @
                        '' generations already in flight''\<rparr>)
                 else None)
        })"

definition admit_windows :: "ctx \<Rightarrow> generation_submission \<Rightarrow> ('p, goerr option) process" where
  "admit_windows ctx r =
     (let wins = sort_key win_duration (caps_windows (submit_caps r)) in
      if wins = [] then State_Monad.return None
      else do {
        res \<leftarrow> PgGenerationUsageSum_Exec ctx (sb_owner_id r) (sb_purpose r) (map win_duration wins);
        case res of
          Inl err \<Rightarrow> State_Monad.return (Some (Wrap ''sum usage'' err))
        | Inr used \<Rightarrow> refuse_windows (submit_scope r) wins used
      })"

definition submit_admit :: "ctx \<Rightarrow> generation_submission \<Rightarrow> ('p, goerr option) process" where
  "submit_admit ctx r = do {
     refusal \<leftarrow> admit_concurrency ctx r;
     case refusal of
       Some err \<Rightarrow> State_Monad.return (Some err)
     | None \<Rightarrow> admit_windows ctx r
   }"

section \<open>The submit\<close>

fun format_members :: "payload_json \<Rightarrow> (string \<times> raw) list \<Rightarrow> (string \<rightharpoonup> raw) \<Rightarrow> goerr + (string \<rightharpoonup> raw)" where
  "format_members json [] members = Inr members"
| "format_members json ((name, value) # rest) members =
     (case pj_format json value of
        Inl err \<Rightarrow> Inl (Wrap (''format '' @ quoted name) err)
      | Inr value \<Rightarrow> format_members json rest (members(name \<mapsto> value)))"

definition canonicalPayload :: "payload_json \<Rightarrow> raw \<Rightarrow> goerr + raw" where
  "canonicalPayload json payload =
     (case pj_members json payload of
        Inl err \<Rightarrow> Inl (Wrap ''decode payload'' err)
      | Inr members \<Rightarrow>
          (case format_members json members (map_of members) of
             Inl err \<Rightarrow> Inl err
           | Inr members \<Rightarrow>
               (case pj_encode json members of
                  Inl err \<Rightarrow> Inl (Wrap ''encode payload'' err)
                | Inr canonical \<Rightarrow> Inr canonical)))"

definition submit_key :: "'p generation_submit \<Rightarrow> generation_submission \<Rightarrow> goerr + byte list" where
  "submit_key service r =
     (case canonicalPayload (gs_json service) (sb_payload r) of
        Inl err \<Rightarrow> Inl (Wrap ''canonicalize payload'' err)
      | Inr payload \<Rightarrow>
          Inr (gs_sha256 service (key_preimage
            \<lparr>kr_owner_id = sb_owner_id r, kr_purpose = sb_purpose r, kr_provider = sb_provider r,
             kr_stream = sb_stream r, kr_payload = payload, kr_variant = sb_variant r\<rparr>)))"

definition submit_row ::
  "uuid \<Rightarrow> string option \<Rightarrow> generation_submission \<Rightarrow> byte list \<Rightarrow> submit_request" where
  "submit_row new_id traceparent r key =
     \<lparr>sub_id = new_id, sub_owner_id = sb_owner_id r, sub_purpose = sb_purpose r,
      sub_provider = sb_provider r, sub_request_key = key, sub_traceparent = traceparent,
      sub_streamed = sb_stream r\<rparr>"

definition submit_body ::
  "ctx \<Rightarrow> submit_request \<Rightarrow> generation_submission \<Rightarrow> ('p, submit_vars) body" where
  "submit_body ctx row r = do {
     res \<leftarrow> PgGenerationSubmit_Exec ctx row;
     case res of
       Inl err \<Rightarrow> State_Monad.return (Some (Wrap ''submit generation'' err), (None, None))
     | Inr result \<Rightarrow>
         if \<not> sres_created result then State_Monad.return (None, (Some result, None))
         else do {
           refusal \<leftarrow> submit_admit ctx r;
           State_Monad.return (refusal, (Some result, refusal))
         }
   }"

text \<open>What follows the transaction: a created generation's call goes out.\<close>

definition submit_send ::
  "'p generation_submit \<Rightarrow> ctx \<Rightarrow> generation_submission \<Rightarrow> time \<Rightarrow> generation_submit_result \<Rightarrow>
   ('p, goerr + generation_submitted) process" where
  "submit_send service ctx r intentAt result = do {
     g \<leftarrow>
       (if sres_created result then do {
          checked \<leftarrow> GenerationCheck_Exec (gs_check service)
            \<lparr>cr_generation = sres_generation result,
             cr_start = Some \<lparr>cs_payload = sb_payload r, cs_intent_at = intentAt\<rparr>\<rparr>;
          State_Monad.return (case checked of Inl _ \<Rightarrow> sres_generation result | Inr g \<Rightarrow> g)
        }
        else State_Monad.return (sres_generation result));
     view \<leftarrow> with_attempts ctx g;
     State_Monad.return
       (case view of
          Inl err \<Rightarrow> Inl err
        | Inr v \<Rightarrow> Inr \<lparr>sd_generation = v, sd_created = sres_created result\<rparr>)
   }"

definition GenerationSubmit_Exec ::
  "'p generation_submit \<Rightarrow> uuid \<Rightarrow> string option \<Rightarrow> ctx \<Rightarrow> generation_submission \<Rightarrow>
   ('p, goerr + generation_submitted) process" where
  "GenerationSubmit_Exec service new_id traceparent ctx r =
     (case submit_validateRequest service r of
        Some err \<Rightarrow> State_Monad.return (Inl err)
      | None \<Rightarrow>
          (case submit_key service r of
             Inl err \<Rightarrow> State_Monad.return (Inl (Wrap ''derive request key'' err))
           | Inr key \<Rightarrow> do {
               intentAt \<leftarrow> time_Now;
               (err, vars) \<leftarrow> gs_transactor service ctx
                 (submit_body ctx (submit_row new_id traceparent r key) r);
               let (result, refusal) = (case vars of None \<Rightarrow> (None, None) | Some v \<Rightarrow> v);
               if (case refusal of None \<Rightarrow> False | Some cause \<Rightarrow> err_is ErrUsageCapReached cause)
               then State_Monad.return (Inl (the refusal))
               else case err of
                 Some e \<Rightarrow> State_Monad.return (Inl e)
               | None \<Rightarrow>
                   (case result of
                      None \<Rightarrow> State_Monad.return (Inl (Panic ''nil pointer dereference''))
                    | Some result \<Rightarrow> submit_send service ctx r intentAt result)
             }))"

section \<open>Guarantees of the submit\<close>

lemma frozen_refuse_windows: "state_io_rel frozen (refuse_windows scope wins used)"
  by (induction scope wins used rule: refuse_windows.induct)
     (auto intro!: freezes.guarantee_constructs frozen_time_Now)

lemma frozen_admit: "state_io_rel frozen (submit_admit ctx r)"
  unfolding submit_admit_def admit_concurrency_def admit_windows_def Let_def
  by (intro freezes.guarantee_constructs dcount.frozen_read dsum.frozen_read frozen_refuse_windows)

lemma tx_refuse_windows: "state_io_rel tx_run (refuse_windows scope wins used)"
  by (induction scope wins used rule: refuse_windows.induct)
     (auto intro!: txs.guarantee_constructs tx_run_mono [OF run_time_Now])

lemma tx_submit_body: "state_io_rel tx_run (submit_body ctx row r)"
  unfolding submit_body_def submit_admit_def admit_concurrency_def admit_windows_def Let_def
  by (intro txs.guarantee_constructs tx_dao tx_refuse_windows)

lemma quiet_refuse_windows: "state_io_rel no_start (refuse_windows scope wins used)"
  by (induction scope wins used rule: refuse_windows.induct)
     (auto intro!: quiet.guarantee_constructs quiet_time_Now)

lemma quiet_submit_body: "state_io_rel no_start (submit_body ctx row r)"
  unfolding submit_body_def submit_admit_def admit_concurrency_def admit_windows_def Let_def
  by (intro quiet.guarantee_constructs quiet_dao quiet_refuse_windows)

text \<open>The transaction of a submit commits the insert alone, once admission refused nothing.\<close>

lemma submit_body_wrote:
  assumes "run_state (submit_body ctx row r) w = ((err, a), w2)" and "w_tx w = Some txn"
  obtains (unrecorded) e where "a = (None, None)" and "err = Some (Wrap ''submit generation'' e)"
  | (recorded) t g created w1 where
      "sql_submit t row (w_db w) = (Inr g, w_db w2)" and "w_db_clock w \<le> t" and "t \<le> w_db_clock w2"
      and "created = (gen_id g = sub_id row)"
      and "a = (Some \<lparr>sres_generation = g, sres_created = created\<rparr>, err)"
      and "\<not> created \<Longrightarrow> err = None"
      and "created \<Longrightarrow> run_state (submit_admit ctx r) w1 = (err, w2)"
      and "w_db w1 = w_db w2" and "w_tx w1 = Some txn"
proof -
  obtain res w1 where s: "run_state (PgGenerationSubmit_Exec ctx row) w = (res, w1)" by fastforce
  show thesis
  proof (cases res)
    case (Inl e)
    with assms(1) s have "a = (None, None)" "err = Some (Wrap ''submit generation'' e)"
      by (auto simp: submit_body_def)
    then show thesis by (rule unrecorded)
  next
    case (Inr result)
    with s have "run_state (PgGenerationSubmit_Exec ctx row) w = (Inr result, w1)" by simp
    then show thesis
    proof (cases rule: dsubmit.answered)
      case (1 sl v g d db')
      note slot = next_slot_in_tx [OF 1(1)] next_slot_clock [OF 1(1)]
      have insert: "sql_submit (w_db_clock v) row (w_db w) = (Inr g, w_db w1)"
        using 1 slot assms(2) by (simp add: elapse_def)
      have w1: "w_tx w1 = Some txn" "w_db_clock w \<le> w_db_clock v" "w_db_clock v \<le> w_db_clock w1"
        using 1 slot assms(2) by (simp_all add: elapse_def)
      have result: "result = \<lparr>sres_generation = g, sres_created = (gen_id g = sub_id row)\<rparr>" using 1 by simp
      show thesis
      proof (cases "gen_id g = sub_id row")
        case False
        with assms(1) s Inr result have a: "a = (Some result, None)" "err = None" "w2 = w1"
          by (auto simp: submit_body_def)
        show thesis
          by (rule recorded [of "w_db_clock v" g False w1]) (use insert w1 result False a in simp_all)
      next
        case True
        with assms(1) s Inr result have a: "a = (Some result, err)"
          and admit: "run_state (submit_admit ctx r) w1 = (err, w2)"
          by (auto simp: submit_body_def split: prod.splits)
        have "frozen w1 w2" using frozen_admit admit by (rule state_io_relD)
        with w1 have kept: "w_db w1 = w_db w2" "w_db_clock w1 \<le> w_db_clock w2"
          by (simp_all add: frozen_def)
        show thesis
          by (rule recorded [of "w_db_clock v" g True w1])
             (use insert w1 result True a admit kept in simp_all)
      qed
    qed
  qed
qed

lemma submit_body_run:
  assumes "run_state (submit_body ctx row r) (begun w) = ((None, a), w2)"
  shows "db_run (w_db_clock (begun w)) (w_db (begun w)) (w_db_clock w2) (w_db w2)"
proof -
  obtain txn where "w_tx (begun w) = Some txn" using begun_tx [of w] by auto
  with assms show ?thesis
    by (cases rule: submit_body_wrote) (auto intro: db_run_single db_step.submitted)
qed

locale submit_service =
  fixes service :: "'p generation_submit"
  assumes check: "check_service (gs_check service)"
    and submit_transactor: "transactor (gs_transactor service)"
begin

lemma record_calm: "state_io_rel top_quiet (gs_transactor service ctx (submit_body c row r))"
proof (rule state_io_relI)
  fix a and w w' :: "'p world"
  assume run: "run_state (gs_transactor service ctx (submit_body c row r)) w = (a, w')"
  show "top_quiet w w'"
    unfolding top_quiet_def
  proof
    assume top: "w_tx w = None"
    have outcome: "tx_outcome (submit_body c row r) w a w'"
      by (rule transactor.outcome [OF submit_transactor top run])
    have "world_run w w'"
      by (rule tx_outcome_run [OF outcome top tx_submit_body]) (rule submit_body_run)
    with tx_outcome_quiet [OF outcome quiet_submit_body] show "world_run w w' \<and> no_start w w'" by blast
  qed
qed

lemma send_moves: "state_io_rel top_run (submit_send service ctx r intentAt result)"
  unfolding submit_send_def
  by (intro tops.guarantee_constructs check_service.check_moves [OF check]
        top_run_mono [OF run_with_attempts])

lemma submit_moves: "state_io_rel top_run (GenerationSubmit_Exec service new_id traceparent ctx r)"
proof -
  have tx: "state_io_rel top_run (gs_transactor service c (submit_body c row r))" for c row
    by (rule top_quiet_run [OF record_calm])
  show ?thesis
    unfolding GenerationSubmit_Exec_def Let_def
    by (intro tops.guarantee_constructs tx send_moves top_run_mono [OF run_time_Now])
qed

text \<open>What follows the transaction sends one start for a created generation, none for a replay.\<close>

lemma send_starts:
  assumes "run_state (submit_send service ctx r intentAt result) w = (res, w')" and "w_tx w = None"
  shows "filter is_start (w_trace w') = filter is_start (w_trace w) \<or>
         (sres_created result \<and> filter is_start (w_trace w') = filter is_start (w_trace w) @
            [ActStart (sb_payload r) (gen_streamed (sres_generation result))])"
proof -
  let ?request = "\<lparr>cr_generation = sres_generation result,
    cr_start = Some \<lparr>cs_payload = sb_payload r, cs_intent_at = intentAt\<rparr>\<rparr>"
  show ?thesis
  proof (cases "sres_created result")
    case False
    with assms(1) obtain v where "run_state (with_attempts ctx (sres_generation result)) w = (v, w')"
      by (auto simp: submit_send_def split: prod.splits)
    with quiet_with_attempts have "no_start w w'" by (blast dest: state_io_relD)
    then show ?thesis by (simp add: no_start_def)
  next
    case True
    with assms(1) obtain checked w1 v g where
      c: "run_state (GenerationCheck_Exec (gs_check service) ?request) w = (checked, w1)"
      and v: "run_state (with_attempts ctx g) w1 = (v, w')"
      by (auto simp: submit_send_def split: prod.splits)
    have "no_start w1 w'" using quiet_with_attempts v by (rule state_io_relD)
    then have same: "filter is_start (w_trace w') = filter is_start (w_trace w1)"
      by (simp add: no_start_def)
    from check_service.exec_starts [OF check c assms(2)] show ?thesis
      unfolding same using True by auto
  qed
qed

end

end
