(* ===== verification/Submit_Outcomes.thy ===== *)
theory Submit_Outcomes
  imports Submit
begin

text \<open>
  The ways a submit ends: \<open>submit_exec_cases\<close> splits a run at its transaction,
  \<open>body_committed\<close> and \<open>exec_sent\<close> say what a committed one wrote, and \<open>admit_answer\<close> reads the
  answer of admission as a statement on the tables, \<open>within_caps\<close>.
\<close>

section \<open>The ways a submit ends\<close>

lemma submit_exec_cases:
  assumes "run_state (GenerationSubmit_Exec service new_id traceparent ctx r) w = (res, w')"
  obtains (early) e where "res = Inl e" and "w' = w" and
      "submit_validateRequest service r = Some e \<or>
       submit_validateRequest service r = None \<and> (\<exists>err. submit_key service r = Inl err)"
  | (ran) key err vars w1 where "submit_validateRequest service r = None" and "submit_key service r = Inr key"
      and "run_state (gs_transactor service ctx (submit_body ctx (submit_row new_id traceparent r key) r)) w =
           ((err, vars), w1)"
      and "(\<exists>e. res = Inl e \<and> w' = w1 \<and>
              ((\<exists>result. vars = Some (result, Some e) \<and> err_is ErrUsageCapReached e) \<or> err = Some e \<or>
               err = None \<and> (case vars of None \<Rightarrow> None | Some v \<Rightarrow> fst v) = None)) \<or>
           (\<exists>result refusal. err = None \<and> vars = Some (Some result, refusal) \<and>
              (\<forall>c. refusal = Some c \<longrightarrow> \<not> err_is ErrUsageCapReached c) \<and>
              run_state (submit_send service ctx r (w_clock w) result) w1 = (res, w'))"
proof (cases "submit_validateRequest service r")
  case (Some e)
  with assms show thesis by (intro early [of e]) (simp_all add: GenerationSubmit_Exec_def)
next
  case None
  show thesis
  proof (cases "submit_key service r")
    case (Inl e)
    with None assms show thesis by (intro early) (auto simp: GenerationSubmit_Exec_def)
  next
    case (Inr key)
    let ?tx = "gs_transactor service ctx (submit_body ctx (submit_row new_id traceparent r key) r)"
    obtain err vars w1 where tx: "run_state ?tx w = ((err, vars), w1)" by (metis prod.exhaust)
    show thesis
      by (rule ran [OF None Inr tx])
         (use assms None Inr tx in
          \<open>auto simp: GenerationSubmit_Exec_def time_Now_def split: option.splits if_splits prod.splits\<close>)
  qed
qed

text \<open>Which start the transaction's insert belongs to, and what followed it.\<close>

context submit_service
begin

lemma body_committed:
  assumes "run_state (gs_transactor service ctx (submit_body ctx row r)) w = ((None, vars), w1)" and "w_tx w = None"
  obtains t g and wa wb :: "'p world" where "sql_submit t row (w_db (begun w)) = (Inr g, w_db w1)"
    and "w_db_clock (begun w) \<le> t" and "t \<le> w_db_clock w1" and "w_tx w1 = None"
    and "vars = Some (Some \<lparr>sres_generation = g, sres_created = (gen_id g = sub_id row)\<rparr>, None)"
    and "gen_id g = sub_id row \<Longrightarrow> run_state (submit_admit ctx r) wa = (None, wb)"
    and "w_db wa = w_db w1" and "w_tx wa = w_tx (begun w)"
proof -
  from transactor.committed_body [OF submit_transactor assms(2,1)] obtain a w2 d where
    body: "vars = Some a" "run_state (submit_body ctx row r) (begun w) = ((None, a), w2)"
      "w1 = elapse d (w2\<lparr>w_tx := None\<rparr>)" by blast
  obtain txn where txn: "w_tx (begun w) = Some txn" using begun_tx [of w] by auto
  from body(2) txn show thesis
  proof (cases rule: submit_body_wrote)
    case (unrecorded e)
    then show thesis by simp
  next
    case (recorded t g created wa)
    show thesis
      by (rule that [of t g wa w2]) (use recorded body txn in \<open>auto simp: elapse_def\<close>)
  qed
qed

lemma exec_sent:
  assumes "run_state (GenerationSubmit_Exec service new_id traceparent ctx r) w = (Inr sd, w')" and "w_tx w = None"
  obtains key t g and w1 wa wb :: "'p world" where "submit_validateRequest service r = None" and "submit_key service r = Inr key"
    and "sql_submit t (submit_row new_id traceparent r key) (w_db (begun w)) = (Inr g, w_db w1)"
    and "w_db_clock (begun w) \<le> t" and "t \<le> w_db_clock w1" and "w_tx w1 = None" and "no_start w w1"
    and "run_state (submit_send service ctx r (w_clock w)
           \<lparr>sres_generation = g, sres_created = (gen_id g = new_id)\<rparr>) w1 = (Inr sd, w')"
    and "gen_id g = new_id \<Longrightarrow> run_state (submit_admit ctx r) wa = (None, wb)"
    and "w_db wa = w_db w1" and "w_tx wa = w_tx (begun w)"
  using assms(1)
proof (cases rule: submit_exec_cases)
  case (early e)
  then show thesis by simp
next
  case (ran key err vars w1)
  let ?row = "submit_row new_id traceparent r key"
  from ran(4) obtain result refusal where sent: "err = None" "vars = Some (Some result, refusal)"
    "run_state (submit_send service ctx r (w_clock w) result) w1 = (Inr sd, w')" by auto
  note tx = ran(3) [unfolded sent(1)]
  have "top_quiet w w1" by (rule state_io_relD [OF record_calm tx])
  with assms(2) have calm: "no_start w w1" by (simp add: top_quiet_def)
  from tx assms(2) show thesis
  proof (cases rule: body_committed)
    case (1 t g wa wb)
    show thesis
      by (rule that [of key t g w1 wa wb])
         (use ran(1,2) 1 sent calm in \<open>simp_all add: submit_row_def\<close>)
  qed
qed

end

section \<open>Admission\<close>

text \<open>What the caps allow, read off the tables at the start of a transaction.\<close>

definition usage_in :: "time \<Rightarrow> generation_submission \<Rightarrow> database \<Rightarrow> cap_window \<Rightarrow> usage_totals" where
  "usage_in txn r db win = window_totals txn (sb_owner_id r) (sb_purpose r) db (win_duration win)"

definition window_open :: "cap_window \<Rightarrow> usage_totals \<Rightarrow> bool" where
  "window_open win used \<longleftrightarrow>
     \<not> reached (win_input_tokens win) (tot_input_tokens used) \<and>
     \<not> reached (win_output_tokens win) (tot_output_tokens used)"

definition within_caps :: "time \<Rightarrow> generation_submission \<Rightarrow> database \<Rightarrow> bool" where
  "within_caps txn r db \<longleftrightarrow>
     (\<forall>n. caps_concurrency (submit_caps r) = Some n \<longrightarrow>
        count_live txn (sb_owner_id r) (sb_purpose r) UnknownOutcomeHold db \<le> n) \<and>
     (\<forall>win \<in> set (caps_windows (submit_caps r)). window_open win (usage_in txn r db win))"

lemma windowRefusal_None: "windowRefusal scope win used now = None \<longleftrightarrow> window_open win used"
  by (simp add: windowRefusal_def window_open_def Let_def)

lemma foreign_not_cap: "foreign e \<Longrightarrow> \<not> err_is ErrUsageCapReached e"
  by (auto simp: foreign_def)

text \<open>The first refusal in the order of the windows is the one answered.\<close>

lemma refuse_windows_answer:
  assumes "run_state (refuse_windows scope wins used) w = (answer, w')" and "length used = length wins"
  shows "w' = w \<and>
    (case answer of
       None \<Rightarrow> \<forall>i < length wins. window_open (wins ! i) (used ! i)
     | Some e \<Rightarrow> \<exists>i u. i < length wins \<and> e = UsageCap u \<and>
         windowRefusal scope (wins ! i) (used ! i) (w_clock w) = Some u \<and>
         (\<forall>j < i. window_open (wins ! j) (used ! j)))"
  using assms
proof (induction scope wins used rule: refuse_windows.induct)
  case (3 scope win wins v used)
  show ?case
  proof (cases "windowRefusal scope win v (w_clock w)")
    case None
    with 3 have "run_state (refuse_windows scope wins used) w = (answer, w')"
      by (simp add: time_Now_def)
    from "3.IH" [OF None this] "3.prems"(2) have IH: "w' = w \<and>
      (case answer of
         None \<Rightarrow> \<forall>i < length wins. window_open (wins ! i) (used ! i)
       | Some e \<Rightarrow> \<exists>i u. i < length wins \<and> e = UsageCap u \<and>
           windowRefusal scope (wins ! i) (used ! i) (w_clock w) = Some u \<and>
           (\<forall>j < i. window_open (wins ! j) (used ! j)))" by simp
    from None have first: "window_open win v" by (simp add: windowRefusal_None)
    show ?thesis
    proof (cases answer)
      case None
      with IH first show ?thesis by (simp add: All_less_Suc2)
    next
      case (Some e)
      with IH obtain i u where "i < length wins" "e = UsageCap u"
        "windowRefusal scope (wins ! i) (used ! i) (w_clock w) = Some u"
        "\<forall>j < i. window_open (wins ! j) (used ! j)" by auto
      moreover have "window_open ((win # wins) ! j) ((v # used) ! j)" if "j < Suc i" for j
        using that first \<open>\<forall>j < i. window_open (wins ! j) (used ! j)\<close> by (cases j) simp_all
      ultimately have "Suc i < length (win # wins) \<and> e = UsageCap u \<and>
          windowRefusal scope ((win # wins) ! Suc i) ((v # used) ! Suc i) (w_clock w) = Some u \<and>
          (\<forall>j < Suc i. window_open ((win # wins) ! j) ((v # used) ! j))" by simp
      with IH Some show ?thesis by (simp only: option.case) blast
    qed
  next
    case (Some u)
    with 3 have "w' = w" "answer = Some (UsageCap u)" by (simp_all add: time_Now_def)
    with Some show ?thesis by (simp only: option.case) (fastforce intro!: exI [of _ 0])
  qed
qed auto

lemma usage_sum_in_tx:
  assumes "run_state (PgGenerationUsageSum_Exec ctx owner purpose durations) w = (Inr used, w')"
    and "w_tx w = Some txn"
  shows "used = map (window_totals txn owner purpose (w_db w)) durations"
  using assms
proof (cases rule: dsum.answered_in_tx)
  case (1 a now)
  then show ?thesis by (simp add: sql_usage_sum_def Let_def split: if_splits)
qed

lemma admit_windows_answer:
  assumes "run_state (admit_windows ctx r) w = (answer, w')" and "w_tx w = Some txn"
  shows "(answer = None \<longrightarrow>
            (\<forall>win \<in> set (caps_windows (submit_caps r)). window_open win (usage_in txn r (w_db w) win))) \<and>
         (\<forall>e. answer = Some e \<and> err_is ErrUsageCapReached e \<longrightarrow>
            (\<exists>u win now. e = UsageCap u \<and> win \<in> set (caps_windows (submit_caps r)) \<and>
               windowRefusal (submit_scope r) win (usage_in txn r (w_db w) win) now = Some u \<and>
               (\<forall>win' \<in> set (caps_windows (submit_caps r)). win_duration win' < win_duration win \<longrightarrow>
                  window_open win' (usage_in txn r (w_db w) win'))))"
proof -
  let ?wins = "sort_key win_duration (caps_windows (submit_caps r))"
  let ?sum = "PgGenerationUsageSum_Exec ctx (sb_owner_id r) (sb_purpose r) (map win_duration ?wins)"
  have set_wins: "set ?wins = set (caps_windows (submit_caps r))" by simp
  show ?thesis
  proof (cases "?wins = []")
    case True
    with set_wins have "caps_windows (submit_caps r) = []" by simp
    with assms(1) show ?thesis by (simp add: admit_windows_def)
  next
    case False
    obtain res w1 where sum: "run_state ?sum w = (res, w1)" by fastforce
    show ?thesis
    proof (cases res)
      case (Inl err)
      with False sum assms(1) have answer: "answer = Some (Wrap ''sum usage'' err)"
        by (simp add: admit_windows_def Let_def)
      have "\<not> err_is ErrUsageCapReached err"
        using sum [unfolded Inl]
      proof (cases rule: dsum.failed)
        case (refused sl w1 e' d db')
        then show ?thesis by (auto simp: sql_usage_sum_def Let_def split: if_splits)
      next
        case (unanswered sl w1 e' d)
        then show ?thesis by (simp add: foreign_not_cap)
      qed
      with answer show ?thesis by simp
    next
      case (Inr used)
      from usage_sum_in_tx [OF sum [unfolded Inr] assms(2)]
      have used: "used = map (usage_in txn r (w_db w)) ?wins" by (simp add: usage_in_def comp_def)
      from False sum Inr assms(1) have "run_state (refuse_windows (submit_scope r) ?wins used) w1 = (answer, w')"
        by (simp add: admit_windows_def Let_def)
      from refuse_windows_answer [OF this] used have found: "case answer of
         None \<Rightarrow> \<forall>i < length ?wins. window_open (?wins ! i) (used ! i)
       | Some e \<Rightarrow> \<exists>i u. i < length ?wins \<and> e = UsageCap u \<and>
           windowRefusal (submit_scope r) (?wins ! i) (used ! i) (w_clock w1) = Some u \<and>
           (\<forall>j < i. window_open (?wins ! j) (used ! j))" by simp
      show ?thesis
      proof (cases answer)
        case None
        with found have "\<forall>i < length ?wins. window_open (?wins ! i) (used ! i)" by simp
        with used have "window_open win (usage_in txn r (w_db w) win)" if "win \<in> set ?wins" for win
          using that by (metis in_set_conv_nth nth_map)
        with None set_wins show ?thesis by simp
      next
        case (Some e)
        with found obtain i u where i: "i < length ?wins" "e = UsageCap u"
          "windowRefusal (submit_scope r) (?wins ! i) (used ! i) (w_clock w1) = Some u"
          "\<forall>j < i. window_open (?wins ! j) (used ! j)" by auto
        have shorter: "window_open win' (usage_in txn r (w_db w) win')"
          if win': "win' \<in> set ?wins" "win_duration win' < win_duration (?wins ! i)" for win'
        proof -
          from win'(1) obtain j where j: "j < length ?wins" "win' = ?wins ! j" by (metis in_set_conv_nth)
          have "j < i"
          proof (rule ccontr)
            assume "\<not> j < i"
            then have "map win_duration ?wins ! i \<le> map win_duration ?wins ! j"
              using j(1) by (intro sorted_nth_mono) simp_all
            with win'(2) j i(1) show False by simp
          qed
          with i(4) have "window_open (?wins ! j) (used ! j)" by blast
          then show ?thesis unfolding used j(2) nth_map [OF j(1)] .
        qed
        have "?wins ! i \<in> set (caps_windows (submit_caps r))" using i(1) set_wins nth_mem by blast
        with i used shorter set_wins Some show ?thesis by fastforce
      qed
    qed
  qed
qed

lemma count_live_in_tx:
  assumes "run_state (PgGenerationCountLive_Exec ctx owner purpose hold) w = (Inr live, w')"
    and "w_tx w = Some txn"
  shows "live = count_live txn owner purpose hold (w_db w)"
  using assms
proof (cases rule: dcount.answered_in_tx)
  case (1 a now)
  then show ?thesis by (simp add: sql_count_live_def)
qed

lemma admit_concurrency_answer:
  assumes "run_state (admit_concurrency ctx r) w = (answer, w')" and "w_tx w = Some txn"
  shows "(answer = None \<longrightarrow> (\<forall>n. caps_concurrency (submit_caps r) = Some n \<longrightarrow>
            count_live txn (sb_owner_id r) (sb_purpose r) UnknownOutcomeHold (w_db w) \<le> n)) \<and>
         (\<forall>e. answer = Some e \<and> err_is ErrUsageCapReached e \<longrightarrow>
            (\<exists>u n. e = UsageCap u \<and> caps_concurrency (submit_caps r) = Some n \<and>
               n < count_live txn (sb_owner_id r) (sb_purpose r) UnknownOutcomeHold (w_db w)))"
proof (cases "caps_concurrency (submit_caps r)")
  case None
  with assms(1) show ?thesis by (simp add: admit_concurrency_def)
next
  case (Some cap)
  let ?count = "PgGenerationCountLive_Exec ctx (sb_owner_id r) (sb_purpose r) UnknownOutcomeHold"
  obtain res w1 where count: "run_state ?count w = (res, w1)" by fastforce
  show ?thesis
  proof (cases res)
    case (Inl err)
    with Some count assms(1) have answer: "answer = Some (Wrap ''count live generations'' err)"
      by (simp add: admit_concurrency_def)
    have "\<not> err_is ErrUsageCapReached err"
      using count [unfolded Inl]
    proof (cases rule: dcount.failed)
      case (refused sl w1 e' d db')
      then show ?thesis by (simp add: sql_count_live_def)
    next
      case (unanswered sl w1 e' d)
      then show ?thesis by (simp add: foreign_not_cap)
    qed
    with answer show ?thesis by simp
  next
    case (Inr live)
    from count_live_in_tx [OF count [unfolded Inr] assms(2)] Some count Inr assms(1) show ?thesis
      by (auto simp: admit_concurrency_def split: if_splits)
  qed
qed

text \<open>Admission answers nothing exactly when the caps allow the generation, and a refusal only when they do not.\<close>

lemma admit_answer:
  assumes "run_state (submit_admit ctx r) w = (answer, w')" and "w_tx w = Some txn"
  shows "(answer = None \<longrightarrow> within_caps txn r (w_db w)) \<and>
         (\<forall>e. answer = Some e \<and> err_is ErrUsageCapReached e \<longrightarrow>
            (\<exists>u. e = UsageCap u) \<and> \<not> within_caps txn r (w_db w))"
proof -
  obtain first w1 where first: "run_state (admit_concurrency ctx r) w = (first, w1)" by fastforce
  have "state_io_rel frozen (admit_concurrency ctx r :: ('a, goerr option) process)"
    unfolding admit_concurrency_def by (intro freezes.guarantee_constructs dcount.frozen_read)
  then have "frozen w w1" using first by (rule state_io_relD)
  with assms(2) have kept: "w_tx w1 = Some txn" "w_db w1 = w_db w" by (simp_all add: frozen_def)
  note concurrency = admit_concurrency_answer [OF first assms(2)]
  show ?thesis
  proof (cases first)
    case (Some e)
    with first assms(1) have "answer = Some e" by (simp add: submit_admit_def)
    with Some concurrency show ?thesis by (auto simp: within_caps_def not_le)
  next
    case None
    with first assms(1) have "run_state (admit_windows ctx r) w1 = (answer, w')" by (simp add: submit_admit_def)
    note windows = admit_windows_answer [OF this kept(1), unfolded kept(2)]
    show ?thesis
    proof (intro conjI impI allI)
      assume "answer = None"
      with windows concurrency None show "within_caps txn r (w_db w)" unfolding within_caps_def by blast
    next
      fix e
      assume "answer = Some e \<and> err_is ErrUsageCapReached e"
      with windows obtain u win now where u: "e = UsageCap u" "win \<in> set (caps_windows (submit_caps r))"
        "windowRefusal (submit_scope r) win (usage_in txn r (w_db w) win) now = Some u" by blast
      then show "\<exists>u. e = UsageCap u" by blast
      from u(3) have "\<not> window_open win (usage_in txn r (w_db w) win)"
        by (metis windowRefusal_None option.distinct(1))
      with u(2) show "\<not> within_caps txn r (w_db w)" unfolding within_caps_def by blast
    qed
  qed
qed

lemma with_attempts_failed:
  "run_state (with_attempts ctx g) w = (Inl e, w') \<Longrightarrow> \<not> err_is ErrUsageCapReached e"
proof -
  assume "run_state (with_attempts ctx g) w = (Inl e, w')"
  then obtain err where list: "run_state (PgGenerationAttemptList_Exec ctx (gen_id g)) w = (Inl err, w')"
    and e: "e = Wrap ''list attempts'' err"
    by (auto simp: with_attempts_def split: if_splits sum.splits prod.splits)
  from list have "\<not> err_is ErrUsageCapReached err"
  proof (cases rule: dattempts.failed)
    case (refused sl w1 e' d db')
    then show ?thesis by (simp add: sql_attempt_list_def)
  next
    case (unanswered sl w1 e' d)
    then show ?thesis by (simp add: foreign_not_cap)
  qed
  with e show ?thesis by simp
qed

lemma send_created:
  assumes "run_state (submit_send service ctx r intentAt result) w = (Inr sd, w')"
  shows "sd_created sd = sres_created result"
proof -
  from assms obtain g w1 where "run_state (do {
      view \<leftarrow> with_attempts ctx g;
      State_Monad.return (case view of Inl err \<Rightarrow> Inl err
        | Inr v \<Rightarrow> Inr \<lparr>sd_generation = v, sd_created = sres_created result\<rparr>) }) w1 = (Inr sd, w')"
    unfolding submit_send_def by (rule run_state_bindE)
  then show ?thesis by (auto split: prod.splits sum.splits)
qed

text \<open>What follows the transaction answers the generation it recorded or found.\<close>

context submit_service
begin

lemma send_answers:
  assumes "run_state (submit_send service ctx r intentAt result) w = (Inr sd, w')"
    and "w_tx w = None" and "db_inv (w_db w)"
  shows "gv_id (sd_generation sd) = gen_id (sres_generation result) \<and> sd_created sd = sres_created result \<and>
         (\<not> sres_created result \<longrightarrow> no_start w w')"
proof -
  let ?check = "if sres_created result then do {
          checked \<leftarrow> GenerationCheck_Exec (gs_check service)
            \<lparr>cr_generation = sres_generation result,
             cr_start = Some \<lparr>cs_payload = sb_payload r, cs_intent_at = intentAt\<rparr>\<rparr>;
          State_Monad.return (case checked of Inl _ \<Rightarrow> sres_generation result | Inr g \<Rightarrow> g)
        }
        else State_Monad.return (sres_generation result)"
  from assms(1) obtain g w1 where g: "run_state ?check w = (g, w1)"
    and rest: "run_state (do {
      view \<leftarrow> with_attempts ctx g;
      State_Monad.return (case view of Inl err \<Rightarrow> Inl err
        | Inr v \<Rightarrow> Inr \<lparr>sd_generation = v, sd_created = sres_created result\<rparr>) }) w1 = (Inr sd, w')"
    unfolding submit_send_def by (rule run_state_bindE)
  have same: "gen_id g = gen_id (sres_generation result)"
  proof (cases "sres_created result")
    case True
    with g obtain checked where run: "run_state (GenerationCheck_Exec (gs_check service)
            \<lparr>cr_generation = sres_generation result,
             cr_start = Some \<lparr>cs_payload = sb_payload r, cs_intent_at = intentAt\<rparr>\<rparr>) w = (checked, w1)"
      and g: "g = (case checked of Inl _ \<Rightarrow> sres_generation result | Inr g \<Rightarrow> g)"
      by (auto split: prod.splits)
    show ?thesis
    proof (cases checked)
      case (Inr h)
      from answersD [OF check_service.exec_answers [OF check] run [unfolded Inr] assms(2,3)] g Inr
      show ?thesis by simp
    qed (use g in simp)
  next
    case False
    with g show ?thesis by simp
  qed
  from rest obtain v where view: "run_state (with_attempts ctx g) w1 = (Inr v, w')"
    "sd = \<lparr>sd_generation = v, sd_created = sres_created result\<rparr>"
    by (auto split: prod.splits sum.splits)
  have "no_start w w'" if "\<not> sres_created result"
    using that g state_io_relD [OF quiet_with_attempts view(1)] by simp
  with same view with_attempts_view [OF view(1)] show ?thesis by simp
qed

end

lemma send_failed:
  assumes "run_state (submit_send service ctx r intentAt result) w = (Inl e, w')"
  shows "\<not> err_is ErrUsageCapReached e"
proof -
  from assms obtain g w1 where "run_state (do {
      view \<leftarrow> with_attempts ctx g;
      State_Monad.return (case view of Inl err \<Rightarrow> Inl err
        | Inr v \<Rightarrow> Inr \<lparr>sd_generation = v, sd_created = sres_created result\<rparr>) }) w1 = (Inl e, w')"
    unfolding submit_send_def by (rule run_state_bindE)
  then obtain view w2 where "run_state (with_attempts ctx g) w1 = (view, w2)"
    and "(case view of Inl err \<Rightarrow> Inl err
        | Inr v \<Rightarrow> Inr \<lparr>sd_generation = v, sd_created = sres_created result\<rparr>) = Inl e"
    by (auto split: prod.splits)
  then show ?thesis by (cases view) (auto dest: with_attempts_failed)
qed

lemma insert_failed:
  assumes "run_state (PgGenerationSubmit_Exec ctx row) w = (Inl e, w')"
  shows "\<not> err_is ErrUsageCapReached e"
  using assms
proof (cases rule: dsubmit.failed)
  case (refused sl w1 e' d db')
  then show ?thesis by (auto simp: sql_submit_def split: if_splits option.splits)
next
  case (unanswered sl w1 e' d)
  then show ?thesis by (simp add: foreign_not_cap)
qed

text \<open>A transaction that lets a cap's refusal out is one its body failed with that refusal.\<close>

lemma body_refused:
  assumes "tx_outcome (submit_body ctx row r) w (err, vars) w1" and "err_is ErrUsageCapReached e"
    and "(\<exists>result. vars = Some (result, Some e)) \<or> err = Some e \<or>
         err = None \<and> (case vars of None \<Rightarrow> None | Some v \<Rightarrow> fst v) = None"
  obtains err' a w2 where "run_state (submit_body ctx row r) (begun w) = ((Some err', a), w2)"
    and "err_is ErrUsageCapReached err'" and "w_db w1 = w_db (begun w)"
proof -
  obtain txn where txn: "w_tx (begun w) = Some txn" using begun_tx [of w] by auto
  have whole: "\<exists>result. a = (Some result, err')"
    if "run_state (submit_body ctx row r) (begun w) = ((err', a), w2)" "a \<noteq> (None, None)" for err' a w2
    using submit_body_wrote [OF that(1) txn] that(2) by (metis (no_types))
  have clean: "\<exists>result. a = (Some result, None)"
    if "run_state (submit_body ctx row r) (begun w) = ((None, a), w2)" for a w2
    using submit_body_wrote [OF that txn] by (metis (no_types) option.distinct(1))
  have cap: "\<not> foreign e" using assms(2) foreign_not_cap by blast
  from assms(1) show thesis
  proof cases
    case (begin_failed e' d)
    with assms(3) cap show thesis by auto
  next
    case (body_failed err' a w2 e' d)
    have "err_is ErrUsageCapReached err'"
    proof (cases "err = Some e")
      case True
      with body_failed assms(2) show ?thesis by simp
    next
      case False
      with assms(3) body_failed obtain result where a: "a = (result, Some e)" by auto
      with whole [OF body_failed(4)] assms(2) show ?thesis by auto
    qed
    with body_failed show thesis by (intro that) (simp_all add: elapse_def rolled_back_def)
  next
    case (commit_failed a w2 e' d)
    with assms(3) cap clean [OF commit_failed(4)] show thesis by auto
  next
    case (commit_unanswered a w2 e' d)
    with assms(3) cap clean [OF commit_unanswered(4)] show thesis by auto
  next
    case (committed a w2 d)
    with assms(3) clean [OF committed(4)] show thesis by auto
  qed
qed

lemma body_refused_over_caps:
  assumes "run_state (submit_body ctx row r) w = ((Some err, a), w2)" and "w_tx w = Some txn"
    and "err_is ErrUsageCapReached err"
  shows "\<exists>t g db1. sql_submit t row (w_db w) = (Inr g, db1) \<and> \<not> within_caps txn r db1"
  using assms(1,2)
proof (cases rule: submit_body_wrote)
  case (unrecorded e)
  then obtain e' w1 where "run_state (PgGenerationSubmit_Exec ctx row) w = (Inl e', w1)" "err_is ErrUsageCapReached e'"
    using assms by (cases "fst (run_state (PgGenerationSubmit_Exec ctx row) w)")
      (auto simp: submit_body_def split: prod.splits if_splits)
  then show ?thesis using insert_failed by blast
next
  case (recorded t g created w1)
  then have "run_state (submit_admit ctx r) w1 = (Some err, w2)" by auto
  from admit_answer [OF this] recorded assms(3) have "\<not> within_caps txn r (w_db w2)" by auto
  with recorded(1) show ?thesis by blast
qed

section \<open>The row a submit answers\<close>

lemma begun_inv:
  assumes "w_tx w = None" and "db_inv (w_db w)"
  shows "db_inv (w_db (begun w))"
  using run_begun [OF assms(1)] assms world_run_inv [of w "(begun w)\<lparr>w_tx := None\<rparr>"] by simp

context submit_service
begin

text \<open>What a submit does with the row that serves its request already.\<close>

lemma submit_replays:
  assumes "run_state (GenerationSubmit_Exec service new_id traceparent ctx r) w = (Inr sd, w')"
    and "submit_key service r = Inr key" and "w_tx w = None" and "db_inv (w_db w)"
    and "find_row (w_db (begun w)) i = Some h" and "keyed h" and "gen_request_key h = key" and "i \<noteq> new_id"
  shows "\<not> sd_created sd \<and> gv_id (sd_generation sd) = i \<and> no_start w w'"
  using exec_sent [OF assms(1,3)]
proof cases
  case (1 key' t g w1 wa wb)
  let ?row = "submit_row new_id traceparent r key"
  have insert: "sql_submit t ?row (w_db (begun w)) = (Inr g, w_db w1)" using 1(2,3) assms(2) by simp
  have inv: "db_inv (w_db (begun w))" using assms(3,4) by (rule begun_inv)
  have h: "h \<in> set (generations (w_db (begun w)))" "gen_id h = i" using find_row_in [OF assms(5)] by simp_all
  have "g = h"
    using insert
  proof (cases rule: submit_cases)
    case replayed
    show ?thesis
      by (rule keyed_unique [OF inv]) (use replayed h assms(6,7) in \<open>simp_all add: submit_row_def\<close>)
  next
    case created
    from created(4) [OF h(1) assms(6)] assms(7) show ?thesis by (simp add: submit_row_def)
  qed
  with send_answers [OF 1(8) 1(6) submit_inv [OF insert inv]] h(2) assms(8) 1(7) show ?thesis
    by (auto simp: no_start_def)
qed

text \<open>What a submit that created a generation leaves: its row, on its way.\<close>

lemma submit_creates:
  assumes "run_state (GenerationSubmit_Exec service new_id traceparent ctx r) w = (Inr sd, w')"
    and "sd_created sd" and "w_tx w = None" and "db_inv (w_db w)"
    and "new_id \<notin> gen_id ` set (generations (w_db (begun w)))"
  obtains key t db1 where "submit_key service r = Inr key" and "gv_id (sd_generation sd) = new_id"
    and "db_inv db1" and "find_row db1 new_id = Some (new_row t (submit_row new_id traceparent r key))"
    and "db_run t db1 (w_db_clock w') (w_db w')"
  using exec_sent [OF assms(1,3)]
proof cases
  case (1 key t g w1 wa wb)
  let ?row = "submit_row new_id traceparent r key"
  have id: "sub_id ?row = new_id" by (simp add: submit_row_def)
  have inv: "db_inv (w_db w1)" by (rule submit_inv [OF 1(3) begun_inv [OF assms(3,4)]])
  note answer = send_answers [OF 1(8) 1(6) inv]
  with assms(2) have g: "gen_id g = new_id" by simp
  have "g = new_row t ?row \<and> g \<in> set (generations (w_db w1))"
    using 1(3)
  proof (cases rule: submit_cases)
    case replayed
    with g assms(5) show ?thesis by blast
  next
    case created
    then show ?thesis by simp
  qed
  with g find_row_iff [OF db_inv_distinct [OF inv]] have found: "find_row (w_db w1) new_id = Some (new_row t ?row)"
    by metis
  have "top_run w1 w'" by (rule state_io_relD [OF send_moves 1(8)])
  with 1(6) have run: "world_run w1 w'" by (simp add: top_run_def)
  have "db_run t (w_db w1) (w_db_clock w') (w_db w')"
    using run 1(5,6) by (simp add: world_run_def) (meson db_run_trans db_run.idle)
  with 1(2) answer g inv found show thesis by (intro that) simp_all
qed

end

end
