(* ===== verification/Services.thy ===== *)
theory Services
  imports Submit_Outcomes
begin

text \<open>
  The services an owner reads and stops generations with, one section per file of
  \<^verbatim>\<open>internal/core\<close>: \<open>generationGet.go\<close>, \<open>generationCancel.go\<close>, \<open>generationStream.go\<close>,
  \<open>generationQueueDepth.go\<close> and \<open>usageSummary.go\<close>. The DAO operations a Go service takes as its
  dependencies are the ones the entrypoints wire, those of \<open>Dao\<close>.
\<close>

section \<open>Reading a generation\<close>

record generation_get_request =
  ggr_id :: uuid
  ggr_owner_id :: uuid

text \<open>A check that failed leaves its caller with the generation as read.\<close>

definition get_checked :: "'p generation_check \<Rightarrow> generation \<Rightarrow> ('p, generation) process" where
  "get_checked service g =
     (if gen_settled_at g = None then do {
        checked \<leftarrow> GenerationCheck_Exec service \<lparr>cr_generation = g, cr_start = None\<rparr>;
        State_Monad.return (case checked of Inl _ \<Rightarrow> g | Inr h \<Rightarrow> h)
      }
      else State_Monad.return g)"

definition GenerationGet_Exec ::
  "'p generation_check \<Rightarrow> ctx \<Rightarrow> generation_get_request \<Rightarrow> ('p, goerr + generation_view) process" where
  "GenerationGet_Exec service ctx request =
     (if ggr_id request = 0 \<or> ggr_owner_id request = 0 then State_Monad.return (Inl invalid)
      else do {
        res \<leftarrow> PgGenerationGet_Exec ctx (ggr_id request) (ggr_owner_id request);
        case res of
          Inl err \<Rightarrow> State_Monad.return (Inl (Wrap ''get generation'' err))
        | Inr g \<Rightarrow> do { g \<leftarrow> get_checked service g; with_attempts ctx g }
      })"

section \<open>Stopping a generation\<close>

record generation_cancel_request =
  gcr_id :: uuid
  gcr_owner_id :: uuid

text \<open>The row a cancel leaves or finds: settled already, or not this owner's, tells a second read.\<close>

definition cancel_found ::
  "duration \<Rightarrow> ctx \<Rightarrow> generation_cancel_request \<Rightarrow> ('p, goerr + generation) process" where
  "cancel_found retention ctx request = do {
     res \<leftarrow> PgGenerationRequestCancel_Exec ctx
       \<lparr>can_id = gcr_id request, can_owner_id = gcr_owner_id request,
        can_error = generationCancelledReason, can_retention = retention\<rparr>;
     case res of
       Inr g \<Rightarrow> State_Monad.return (Inr g)
     | Inl err \<Rightarrow>
         if err_is ErrGenerationNotCancellable err
         then PgGenerationGet_Exec ctx (gcr_id request) (gcr_owner_id request)
         else State_Monad.return (Inl err)
   }"

text \<open>A call the provider runs is stopped by a check, before the answer.\<close>

definition cancel_stop ::
  "'p generation_check \<Rightarrow> ctx \<Rightarrow> generation \<Rightarrow> ('p, goerr + generation_view) process" where
  "cancel_stop service ctx g =
     (if gen_provider_call_id g \<noteq> None \<and> gen_settled_at g = None then do {
        checked \<leftarrow> GenerationCheck_Exec service \<lparr>cr_generation = g, cr_start = None\<rparr>;
        case checked of
          Inl err \<Rightarrow> State_Monad.return (Inl (Wrap ''stop provider call'' err))
        | Inr h \<Rightarrow> with_attempts ctx h
      }
      else with_attempts ctx g)"

definition GenerationCancel_Exec ::
  "'p generation_check \<Rightarrow> duration \<Rightarrow> ctx \<Rightarrow> generation_cancel_request \<Rightarrow>
   ('p, goerr + generation_view) process" where
  "GenerationCancel_Exec service retention ctx request =
     (if gcr_id request = 0 \<or> gcr_owner_id request = 0 then State_Monad.return (Inl invalid)
      else do {
        res \<leftarrow> cancel_found retention ctx request;
        case res of
          Inl err \<Rightarrow> State_Monad.return (Inl (Wrap ''cancel generation'' err))
        | Inr g \<Rightarrow> cancel_stop service ctx g
      })"

section \<open>Streaming a generation's events\<close>

record generation_stream_request =
  gsr_id :: uuid
  gsr_owner_id :: uuid
  gsr_starting_after :: "int option"

text \<open>
  \<open>forwardEvents\<close>, with the events its caller read before it stopped as the list it runs on: each
  event in turn, up to the first error.
\<close>

fun forwardEvents :: "(goerr + stream_event) list \<Rightarrow> (goerr + int \<times> raw) list" where
  "forwardEvents [] = []"
| "forwardEvents (Inl err # events) = [Inl err]"
| "forwardEvents (Inr event # events) = Inr (ev_sequence event, ev_data event) # forwardEvents events"

text \<open>
  The events are read as the caller consumes them: the answer is the process that reads them.
\<close>

definition GenerationStream_Exec ::
  "('p, generation) registry \<Rightarrow> ctx \<Rightarrow> generation_stream_request \<Rightarrow>
   ('p, goerr + ('p, (goerr + int \<times> raw) list) process) process" where
  "GenerationStream_Exec registry ctx request =
     (if gsr_id request = 0 \<or> gsr_owner_id request = 0 \<or> \<not> non_negative (gsr_starting_after request)
      then State_Monad.return (Inl invalid)
      else do {
        res \<leftarrow> PgGenerationGet_Exec ctx (gsr_id request) (gsr_owner_id request);
        State_Monad.return
          (case res of
             Inl err \<Rightarrow> Inl (Wrap ''get generation'' err)
           | Inr g \<Rightarrow>
               if \<not> gen_streamed g then Inl (Sentinel ErrGenerationNotStreamed)
               else case gen_provider_call_id g of
                 None \<Rightarrow> Inl (Annotate (Sentinel ErrStreamUnavailable) ''no provider call yet'')
               | Some call \<Rightarrow>
                   (case registry_Streaming registry (gen_provider g) of
                      Inl err \<Rightarrow> Inl (Wrap (''provider '' @ quoted (gen_provider g)) err)
                    | Inr stream \<Rightarrow> Inr (do {
                        events \<leftarrow> stream ctx call (gsr_starting_after request);
                        State_Monad.return (forwardEvents events) })))
      })"

section \<open>The backlog\<close>

definition GenerationQueueDepth_Exec :: "ctx \<Rightarrow> ('p, goerr + int \<times> duration) process" where
  "GenerationQueueDepth_Exec ctx = do {
     res \<leftarrow> PgGenerationQueueDepth_Exec ctx;
     State_Monad.return
       (case res of Inl err \<Rightarrow> Inl (Wrap ''read queue depth'' err) | Inr depth \<Rightarrow> Inr depth)
   }"

section \<open>An owner's usage\<close>

record usage_summary_request =
  usr_owner_id :: uuid
  usr_purpose :: string
  usr_windows :: "duration list"

record usage_summary_window =
  usw_duration :: duration
  usw_input_tokens :: int
  usw_output_tokens :: int

record usage_summary_result =
  uss_live :: int
  uss_windows :: "usage_summary_window list"

definition summary_valid :: "usage_summary_request \<Rightarrow> bool" where
  "summary_valid r \<longleftrightarrow>
     usr_owner_id r \<noteq> 0 \<and>
     usr_purpose r \<noteq> [] \<and> \<not> blank (usr_purpose r) \<and> rune_count (usr_purpose r) \<le> 255 \<and>
     length (usr_windows r) \<le> 10 \<and> distinct (usr_windows r) \<and>
     list_all (\<lambda>d. 0 < d \<and> d \<le> 8760 * hour) (usr_windows r)"

definition summary_window :: "duration \<Rightarrow> usage_totals \<Rightarrow> usage_summary_window" where
  "summary_window d used =
     \<lparr>usw_duration = d, usw_input_tokens = tot_input_tokens used, usw_output_tokens = tot_output_tokens used\<rparr>"

definition UsageSummary_Exec ::
  "string list \<Rightarrow> ctx \<Rightarrow> usage_summary_request \<Rightarrow> ('p, goerr + usage_summary_result) process" where
  "UsageSummary_Exec purposes ctx r =
     (if \<not> summary_valid r then State_Monad.return (Inl invalid)
      else if usr_purpose r \<notin> set purposes then
        State_Monad.return (Inl (Annotate (Sentinel ErrInvalidRequest)
          (''purpose '' @ quoted (usr_purpose r) @ '' is not declared'')))
      else do {
        live \<leftarrow> PgGenerationCountLive_Exec ctx (usr_owner_id r) (usr_purpose r) UnknownOutcomeHold;
        case live of
          Inl err \<Rightarrow> State_Monad.return (Inl (Wrap ''count live generations'' err))
        | Inr live \<Rightarrow>
            if usr_windows r = [] then State_Monad.return (Inr \<lparr>uss_live = live, uss_windows = []\<rparr>)
            else do {
              used \<leftarrow> PgGenerationUsageSum_Exec ctx (usr_owner_id r) (usr_purpose r) (usr_windows r);
              State_Monad.return
                (case used of
                   Inl err \<Rightarrow> Inl (Wrap ''sum usage'' err)
                 | Inr used \<Rightarrow>
                     if length used < length (usr_windows r) then Inl (Panic ''index out of range'')
                     else Inr \<lparr>uss_live = live,
                       uss_windows = map2 summary_window (usr_windows r) used\<rparr>)
            }
      })"

end
