(* ===== verification/Sweep.thy ===== *)
theory Sweep
  imports Submit_Outcomes
begin

text \<open>
  \<^verbatim>\<open>internal/core/generationSweep.go\<close>: the leader of a sweep reads the unsettled
  generations page by page, in the order of their identifiers, and checks each.

  A sweep ends with its context, whose end is \<open>ctx\<close>, and starts no check it could not finish
  before its caller's deadline: the two differ, since a stopping server ends a context that has
  no deadline. The checks of a page run in goroutines; here they run one after the other, and
  what another would have committed meanwhile is a transaction of the schedule. \<open>Slots\<close> models the
  slots they share.

  The pages are one recursive function on the world. It ends: each page that is not the last
  moves the cursor forward, and identifiers are bounded.
\<close>

section \<open>The sweep\<close>

record 'p generation_sweep =
  gw_check :: "'p generation_check"
  gw_batch_size :: nat

definition mayStart :: "time option \<Rightarrow> time \<Rightarrow> bool" where
  "mayStart lastStart now = (case lastStart of None \<Rightarrow> True | Some t \<Rightarrow> now < t)"

definition checkOne :: "'p generation_sweep \<Rightarrow> generation \<Rightarrow> ('p, unit) process" where
  "checkOne service g = do {
     _ \<leftarrow> GenerationCheck_Exec (gw_check service) \<lparr>cr_generation = g, cr_start = None\<rparr>;
     State_Monad.return ()
   }"

text \<open>The wait for a slot is an interaction of its own, which may outlast the sweep.\<close>

fun sweep_dispatch ::
  "'p generation_sweep \<Rightarrow> ctx \<Rightarrow> time option \<Rightarrow> generation list \<Rightarrow> ('p, unit) process" where
  "sweep_dispatch service ctx lastStart [] = State_Monad.return ()"
| "sweep_dispatch service ctx lastStart (g # gs) = do {
     _ \<leftarrow> next_slot;
     now \<leftarrow> time_Now;
     if over ctx now \<or> \<not> mayStart lastStart now then State_Monad.return ()
     else do { _ \<leftarrow> checkOne service g; sweep_dispatch service ctx lastStart gs }
   }"

definition sweepBatch ::
  "'p generation_sweep \<Rightarrow> ctx \<Rightarrow> time option \<Rightarrow> uuid \<Rightarrow> ('p, goerr + generation list) process" where
  "sweepBatch service ctx lastStart after = do {
     res \<leftarrow> PgGenerationSweep_Exec ctx after (gw_batch_size service);
     now \<leftarrow> time_Now;
     case res of
       Inl err \<Rightarrow>
         State_Monad.return (if over ctx now then Inr [] else Inl (Wrap ''sweep generations'' err))
     | Inr gens \<Rightarrow> do {
         _ \<leftarrow> sweep_dispatch service ctx lastStart gens;
         State_Monad.return (Inr gens)
       }
   }"

lemma sweep_page:
  assumes "run_state (PgGenerationSweep_Exec ctx after limit) w = (Inr gens, w')"
  obtains sl w1 d where "run_state next_slot w = (sl, w1)" and "w' = elapse d w1"
    and "gens = map (\<lambda>g. g\<lparr>gen_read_at := w_db_clock w1\<rparr>) (take limit (sort_key gen_id
          (filter (\<lambda>g. live_status (gen_status g) \<and> after < gen_id g) (generations (w_db w1)))))"
  using assms
proof (cases rule: dsweep.answered)
  case (1 sl w1 a d db')
  then have "w' = elapse d w1" by (simp add: sql_sweep_def elapse_def)
  with 1 show thesis by (intro that) (auto simp: sql_sweep_def)
qed

lemma sweepBatch_answer:
  assumes "run_state (sweepBatch service ctx lastStart after) w = (Inr gens, w')"
  obtains (stopped) e w1 where "run_state (PgGenerationSweep_Exec ctx after (gw_batch_size service)) w = (Inl e, w1)"
      and "gens = []" and "w' = w1" and "over ctx (w_clock w')"
  | (paged) w1 where "run_state (PgGenerationSweep_Exec ctx after (gw_batch_size service)) w = (Inr gens, w1)"
      and "run_state (sweep_dispatch service ctx lastStart gens) w1 = ((), w')"
  using assms
  by (auto simp: sweepBatch_def time_Now_def split: sum.splits prod.splits if_splits)

lemma sweepBatch_after:
  assumes "run_state (sweepBatch service ctx lastStart after) w = (Inr gens, w')" and "g \<in> set gens"
  shows "after < gen_id g"
  using assms(1)
proof (cases rule: sweepBatch_answer)
  case (stopped e w1)
  with assms(2) show ?thesis by simp
next
  case (paged w1)
  from paged(1) show ?thesis
  proof (cases rule: sweep_page)
    case (1 sl w2 d)
    with assms(2) show ?thesis by (auto dest: in_set_takeD)
  qed
qed

text \<open>A page that is not the last brings the cursor closer to the greatest identifier.\<close>

lemma sweep_cursor:
  assumes "run_state (sweepBatch service ctx lastStart after) w = (Inr gens, w1)" and "gens \<noteq> []"
  shows "2 ^ 128 - unat (gen_id (last gens)) < (2 ^ 128 - unat after :: nat)"
proof -
  from sweepBatch_after [OF assms(1) last_in_set [OF assms(2)]] have "unat after < unat (gen_id (last gens))"
    by (simp add: word_less_nat_alt)
  moreover have "unat (gen_id (last gens)) < 2 ^ 128" by (rule order_less_le_trans [OF unsigned_less]) simp
  ultimately show ?thesis by simp
qed

text \<open>The pages from a cursor on; \<open>read\<close> is what the earlier ones read.\<close>

function sweep_pages ::
  "'p generation_sweep \<Rightarrow> ctx \<Rightarrow> time option \<Rightarrow> uuid \<Rightarrow> generation list \<Rightarrow> 'p world \<Rightarrow>
   (goerr + generation list) \<times> 'p world" where
  "sweep_pages service ctx lastStart after read w =
     (if over ctx (w_clock w) \<or> \<not> mayStart lastStart (w_clock w) then (Inr read, w)
      else case run_state (sweepBatch service ctx lastStart after) w of
        (Inl err, w1) \<Rightarrow> (Inl err, w1)
      | (Inr gens, w1) \<Rightarrow>
          if length gens < gw_batch_size service then (Inr (read @ gens), w1)
          else if gens = [] then (Inl (Panic ''index out of range''), w1)
          else sweep_pages service ctx lastStart (gen_id (last gens)) (read @ gens) w1)"
  by pat_completeness auto

termination
  by (relation "measure (\<lambda>(service, ctx, lastStart, after, read, w). 2 ^ 128 - unat after)")
     (simp, metis (no_types, lifting) case_prod_conv in_measure sweep_cursor)

declare sweep_pages.simps [simp del]

text \<open>One page, and what follows it.\<close>

lemma sweep_pages_cases:
  assumes "sweep_pages service ctx lastStart after read w = (res, w')"
  obtains (ended) "over ctx (w_clock w) \<or> \<not> mayStart lastStart (w_clock w)" and "res = Inr read" and "w' = w"
  | (failed) e where "run_state (sweepBatch service ctx lastStart after) w = (Inl e, w')" and "res = Inl e"
  | (last) gens where "run_state (sweepBatch service ctx lastStart after) w = (Inr gens, w')"
      and "length gens < gw_batch_size service" and "res = Inr (read @ gens)"
  | (empty) "run_state (sweepBatch service ctx lastStart after) w = (Inr [], w')"
      and "gw_batch_size service = 0" and "res = Inl (Panic ''index out of range'')"
  | (more) gens w1 where "run_state (sweepBatch service ctx lastStart after) w = (Inr gens, w1)"
      and "gw_batch_size service \<le> length gens" and "gens \<noteq> []"
      and "sweep_pages service ctx lastStart (gen_id (last gens)) (read @ gens) w1 = (res, w')"
proof (cases "over ctx (w_clock w) \<or> \<not> mayStart lastStart (w_clock w)")
  case True
  with assms show thesis by (intro ended) (auto simp: sweep_pages.simps [of _ _ _ _ _ w])
next
  case False
  obtain page w1 where page: "run_state (sweepBatch service ctx lastStart after) w = (page, w1)" by fastforce
  show thesis
  proof (cases page)
    case (Inl e)
    with False page assms show thesis by (intro failed) (auto simp: sweep_pages.simps [of _ _ _ _ _ w])
  next
    case (Inr gens)
    consider "length gens < gw_batch_size service" | "gens = []" "gw_batch_size service = 0"
      | "gw_batch_size service \<le> length gens" "gens \<noteq> []" 
      by (cases "length gens < gw_batch_size service"; cases "gens = []") (simp_all add: not_less)
    then show thesis
      using False page Inr assms
      by cases (auto simp: sweep_pages.simps [of _ _ _ _ _ w] not_less
          intro: last [of gens] empty more [of gens])
  qed
qed

definition GenerationSweep_Exec ::
  "'p generation_sweep \<Rightarrow> time option \<Rightarrow> ctx \<Rightarrow> nat \<Rightarrow> ('p, goerr + nat) process" where
  "GenerationSweep_Exec service deadline ctx session = do {
     let lastStart = map_option (\<lambda>t. t - checkTimeout) deadline;
     now \<leftarrow> time_Now;
     if \<not> mayStart lastStart now then State_Monad.return (Inl (Sentinel ErrSweepDeadlineTooShort))
     else do {
       lock \<leftarrow> PgGenerationSweepLock_Exec ctx session;
       case lock of
         Inl err \<Rightarrow>
           State_Monad.return
             (if err_is ErrGenerationSweepLocked err then Inr 0
              else Inl (Wrap ''take the leader role'' err))
       | Inr lock \<Rightarrow> do {
           swept \<leftarrow> State (sweep_pages service ctx lastStart 0 []);
           now \<leftarrow> time_Now;
           _ \<leftarrow> PgGenerationSweepUnlock_Exec (with_timeout None now persistenceTimeout) (Some lock);
           State_Monad.return (case swept of Inl err \<Rightarrow> Inl err | Inr read \<Rightarrow> Inr (length read))
         }
     }
   }"

end
