(* ===== verification/Handlers.thy ===== *)
theory Handlers
  imports Services Sweep
begin

text \<open>
  \<^verbatim>\<open>internal/handlers\<close>: the gRPC and HTTP handlers, from the fields of a request to the status
  and the fields of its answer.

  A protobuf message is the record of its fields, a well-known timestamp an instant, a well-known
  duration its seconds and nanoseconds. What the handlers take from libraries is
  \<open>handler_library\<close>, an argument of the definitions: \<open>hl_parse\<close> is \<open>uuid.Parse\<close>,
  \<open>hl_fault\<close> is \<open>grpcf.Fault\<close>, \<open>hl_with_details\<close> is \<open>WithDetails\<close> of a status,
  \<open>hl_from_context\<close> is \<open>status.FromContextError\<close>, \<open>hl_as_duration\<close> is
  \<open>AsDuration\<close>, \<open>hl_duration\<close> is \<open>durationpb.New\<close> and \<open>hl_health\<close> is
  \<open>postgres.Health\<close>.
\<close>

section \<open>Statuses\<close>

datatype code =
    Canceled | DeadlineExceeded | InvalidArgument | NotFound | ResourceExhausted
  | FailedPrecondition | Unimplemented | Internal | Unavailable

type_synonym wire_duration = "int \<times> int"

text \<open>A \<open>QuotaFailure\<close> with one violation, its subject and its description, and a \<open>RetryInfo\<close>.\<close>

datatype detail = QuotaFailure string string | RetryInfo wire_duration

record grpc_status =
  st_code :: code
  st_message :: string
  st_details :: "detail list"

definition status_Error :: "code \<Rightarrow> string \<Rightarrow> grpc_status" where
  "status_Error c message = \<lparr>st_code = c, st_message = message, st_details = []\<rparr>"

record 'p handler_library =
  hl_parse :: "string \<Rightarrow> uuid option"
  hl_fault :: "code \<Rightarrow> string \<Rightarrow> goerr \<Rightarrow> grpc_status"
  hl_with_details :: "grpc_status \<Rightarrow> detail list \<Rightarrow> grpc_status option"
  hl_from_context :: "sentinel \<Rightarrow> grpc_status"
  hl_as_duration :: "wire_duration option \<Rightarrow> duration"
  hl_duration :: "duration \<Rightarrow> wire_duration"
  hl_health :: "ctx \<Rightarrow> ('p, goerr option) process"

section \<open>A generation on the wire\<close>

datatype wire_status =
    StatusUnspecified | StatusPending | StatusRunning | StatusSucceeded | StatusFailed | StatusCancelled

datatype wire_failure =
    FailureUnspecified | FailureRejected | FailureProviderFailed | FailureNotStarted | FailureOutcomeUnknown

fun generationStatuses :: "generation_status \<Rightarrow> wire_status" where
  "generationStatuses Pending = StatusPending"
| "generationStatuses Running = StatusRunning"
| "generationStatuses Succeeded = StatusSucceeded"
| "generationStatuses Failed = StatusFailed"
| "generationStatuses Cancelled = StatusCancelled"

fun generationFailures :: "generation_failure option \<Rightarrow> wire_failure" where
  "generationFailures None = FailureUnspecified"
| "generationFailures (Some Rejected) = FailureRejected"
| "generationFailures (Some ProviderFailed) = FailureProviderFailed"
| "generationFailures (Some NotStarted) = FailureNotStarted"
| "generationFailures (Some OutcomeUnknown) = FailureOutcomeUnknown"

record wire_generation =
  wg_id :: string
  wg_owner_id :: string
  wg_purpose :: string
  wg_provider :: string
  wg_status :: wire_status
  wg_error :: string
  wg_failure_class :: wire_failure
  wg_attempts :: "(int \<times> raw) list"
  wg_created_at :: time
  wg_updated_at :: time
  wg_settled_at :: "time option"
  wg_expires_at :: "time option"

definition NewGrpcGeneration :: "generation_view \<Rightarrow> wire_generation" where
  "NewGrpcGeneration g =
     \<lparr>wg_id = uuid_String (gv_id g), wg_owner_id = uuid_String (gv_owner_id g),
      wg_purpose = gv_purpose g, wg_provider = gv_provider g,
      wg_status = generationStatuses (gv_status g),
      wg_error = (case gv_error g of None \<Rightarrow> [] | Some t \<Rightarrow> t),
      wg_failure_class = generationFailures (gv_failure g),
      wg_attempts = map (\<lambda>a. (av_number a, av_response a)) (gv_attempts g),
      wg_created_at = gv_created_at g, wg_updated_at = gv_updated_at g,
      wg_settled_at = gv_settled_at g, wg_expires_at = gv_expires_at g\<rparr>"

section \<open>Submit\<close>

definition GrpcMaxReceiveBytes :: nat where "GrpcMaxReceiveBytes = PayloadSizeCeiling + 65536"

record wire_cap_window =
  ww_duration :: "wire_duration option"
  ww_input_tokens :: "int option"
  ww_output_tokens :: "int option"

record wire_caps =
  wc_concurrency :: "int option"
  wc_windows :: "wire_cap_window list"

record wire_submit =
  ws_owner_id :: string
  ws_purpose :: string
  ws_provider :: string
  ws_payload :: raw
  ws_variant :: "32 word"
  ws_stream :: bool
  ws_caps :: "wire_caps option"

record wire_submitted =
  wd_generation :: wire_generation
  wd_created :: bool

definition newCoreGenerationCaps :: "'p handler_library \<Rightarrow> wire_caps option \<Rightarrow> generation_caps option" where
  "newCoreGenerationCaps lib caps =
     (case caps of
        None \<Rightarrow> None
      | Some caps \<Rightarrow> Some
          \<lparr>caps_concurrency = wc_concurrency caps,
           caps_windows = map (\<lambda>win.
             \<lparr>win_duration = hl_as_duration lib (ww_duration win),
              win_input_tokens = ww_input_tokens win, win_output_tokens = ww_output_tokens win\<rparr>)
             (wc_windows caps)\<rparr>)"

definition newGrpcUsageCapStatus :: "'p handler_library \<Rightarrow> usage_cap_error \<Rightarrow> grpc_status" where
  "newGrpcUsageCapStatus lib refusal =
     (let details = QuotaFailure (cap_scope refusal) (cap_limit refusal) #
            (if cap_retry_after refusal > 0 then [RetryInfo (hl_duration lib (cap_retry_after refusal))] else []);
          answer = status_Error ResourceExhausted (err_text (UsageCap refusal))
      in case hl_with_details lib answer details of None \<Rightarrow> answer | Some detailed \<Rightarrow> detailed)"

definition submit_status :: "'p handler_library \<Rightarrow> goerr \<Rightarrow> grpc_status" where
  "submit_status lib err =
     (if err_is ErrInvalidRequest err then status_Error InvalidArgument (err_text err)
      else case as_usage_cap err of
        Some refusal \<Rightarrow> newGrpcUsageCapStatus lib refusal
      | None \<Rightarrow>
          if err_is ErrUsageCapReached err then status_Error ResourceExhausted (err_text err)
          else if err_is ErrModeUnsupported err then
            status_Error Unimplemented ''the provider does not support the requested mode''
          else hl_fault lib Internal ''internal error'' err)"

definition grpc_GenerationSubmit ::
  "'p handler_library \<Rightarrow> 'p generation_submit \<Rightarrow> uuid \<Rightarrow> string option \<Rightarrow> ctx \<Rightarrow> wire_submit \<Rightarrow>
   ('p, grpc_status + wire_submitted) process" where
  "grpc_GenerationSubmit lib service new_id traceparent ctx request =
     (case hl_parse lib (ws_owner_id request) of
        None \<Rightarrow> State_Monad.return (Inl (status_Error InvalidArgument ''invalid owner id''))
      | Some ownerID \<Rightarrow> do {
          res \<leftarrow> GenerationSubmit_Exec service new_id traceparent ctx
            \<lparr>sb_owner_id = ownerID, sb_purpose = ws_purpose request, sb_provider = ws_provider request,
             sb_payload = ws_payload request, sb_variant = ws_variant request,
             sb_stream = ws_stream request, sb_caps = newCoreGenerationCaps lib (ws_caps request)\<rparr>;
          State_Monad.return
            (case res of
               Inl err \<Rightarrow> Inl (submit_status lib err)
             | Inr result \<Rightarrow> Inr
                 \<lparr>wd_generation = NewGrpcGeneration (sd_generation result),
                  wd_created = sd_created result\<rparr>)
        })"

section \<open>Get and cancel\<close>

text \<open>Both identifiers of a request, the generation's first.\<close>

definition parse_ids :: "'p handler_library \<Rightarrow> string \<Rightarrow> string \<Rightarrow> grpc_status + uuid \<times> uuid" where
  "parse_ids lib generation owner =
     (case hl_parse lib generation of
        None \<Rightarrow> Inl (status_Error InvalidArgument ''invalid generation id'')
      | Some generationID \<Rightarrow>
          (case hl_parse lib owner of
             None \<Rightarrow> Inl (status_Error InvalidArgument ''invalid owner id'')
           | Some ownerID \<Rightarrow> Inr (generationID, ownerID)))"

definition read_status :: "'p handler_library \<Rightarrow> goerr \<Rightarrow> grpc_status" where
  "read_status lib err =
     (if err_is ErrGenerationGetNotFound err then status_Error NotFound ''generation not found''
      else if err_is ErrInvalidRequest err then status_Error InvalidArgument ''invalid request''
      else hl_fault lib Internal ''internal error'' err)"

definition grpc_GenerationGet ::
  "'p handler_library \<Rightarrow> 'p generation_check \<Rightarrow> ctx \<Rightarrow> string \<Rightarrow> string \<Rightarrow>
   ('p, grpc_status + wire_generation) process" where
  "grpc_GenerationGet lib service ctx generation owner =
     (case parse_ids lib generation owner of
        Inl answer \<Rightarrow> State_Monad.return (Inl answer)
      | Inr (generationID, ownerID) \<Rightarrow> do {
          res \<leftarrow> GenerationGet_Exec service ctx \<lparr>ggr_id = generationID, ggr_owner_id = ownerID\<rparr>;
          State_Monad.return
            (case res of Inl err \<Rightarrow> Inl (read_status lib err) | Inr g \<Rightarrow> Inr (NewGrpcGeneration g))
        })"

definition grpc_GenerationCancel ::
  "'p handler_library \<Rightarrow> 'p generation_check \<Rightarrow> duration \<Rightarrow> ctx \<Rightarrow> string \<Rightarrow> string \<Rightarrow>
   ('p, grpc_status + wire_generation) process" where
  "grpc_GenerationCancel lib service retention ctx generation owner =
     (case parse_ids lib generation owner of
        Inl answer \<Rightarrow> State_Monad.return (Inl answer)
      | Inr (generationID, ownerID) \<Rightarrow> do {
          res \<leftarrow> GenerationCancel_Exec service retention ctx
            \<lparr>gcr_id = generationID, gcr_owner_id = ownerID\<rparr>;
          State_Monad.return
            (case res of Inl err \<Rightarrow> Inl (read_status lib err) | Inr g \<Rightarrow> Inr (NewGrpcGeneration g))
        })"

section \<open>Stream\<close>

definition streamStatus :: "'p handler_library \<Rightarrow> sentinel option \<Rightarrow> goerr \<Rightarrow> grpc_status" where
  "streamStatus lib left err =
     (case left of
        Some cause \<Rightarrow> hl_from_context lib cause
      | None \<Rightarrow>
          if err_is ErrGenerationGetNotFound err then status_Error NotFound ''generation not found''
          else if err_is ErrInvalidRequest err then status_Error InvalidArgument ''invalid request''
          else if err_is ErrGenerationNotStreamed err then
            status_Error FailedPrecondition ''generation not submitted for streaming''
          else if err_is ErrStreamUnavailable err then
            status_Error FailedPrecondition ''the provider does not stream this generation now: poll it''
          else if err_is ErrModeUnsupported err then
            status_Error Unimplemented ''the provider does not support the Streaming mode''
          else if err_is ErrRetryable err then
            hl_fault lib Unavailable ''stream interrupted: resume after the last event received'' err
          else hl_fault lib Internal ''internal error'' err)"

text \<open>
  How a stream ends for the server: as it should, with a status, or with the transport's error once
  the caller left. \<open>send\<close> is what sending the n-th answer returns.
\<close>

datatype stream_end = Sent | Refused grpc_status | Broken goerr

fun send_events ::
  "'p handler_library \<Rightarrow> sentinel option \<Rightarrow> (nat \<Rightarrow> goerr option) \<Rightarrow> (goerr + int \<times> raw) list \<Rightarrow> nat \<Rightarrow>
   (int \<times> raw) list \<times> stream_end" where
  "send_events lib left send [] n = ([], Sent)"
| "send_events lib left send (Inl err # events) n = ([], Refused (streamStatus lib left err))"
| "send_events lib left send (Inr event # events) n =
     (case send n of
        Some err \<Rightarrow> ([], Broken err)
      | None \<Rightarrow> (let (sent, ended) = send_events lib left send events (Suc n) in (event # sent, ended)))"

definition context_error :: "ctx \<Rightarrow> time \<Rightarrow> sentinel option" where
  "context_error ctx now = (if over ctx now then Some ErrDeadlineExceeded else None)"

definition grpc_GenerationStream ::
  "'p handler_library \<Rightarrow> ('p, generation) registry \<Rightarrow> (nat \<Rightarrow> goerr option) \<Rightarrow> ctx \<Rightarrow> string \<Rightarrow> string \<Rightarrow>
   int option \<Rightarrow> ('p, (int \<times> raw) list \<times> stream_end) process" where
  "grpc_GenerationStream lib registry send ctx generation owner startingAfter =
     (case parse_ids lib generation owner of
        Inl answer \<Rightarrow> State_Monad.return ([], Refused answer)
      | Inr (generationID, ownerID) \<Rightarrow> do {
          res \<leftarrow> GenerationStream_Exec registry ctx
            \<lparr>gsr_id = generationID, gsr_owner_id = ownerID, gsr_starting_after = startingAfter\<rparr>;
          case res of
            Inl err \<Rightarrow> do {
              now \<leftarrow> time_Now;
              State_Monad.return ([], Refused (streamStatus lib (context_error ctx now) err))
            }
          | Inr events \<Rightarrow> do {
              events \<leftarrow> events;
              now \<leftarrow> time_Now;
              State_Monad.return (send_events lib (context_error ctx now) send events 0)
            }
        })"

section \<open>Usage and health\<close>

record wire_summary_window =
  wu_duration :: wire_duration
  wu_input_tokens :: int
  wu_output_tokens :: int

definition grpc_UsageSummary ::
  "'p handler_library \<Rightarrow> string list \<Rightarrow> ctx \<Rightarrow> string \<Rightarrow> string \<Rightarrow> wire_duration option list \<Rightarrow>
   ('p, grpc_status + int \<times> wire_summary_window list) process" where
  "grpc_UsageSummary lib purposes ctx owner purpose windows =
     (case hl_parse lib owner of
        None \<Rightarrow> State_Monad.return (Inl (status_Error InvalidArgument ''invalid owner id''))
      | Some ownerID \<Rightarrow> do {
          res \<leftarrow> UsageSummary_Exec purposes ctx
            \<lparr>usr_owner_id = ownerID, usr_purpose = purpose, usr_windows = map (hl_as_duration lib) windows\<rparr>;
          State_Monad.return
            (case res of
               Inl err \<Rightarrow> Inl
                 (if err_is ErrInvalidRequest err then status_Error InvalidArgument (err_text err)
                  else hl_fault lib Internal ''internal error'' err)
             | Inr s \<Rightarrow> Inr (uss_live s, map (\<lambda>win.
                 \<lparr>wu_duration = hl_duration lib (usw_duration win),
                  wu_input_tokens = usw_input_tokens win, wu_output_tokens = usw_output_tokens win\<rparr>)
                 (uss_windows s)))
        })"

text \<open>The answer reports PostgreSQL up, the only state it is given in, and the backlog.\<close>

definition grpc_Status ::
  "'p handler_library \<Rightarrow> ctx \<Rightarrow> ('p, grpc_status + int \<times> wire_duration) process" where
  "grpc_Status lib ctx = do {
     health \<leftarrow> hl_health lib ctx;
     case health of
       Some err \<Rightarrow> State_Monad.return (Inl (hl_fault lib Unavailable ''service dependencies unavailable'' err))
     | None \<Rightarrow> do {
         depth \<leftarrow> GenerationQueueDepth_Exec ctx;
         State_Monad.return
           (case depth of
              Inl err \<Rightarrow> Inl (hl_fault lib Unavailable ''service dependencies unavailable'' err)
            | Inr (pending, age) \<Rightarrow> Inr (pending, hl_duration lib age))
       }
   }"

text \<open>The liveness probe: its status, content type and body.\<close>

definition rest_Ping :: "int \<times> string \<times> string" where
  "rest_Ping = (200, ''text/plain'', ''pong'')"

datatype rest_health = RestHealthStatusUp | RestHealthStatusDown

definition NewRestHealthStatus :: "goerr option \<Rightarrow> rest_health" where
  "NewRestHealthStatus err = (if err = None then RestHealthStatusUp else RestHealthStatusDown)"

definition rest_Health :: "'p handler_library \<Rightarrow> ctx \<Rightarrow> ('p, int \<times> rest_health) process" where
  "rest_Health lib ctx = do {
     health \<leftarrow> hl_health lib ctx;
     State_Monad.return (if health = None then 200 else 503, NewRestHealthStatus health)
   }"

text \<open>A failed sweep goes to the library's error handler, which answers it.\<close>

definition rest_GenerationSweep ::
  "'p generation_sweep \<Rightarrow> time option \<Rightarrow> ctx \<Rightarrow> nat \<Rightarrow> ('p, goerr + int \<times> nat) process" where
  "rest_GenerationSweep service deadline ctx session = do {
     res \<leftarrow> GenerationSweep_Exec service deadline ctx session;
     State_Monad.return (case res of Inl err \<Rightarrow> Inl err | Inr checked \<Rightarrow> Inr (200, checked))
   }"

section \<open>The options of the gRPC server\<close>

text \<open>An interceptor of the service-token gate is the configuration its verifier checks tokens against.\<close>

datatype server_option =
    MaxRecvMsgSize nat
  | CallLimit int
  | WaitForHandlers bool
  | ChainUnaryInterceptor config_token
  | ChainStreamInterceptor config_token

definition GrpcServerOptions :: "int \<Rightarrow> server_option list" where
  "GrpcServerOptions callLimit = [MaxRecvMsgSize GrpcMaxReceiveBytes, CallLimit callLimit, WaitForHandlers True]"

section \<open>The service-token gate\<close>

definition GrpcServiceToken :: "config_token \<Rightarrow> bool \<Rightarrow> goerr + server_option list" where
  "GrpcServiceToken tokenConfig issuerOptional =
     (if ctk_issuer tokenConfig = [] then
        if issuerOptional then Inr [] else Inl (Sentinel ErrServiceTokenIssuerRequired)
      else Inr [ChainUnaryInterceptor tokenConfig, ChainStreamInterceptor tokenConfig])"

end
