(* ===== verification/OpenAI.thy ===== *)
theory OpenAI
  imports Complex_Main Connectors Format
begin

text \<open>
  \<^verbatim>\<open>internal/lib/connectors/openai.go\<close>: the connector to the Responses API.

  The HTTP exchange is the SDK's, and so is the decoding of the JSON bodies the standard
  library's: both are the fields of \<open>openai\<close>, arguments of every definition here. What the
  connector makes of their answers is the model: which request it sends, how it reads a response
  object, and what each failure means to the caller.
\<close>

section \<open>Requests\<close>

definition responsesPath :: string where "responsesPath = ''responses''"

definition readTimeout :: duration where "readTimeout = 10 * second"

definition ResponseSizeCeiling :: nat where "ResponseSizeCeiling = 25165824"

text \<open>
  \<open>url.PathEscape\<close>, byte by byte. A byte that may stand in a path segment is kept, any other
  is written \<^verbatim>\<open>%XX\<close>.
\<close>

definition path_safe :: "nat \<Rightarrow> bool" where
  "path_safe b \<longleftrightarrow>
     (0x30 \<le> b \<and> b \<le> 0x39) \<or> (0x41 \<le> b \<and> b \<le> 0x5A) \<or> (0x61 \<le> b \<and> b \<le> 0x7A) \<or>
     b \<in> set (map of_char ''-_.~$&+:=@'')"

definition upper_hex :: "nat \<Rightarrow> char" where
  "upper_hex n = ''0123456789ABCDEF'' ! n"

definition escape_byte :: "char \<Rightarrow> string" where
  "escape_byte c =
     (if path_safe (of_char c) then [c]
      else [CHR ''%'', upper_hex ((of_char c :: nat) div 16), upper_hex ((of_char c :: nat) mod 16)])"

definition PathEscape :: "string \<Rightarrow> string" where
  "PathEscape s = concat (map escape_byte s)"

definition callPath :: "string \<Rightarrow> string" where
  "callPath i = responsesPath @ ''/'' @ PathEscape i"

datatype http_method = MethodGet | MethodPost

record http_request =
  rq_method :: http_method
  rq_path :: string
  rq_query :: "(string \<times> string) list"
  rq_body :: "raw option"

definition post_request :: "string \<Rightarrow> raw option \<Rightarrow> http_request" where
  "post_request path body = \<lparr>rq_method = MethodPost, rq_path = path, rq_query = [], rq_body = body\<rparr>"

definition get_request :: "string \<Rightarrow> (string \<times> string) list \<Rightarrow> http_request" where
  "get_request path query = \<lparr>rq_method = MethodGet, rq_path = path, rq_query = query, rq_body = None\<rparr>"

definition streamOptions :: "int option \<Rightarrow> (string \<times> string) list" where
  "streamOptions startingAfter =
     (''stream'', ''true'') #
     (case startingAfter of None \<Rightarrow> [] | Some n \<Rightarrow> [(''starting_after'', itoa n)])"

section \<open>What the SDK and the JSON decoder answer\<close>

text \<open>
  The fields of a response object the connector reads, each at its zero value when the object has
  none. The times are fractional Unix seconds, read as the exact number the JSON holds.
\<close>

record openai_response =
  ors_id :: string
  ors_status :: string
  ors_error_code :: string
  ors_error_message :: string
  ors_model :: string
  ors_effort :: string
  ors_service_tier :: string
  ors_created_at :: rat
  ors_completed_at :: "rat option"
  ors_input_tokens :: int
  ors_cached_tokens :: int
  ors_cache_write_tokens :: int
  ors_output_tokens :: int
  ors_reasoning_tokens :: int
  ors_total_tokens :: "int option"

record event_head =
  eh_type :: string
  eh_sequence_number :: int

text \<open>
  An opened stream is what its decoder finds on it: each event after the wait for it, then what
  ended the stream, an error or none. A stream ends with its connection, so its events are finite.
\<close>

record 'p sse =
  sse_events :: "(('p, unit) process \<times> raw) list"
  sse_err :: "goerr option"

text \<open>
  \<open>oa_send\<close> is one request of the client, without retries: its answer is the body, or the SDK's
  error, with whether the request fully left. \<open>oa_open\<close> is the same for a streamed body. The
  others are \<open>json.Unmarshal\<close> into a response object, an event's head, the response an event
  carries (\<open>None\<close> when it does not decode) and a map of members (\<open>None\<close> for the JSON null),
  then the JSON encoder on a map and \<open>json.Valid\<close>.
\<close>

record 'p openai =
  oa_send :: "ctx \<Rightarrow> http_request \<Rightarrow> ('p, (goerr + raw) \<times> bool) process"
  oa_open :: "ctx \<Rightarrow> http_request \<Rightarrow> ('p, (goerr + 'p sse) \<times> bool) process"
  oa_response :: "raw \<Rightarrow> goerr + openai_response"
  oa_head :: "raw \<Rightarrow> goerr + event_head"
  oa_held :: "raw \<Rightarrow> raw option"
  oa_members :: "raw \<Rightarrow> goerr + (string \<rightharpoonup> raw) option"
  oa_encoder :: "(string \<rightharpoonup> raw) \<Rightarrow> goerr + raw"
  oa_valid :: "raw \<Rightarrow> bool"

definition NewOpenAI :: "string \<Rightarrow> string \<Rightarrow> 'p openai \<Rightarrow> goerr + 'p openai" where
  "NewOpenAI baseURL apiKey client =
     (if baseURL = [] \<or> apiKey = [] then Inl (Sentinel ErrNotConfigured) else Inr client)"

text \<open>\<open>http.MaxBytesReader\<close> fails a read past the ceiling.\<close>

definition capResponse :: "goerr + raw \<Rightarrow> goerr + raw" where
  "capResponse res =
     (case res of
        Inl err \<Rightarrow> Inl err
      | Inr body \<Rightarrow> if length body > ResponseSizeCeiling then Inl Oversized else Inr body)"

definition send_read :: "'p openai \<Rightarrow> ctx \<Rightarrow> http_request \<Rightarrow> ('p, goerr + raw) process" where
  "send_read client ctx rq = do {
     now \<leftarrow> time_Now;
     (res, sent) \<leftarrow> oa_send client (with_timeout ctx now readTimeout) rq;
     State_Monad.return (capResponse res)
   }"

section \<open>Bodies\<close>

definition encodeJSON :: "'p openai \<Rightarrow> (string \<rightharpoonup> raw) \<Rightarrow> goerr + raw" where
  "encodeJSON client value =
     (case oa_encoder client value of
        Inl err \<Rightarrow> Inl (Wrap ''encode'' err)
      | Inr bytes \<Rightarrow> Inr (TrimSuffix bytes [CHR 10]))"

definition asyncEnvelope :: "'p openai \<Rightarrow> raw \<Rightarrow> bool \<Rightarrow> goerr + raw" where
  "asyncEnvelope client payload stream =
     (case oa_members client payload of
        Inl err \<Rightarrow> Inl (Wrap ''decode payload'' err)
      | Inr None \<Rightarrow> Inl (Panic ''assignment to entry in nil map'')
      | Inr (Some members) \<Rightarrow>
          encodeJSON client (members(''background'' \<mapsto> ''true'',
            ''stream'' \<mapsto> (if stream then ''true'' else ''false''))))"

text \<open>The Unix epoch, counted as instants are from Go's zero time.\<close>

definition unixEpoch :: time where "unixEpoch = 62135596800 * second"

definition unixTime :: "rat \<Rightarrow> time" where
  "unixTime seconds =
     (let whole = (if seconds < 0 then \<lceil>seconds\<rceil> else \<lfloor>seconds\<rfloor>);
          nanos = (seconds - of_int whole) * of_int second
      in unixEpoch + whole * second + (if nanos < 0 then \<lceil>nanos\<rceil> else \<lfloor>nanos\<rfloor>))"

definition state_of_status :: "string \<Rightarrow> call_state" where
  "state_of_status status =
     (if status = ''completed'' \<or> status = ''incomplete'' then CallSucceeded
      else if status = ''failed'' then CallFailed
      else if status = ''cancelled'' then CallCancelled
      else if status = ''queued'' then CallQueued
      else CallRunning)"

definition providerCallOf :: "'p openai \<Rightarrow> raw \<Rightarrow> goerr + call" where
  "providerCallOf client body =
     (case oa_response client body of
        Inl err \<Rightarrow> Inl (Wrap ''decode response'' err)
      | Inr response \<Rightarrow>
          (let state = state_of_status (ors_status response);
               call = zero_call\<lparr>call_id := ors_id response, call_state := state,
                 call_reason := (if state = CallFailed then ors_error_message response else [])\<rparr>
           in if \<not> Terminal state then Inr call
              else Inr (call
                \<lparr>call_response := Some body,
                 call_model := ors_model response,
                 call_class := (if ors_effort response = [] then ''none'' else ors_effort response),
                 call_tier := ors_service_tier response,
                 call_started_at :=
                   (if ors_created_at response > 0 then unixTime (ors_created_at response) else 0),
                 call_completed_at :=
                   (case ors_completed_at response of
                      None \<Rightarrow> None
                    | Some seconds \<Rightarrow> if seconds > 0 then Some (unixTime seconds) else None),
                 call_usage :=
                   (if ors_total_tokens response = None then None
                    else Some
                      \<lparr>use_input_tokens = ors_input_tokens response,
                       use_cached_input_tokens = ors_cached_tokens response,
                       use_cache_write_tokens = ors_cache_write_tokens response,
                       use_output_tokens = ors_output_tokens response,
                       use_reasoning_tokens = ors_reasoning_tokens response\<rparr>)\<rparr>)))"

section \<open>What a failure means\<close>

definition withProviderMessage :: "goerr \<Rightarrow> api_error \<Rightarrow> goerr" where
  "withProviderMessage err apiErr =
     (if api_message apiErr = [] \<or> api_status apiErr = 401 then err
      else Annotate err (api_message apiErr))"

definition errorBody :: "'p openai \<Rightarrow> api_error \<Rightarrow> raw option" where
  "errorBody client apiErr =
     (if \<not> oa_valid client (api_raw apiErr) then None
      else case encodeJSON client [''error'' \<mapsto> api_raw apiErr] of
        Inl _ \<Rightarrow> None
      | Inr body \<Rightarrow> Some body)"

definition classifyOpenAIStartError :: "'p openai \<Rightarrow> goerr \<Rightarrow> bool \<Rightarrow> goerr" where
  "classifyOpenAIStartError client err sent =
     (case as_api err of
        None \<Rightarrow>
          if \<not> sent then Wrap2 (Sentinel ErrRetryable) err
          else Wrap2 (Sentinel ErrStartAmbiguous) err
      | Some apiErr \<Rightarrow>
          (let err = withProviderMessage err apiErr; status = api_status apiErr in
           if status = 429 \<and> api_code apiErr = ''insufficient_quota''
           then Rejection (errorBody client apiErr) err
           else if status = 429 \<or> status = 401 \<or> status = 409
           then Wrap2 (Sentinel ErrRetryable) err
           else if status = 408 \<or> status \<ge> 500
           then Wrap2 (Sentinel ErrStartAmbiguous) err
           else Rejection (errorBody client apiErr) err))"

definition classifyOpenAIError :: "goerr \<Rightarrow> goerr" where
  "classifyOpenAIError err =
     (if as_oversized err then Wrap2 (Sentinel ErrResponseTooLarge) err
      else case as_api err of
        None \<Rightarrow> Wrap2 (Sentinel ErrRetryable) err
      | Some apiErr \<Rightarrow>
          (let err = withProviderMessage err apiErr; status = api_status apiErr in
           if status = 429 \<or> status = 408 \<or> status = 401 \<or> status = 403 \<or> status \<ge> 500
           then Wrap2 (Sentinel ErrRetryable) err
           else Wrap ''provider rejected the request'' err))"

definition classifyOpenAIStreamError :: "goerr \<Rightarrow> goerr" where
  "classifyOpenAIStreamError err =
     (case as_api err of
        None \<Rightarrow> Wrap2 (Sentinel ErrRetryable) err
      | Some apiErr \<Rightarrow>
          (let err = withProviderMessage err apiErr; status = api_status apiErr in
           if status = 400 \<or> status = 404 then Wrap2 (Sentinel ErrStreamUnavailable) err
           else if status = 429 \<or> status \<ge> 500 then Wrap2 (Sentinel ErrRetryable) err
           else err))"

section \<open>The Async mode\<close>

text \<open>
  The events of a held stream, up to the one that says the provider began the operation. The first
  that names it goes to \<open>accepted\<close>, which the only caller of a start always sets.
\<close>

fun hold_events ::
  "'p openai \<Rightarrow> (call \<Rightarrow> ('p, goerr + 'r) process) \<Rightarrow> (('p, unit) process \<times> raw) list \<Rightarrow> call option \<Rightarrow>
   (goerr + 'r) option \<Rightarrow> ('p, (goerr + call option) \<times> (goerr + 'r) option) process" where
  "hold_events client accepted [] call answer = State_Monad.return (Inr call, answer)"
| "hold_events client accepted ((wait, data) # events) call answer = do {
     _ \<leftarrow> wait;
     case oa_held client data of
       None \<Rightarrow> hold_events client accepted events call answer
     | Some response \<Rightarrow>
         (case providerCallOf client response of
            Inl _ \<Rightarrow> hold_events client accepted events call answer
          | Inr current \<Rightarrow>
              if call_id current = [] then hold_events client accepted events call answer
              else if call = None then do {
                given \<leftarrow> accepted current;
                case given of
                  Inl err \<Rightarrow> State_Monad.return (Inl err, Some given)
                | Inr _ \<Rightarrow>
                    if call_state current \<noteq> CallQueued
                    then State_Monad.return (Inr (Some current), Some given)
                    else hold_events client accepted events (Some current) (Some given)
              }
              else if call_state current \<noteq> CallQueued
              then State_Monad.return (Inr (Some current), answer)
              else hold_events client accepted events (Some current) answer)
   }"

definition holdStream ::
  "'p openai \<Rightarrow> ctx \<Rightarrow> raw \<Rightarrow> (call \<Rightarrow> ('p, goerr + 'r) process) \<Rightarrow>
   ('p, (goerr + call) \<times> (goerr + 'r) option) process" where
  "holdStream client ctx body accepted = do {
     (opened, sent) \<leftarrow> oa_open client ctx (post_request responsesPath (Some body));
     case opened of
       Inl err \<Rightarrow> State_Monad.return (Inl (classifyOpenAIStartError client err sent), None)
     | Inr stream \<Rightarrow> do {
         (held, answer) \<leftarrow> hold_events client accepted (sse_events stream) None None;
         State_Monad.return
           (case held of
              Inl err \<Rightarrow> (Inl err, answer)
            | Inr None \<Rightarrow>
                (Inl (Annotate (Sentinel ErrStartAmbiguous) ''the stream ended before the operation's id''), answer)
            | Inr (Some call) \<Rightarrow> (Inr call, answer))
       }
   }"

definition started_call :: "'p openai \<Rightarrow> (goerr + raw) \<times> bool \<Rightarrow> goerr + call" where
  "started_call client answer =
     (case capResponse (fst answer) of
        Inl err \<Rightarrow> Inl (classifyOpenAIStartError client err (snd answer))
      | Inr body \<Rightarrow>
          (case providerCallOf client body of
             Inl err \<Rightarrow> Inl (Wrap2 (Sentinel ErrStartAmbiguous) err)
           | Inr call \<Rightarrow>
               if call_id call = [] then
                 Inl (Annotate (Sentinel ErrStartAmbiguous) ''the response names no operation'')
               else Inr call))"

text \<open>A panic is not an error to wrap.\<close>

fun envelope_error :: "goerr \<Rightarrow> goerr" where
  "envelope_error (Panic t) = Panic t"
| "envelope_error err = Wrap ''write async envelope'' err"

definition OpenAI_Start ::
  "'p openai \<Rightarrow> ctx \<Rightarrow> raw \<Rightarrow> bool \<Rightarrow> (call \<Rightarrow> ('p, goerr + 'r) process) \<Rightarrow>
   ('p, (goerr + call) \<times> (goerr + 'r) option) process" where
  "OpenAI_Start client ctx payload stream accepted =
     (case asyncEnvelope client payload stream of
        Inl err \<Rightarrow> State_Monad.return (Inl (envelope_error err), None)
      | Inr body \<Rightarrow>
          if stream then holdStream client ctx body accepted
          else do {
            answer \<leftarrow> oa_send client ctx (post_request responsesPath (Some body));
            State_Monad.return (started_call client answer, None)
          })"

text \<open>The answer to a read or a cancel, which the next check may ask for again.\<close>

definition read_call :: "'p openai \<Rightarrow> goerr + raw \<Rightarrow> goerr + call" where
  "read_call client res =
     (case res of
        Inl err \<Rightarrow> Inl (classifyOpenAIError err)
      | Inr body \<Rightarrow>
          (case providerCallOf client body of
             Inl err \<Rightarrow> Inl (Wrap2 (Sentinel ErrRetryable) err)
           | Inr call \<Rightarrow> Inr call))"

definition OpenAI_Get :: "'p openai \<Rightarrow> ctx \<Rightarrow> string \<Rightarrow> ('p, goerr + call) process" where
  "OpenAI_Get client ctx i = do {
     res \<leftarrow> send_read client ctx (get_request (callPath i) []);
     State_Monad.return (read_call client res)
   }"

definition OpenAI_Cancel :: "'p openai \<Rightarrow> ctx \<Rightarrow> string \<Rightarrow> ('p, goerr + call) process" where
  "OpenAI_Cancel client ctx i = do {
     res \<leftarrow> send_read client ctx (post_request (callPath i @ ''/cancel'') None);
     case res of
       Inl err \<Rightarrow>
         (case as_api err of
            None \<Rightarrow> State_Monad.return (Inl (classifyOpenAIError err))
          | Some apiErr \<Rightarrow>
              if api_status apiErr = 400 then OpenAI_Get client ctx i
              else State_Monad.return (Inl (classifyOpenAIError err)))
     | Inr _ \<Rightarrow> State_Monad.return (read_call client res)
   }"

section \<open>The Streaming mode\<close>

definition terminalEvents :: "string list" where
  "terminalEvents = [''response.completed'', ''response.failed'', ''response.incomplete'', ''error'']"

definition streamEventOf :: "'p openai \<Rightarrow> raw \<Rightarrow> goerr + stream_event" where
  "streamEventOf client data =
     (case oa_head client data of
        Inl err \<Rightarrow> Inl (Wrap ''decode event'' err)
      | Inr head \<Rightarrow>
          Inr \<lparr>ev_sequence = eh_sequence_number head, ev_data = data,
               ev_terminal = (eh_type head \<in> set terminalEvents)\<rparr>)"

text \<open>What cut a stream before its terminal event.\<close>

definition cut_stream :: "goerr option \<Rightarrow> (goerr + stream_event) list" where
  "cut_stream ended =
     (case ended of
        None \<Rightarrow> []
      | Some err \<Rightarrow>
          if err_is ErrTooLong err then [Inl (Wrap2 (Sentinel ErrStreamUnavailable) err)]
          else [Inl (Wrap2 (Sentinel ErrRetryable) err)])"

fun yieldEvents ::
  "'p openai \<Rightarrow> (('p, unit) process \<times> raw) list \<Rightarrow> goerr option \<Rightarrow>
   ('p, (goerr + stream_event) list) process" where
  "yieldEvents client [] ended = State_Monad.return (cut_stream ended)"
| "yieldEvents client ((wait, data) # events) ended = do {
     _ \<leftarrow> wait;
     case streamEventOf client data of
       Inl err \<Rightarrow> State_Monad.return [Inl err]
     | Inr event \<Rightarrow>
         if ev_terminal event then State_Monad.return [Inr event]
         else do {
           later \<leftarrow> yieldEvents client events ended;
           State_Monad.return (Inr event # later)
         }
   }"

definition OpenAI_Stream :: "'p openai \<Rightarrow> 'p streaming" where
  "OpenAI_Stream client ctx i startingAfter = do {
     (opened, sent) \<leftarrow> oa_open client ctx (get_request (callPath i) (streamOptions startingAfter));
     case opened of
       Inl err \<Rightarrow> State_Monad.return [Inl (classifyOpenAIStreamError err)]
     | Inr stream \<Rightarrow> yieldEvents client (sse_events stream) (sse_err stream)
   }"

section \<open>The registry\<close>

definition OpenAI_async :: "'p openai \<Rightarrow> ('p, 'r) async" where
  "OpenAI_async client =
     \<lparr>as_start = OpenAI_Start client, as_get = OpenAI_Get client, as_cancel = OpenAI_Cancel client\<rparr>"

definition OpenAI_connector :: "'p openai \<Rightarrow> ('p, 'r) connector" where
  "OpenAI_connector client =
     \<lparr>con_async = Some (OpenAI_async client),
      con_streaming = Some (OpenAI_Stream client)\<rparr>"

definition NewRegistry :: "string \<Rightarrow> string \<Rightarrow> 'p openai \<Rightarrow> goerr + ('p, 'r) registry" where
  "NewRegistry baseURL apiKey client =
     (case NewOpenAI baseURL apiKey client of
        Inl err \<Rightarrow> Inl (Wrap ''openai'' err)
      | Inr connector \<Rightarrow> Inr [''openai'' \<mapsto> OpenAI_connector connector])"

end
