(* ===== verification/Wiring.thy ===== *)
theory Wiring
  imports Handlers OpenAI
begin

text \<open>
  \<^verbatim>\<open>cmd/grpc\<close> and \<^verbatim>\<open>cmd/sweep\<close>: how the two servers are put together from their
  configuration, and what they run. Spans, signals, listening and the graceful stop are the
  libraries' and are left out. The OpenAI transport, the transactor, the digest and the JSON
  functions are arguments, as are \<open>started\<close>, which says whether a planned downtime has begun, what the
  libraries a start goes through return, and \<open>admits\<close>, which says whether the gRPC library, built with the
  server's options, lets a call through to its handler.

  A transactor is one Go value used at two result types: here two arguments.
\<close>

section \<open>The gRPC server\<close>

text \<open>
  What the library builds the server from: when a planned downtime starts, whether the context whose
  database each call is given has one, and the options.
\<close>

record grpc_transport =
  tr_downtime :: "time option"
  tr_database :: bool
  tr_options :: "server_option list"

record 'p grpc_server =
  sv_transport :: grpc_transport
  sv_registry :: "('p, generation) registry"
  sv_check :: "'p generation_check"
  sv_submit :: "'p generation_submit"
  sv_retention :: duration
  sv_purposes :: "string list"

definition newServer :: "bool \<Rightarrow> config_app \<Rightarrow> int \<Rightarrow> goerr + grpc_transport" where
  "newServer database cfg callLimit =
     (case GrpcServiceToken (app_service_token cfg) (app_issuer_optional cfg) of
        Inl err \<Rightarrow> Inl (Wrap ''service token gate'' err)
      | Inr serviceToken \<Rightarrow> Inr
          \<lparr>tr_downtime = app_downtime_start cfg, tr_database = database,
           tr_options = GrpcServerOptions callLimit @ serviceToken\<rparr>)"

definition wire_check ::
  "config_app \<Rightarrow> ('p, generation) registry \<Rightarrow> ('p, generation option) transactor \<Rightarrow> 'p generation_check" where
  "wire_check cfg registry tx =
     \<lparr>gc_registry = registry, gc_transactor = tx, gc_retention = app_retention cfg\<rparr>"

text \<open>
  What the code takes from libraries to serve a submit: the transactor at both types, the digest,
  the JSON functions and the check that a payload is an I-JSON object. And what a start goes through:
  whether a downtime has started, and what \<open>otel.Init\<close>, \<open>postgres.NewContext\<close> and the opening of
  the database return.
\<close>

record 'p libraries =
  lb_client :: "'p openai"
  lb_transactor :: "('p, generation option) transactor"
  lb_submit_transactor :: "('p, submit_vars) transactor"
  lb_sha256 :: "byte list \<Rightarrow> byte list"
  lb_json :: payload_json
  lb_ijson_object :: "raw \<Rightarrow> bool"
  lb_started :: "time option \<Rightarrow> time \<Rightarrow> bool"
  lb_otel_Init :: "config_otel \<Rightarrow> goerr option"
  lb_NewContext :: "goerr option"
  lb_DB :: "goerr option"

definition wire_submit_service ::
  "'p libraries \<Rightarrow> config_app \<Rightarrow> ('p, generation) registry \<Rightarrow> 'p generation_submit" where
  "wire_submit_service lb cfg registry =
     \<lparr>gs_check = wire_check cfg registry (lb_transactor lb), gs_registry = registry,
      gs_transactor = lb_submit_transactor lb, gs_purposes = app_purposes cfg,
      gs_sha256 = lb_sha256 lb, gs_json = lb_json lb, gs_ijson_object = lb_ijson_object lb\<rparr>"

text \<open>The registry both servers run on.\<close>

definition wire_registry :: "'p libraries \<Rightarrow> config_app \<Rightarrow> goerr + ('p, generation) registry" where
  "wire_registry lb cfg =
     NewRegistry (coa_base_url (app_openai cfg)) (coa_api_key (app_openai cfg)) (lb_client lb)"

text \<open>A server started during a planned downtime opens no connection.\<close>

definition opens_database :: "(time option \<Rightarrow> time \<Rightarrow> bool) \<Rightarrow> config_app \<Rightarrow> time \<Rightarrow> bool" where
  "opens_database started cfg now \<longleftrightarrow> \<not> started (app_downtime_start cfg) now"

text \<open>
  The first steps of both servers, at their start: whether the context they go on with has a database.
  Any failure panics, and the process ends: \<open>Inl\<close>.
\<close>

definition main_context :: "'p libraries \<Rightarrow> config_app \<Rightarrow> time \<Rightarrow> goerr + bool" where
  "main_context lb cfg now =
     (case app_Validate cfg of
        Some err \<Rightarrow> Inl err
      | None \<Rightarrow>
          (case lb_otel_Init lb (app_otel cfg) of
             Some err \<Rightarrow> Inl err
           | None \<Rightarrow>
               if opens_database (lb_started lb) cfg now then
                 (case lb_NewContext lb of
                    Some err \<Rightarrow> Inl err
                  | None \<Rightarrow> (case lb_DB lb of Some err \<Rightarrow> Inl err | None \<Rightarrow> Inr True))
               else Inr False))"

definition grpc_main :: "'p libraries \<Rightarrow> config_app \<Rightarrow> time \<Rightarrow> goerr + 'p grpc_server" where
  "grpc_main lb cfg now =
     (case main_context lb cfg now of
        Inl err \<Rightarrow> Inl err
      | Inr database \<Rightarrow>
          (case wire_registry lb cfg of
             Inl err \<Rightarrow> Inl err
           | Inr registry \<Rightarrow>
               (case newServer database cfg (rs_max_calls (app_grpc cfg)) of
                  Inl err \<Rightarrow> Inl err
                | Inr transport \<Rightarrow> Inr
                    \<lparr>sv_transport = transport, sv_registry = registry,
                     sv_check = wire_check cfg registry (lb_transactor lb),
                     sv_submit = wire_submit_service lb cfg registry,
                     sv_retention = app_retention cfg, sv_purposes = app_purposes cfg\<rparr>)))"

section \<open>The sweep server\<close>

definition sweep_main :: "'p libraries \<Rightarrow> config_app \<Rightarrow> time \<Rightarrow> goerr + 'p generation_sweep" where
  "sweep_main lb cfg now =
     (case main_context lb cfg now of
        Inl err \<Rightarrow> Inl err
      | Inr database \<Rightarrow>
          (case wire_registry lb cfg of
             Inl err \<Rightarrow> Inl err
           | Inr registry \<Rightarrow> Inr
               \<lparr>gw_check = wire_check cfg registry (lb_transactor lb),
                gw_batch_size = nat (csw_batch_size (app_sweep cfg))\<rparr>))"

text \<open>The run the ticker repeats: it asks for no immediate rerun.\<close>

definition sweepRun ::
  "(time option \<Rightarrow> time \<Rightarrow> bool) \<Rightarrow> 'p generation_sweep \<Rightarrow> time option \<Rightarrow> time option \<Rightarrow> ctx \<Rightarrow> nat \<Rightarrow>
   ('p, bool \<times> goerr option) process" where
  "sweepRun started service downtimeStart deadline ctx session = do {
     now \<leftarrow> time_Now;
     if started downtimeStart now then State_Monad.return (False, None)
     else do {
       res \<leftarrow> GenerationSweep_Exec service deadline ctx session;
       State_Monad.return (False, case res of Inl err \<Rightarrow> Some err | Inr _ \<Rightarrow> None)
     }
   }"

text \<open>
  The routes of the sweep server, behind the library's router. What ends a sweep as the server stops is
  its context, \<open>ctx\<close>.
\<close>

datatype sweep_route = RouteMissing | RoutePing | RouteHealth | RouteSweep

definition sweep_routes :: "string \<Rightarrow> string \<Rightarrow> sweep_route" where
  "sweep_routes method path =
     (if method = ''GET'' \<and> path = ''/ping'' then RoutePing
      else if method = ''GET'' \<and> path = ''/healthcheck'' then RouteHealth
      else if method = ''POST'' \<and> path = ''/sweep'' then RouteSweep
      else RouteMissing)"

datatype sweep_answer =
    AnswerMissing
  | AnswerPing "int \<times> string \<times> string"
  | AnswerHealth "int \<times> rest_health"
  | AnswerSweep "goerr + int \<times> nat"

definition sweep_serve ::
  "'p handler_library \<Rightarrow> 'p generation_sweep \<Rightarrow> time option \<Rightarrow> ctx \<Rightarrow> nat \<Rightarrow> string \<Rightarrow> string \<Rightarrow>
   ('p, sweep_answer) process" where
  "sweep_serve lib service deadline ctx session method path =
     (case sweep_routes method path of
        RouteMissing \<Rightarrow> State_Monad.return AnswerMissing
      | RoutePing \<Rightarrow> State_Monad.return (AnswerPing rest_Ping)
      | RouteHealth \<Rightarrow> do { answer \<leftarrow> rest_Health lib ctx; State_Monad.return (AnswerHealth answer) }
      | RouteSweep \<Rightarrow> do {
          answer \<leftarrow> rest_GenerationSweep service deadline ctx session;
          State_Monad.return (AnswerSweep answer)
        })"

section \<open>Serving\<close>

text \<open>
  A call of each RPC, with its context and what the environment gives it: the identifier minted for
  a submit and its trace, and what sending an event returns. What a call answers goes to its caller.
\<close>

datatype rpc =
    RpcSubmit uuid "string option" ctx wire_submit
  | RpcGet ctx string string
  | RpcCancel ctx string string
  | RpcStream ctx string string "int option" "nat \<Rightarrow> goerr option"
  | RpcSummary ctx string string "wire_duration option list"
  | RpcStatus ctx

text \<open>What the handler of a call does.\<close>

fun rpc_handler :: "'p handler_library \<Rightarrow> 'p grpc_server \<Rightarrow> rpc \<Rightarrow> ('p, unit) process" where
  "rpc_handler lib server (RpcSubmit new_id traceparent ctx request) =
     do { _ \<leftarrow> grpc_GenerationSubmit lib (sv_submit server) new_id traceparent ctx request; State_Monad.return () }"
| "rpc_handler lib server (RpcGet ctx generation owner) =
     do { _ \<leftarrow> grpc_GenerationGet lib (sv_check server) ctx generation owner; State_Monad.return () }"
| "rpc_handler lib server (RpcCancel ctx generation owner) =
     do { _ \<leftarrow> grpc_GenerationCancel lib (sv_check server) (sv_retention server) ctx generation owner;
          State_Monad.return () }"
| "rpc_handler lib server (RpcStream ctx generation owner cursor send) =
     do { _ \<leftarrow> grpc_GenerationStream lib (sv_registry server) send ctx generation owner cursor;
          State_Monad.return () }"
| "rpc_handler lib server (RpcSummary ctx owner purpose windows) =
     do { _ \<leftarrow> grpc_UsageSummary lib (sv_purposes server) ctx owner purpose windows; State_Monad.return () }"
| "rpc_handler lib server (RpcStatus ctx) = do { _ \<leftarrow> grpc_Status lib ctx; State_Monad.return () }"

text \<open>
  A call as it reaches the server: the service token of its metadata, the size of its message, and
  how many calls run when it comes. Whether its handler runs is the library's to say, from the
  transport \<open>newServer\<close> built and the instant: \<open>admits\<close>.
\<close>

record incoming =
  in_token :: "string option"
  in_bytes :: nat
  in_flight :: nat
  in_rpc :: rpc

fun streaming_rpc :: "rpc \<Rightarrow> bool" where
  "streaming_rpc (RpcStream ctx generation owner cursor send) = True"
| "streaming_rpc call = False"

type_synonym admission = "grpc_transport \<Rightarrow> time \<Rightarrow> incoming \<Rightarrow> bool"

text \<open>The answer says whether the call reached its handler.\<close>

definition serve ::
  "admission \<Rightarrow> 'p handler_library \<Rightarrow> 'p grpc_server \<Rightarrow> incoming \<Rightarrow> ('p, bool) process" where
  "serve admits lib server call = do {
     now \<leftarrow> time_Now;
     if admits (sv_transport server) now call then do {
       _ \<leftarrow> rpc_handler lib server (in_rpc call);
       State_Monad.return True
     }
     else State_Monad.return False
   }"

fun serve_all ::
  "admission \<Rightarrow> 'p handler_library \<Rightarrow> 'p grpc_server \<Rightarrow> incoming list \<Rightarrow> ('p, unit) process" where
  "serve_all admits lib server [] = State_Monad.return ()"
| "serve_all admits lib server (call # calls) =
     do { _ \<leftarrow> serve admits lib server call; serve_all admits lib server calls }"

end
