(* ===== verification/Check_Properties.thy ===== *)
theory Check_Properties
  imports Check_Answers
begin

text \<open>
  What the check of \<open>Check\<close> is proved to do, on a wired service: its guarantees over every
  schedule, its outcomes, its provider calls and its timing.
\<close>

section \<open>Properties\<close>

definition sample_call :: call where
  "sample_call = zero_call
     \<lparr>call_id := ''resp_1'', call_state := CallSucceeded, call_response := Some ''{}'',
      call_usage := Some \<lparr>use_input_tokens = 3, use_cached_input_tokens = 1,
        use_cache_write_tokens = 0, use_output_tokens = 5, use_reasoning_tokens = 2\<rparr>,
      call_model := ''gpt'', call_class := ''none''\<rparr>"

definition sample_connector :: "(unit, generation) connector" where
  "sample_connector =
     \<lparr>con_async = Some (canned_async (Inr (zero_call\<lparr>call_id := ''resp_1''\<rparr>)) (Inr sample_call)
        (Inr sample_call)), con_streaming = None\<rparr>"

definition sample_service :: "unit generation_check" where
  "sample_service =
     \<lparr>gc_registry = [''openai'' \<mapsto> sample_connector], gc_transactor = pg_transactor,
      gc_retention = 1000\<rparr>"

definition sample_world :: "database \<Rightarrow> unit world" where
  "sample_world db =
     \<lparr>w_db = db, w_tx = None, w_db_clock = 20, w_clock = 20, w_sched = [], w_prov = (),
      w_log = [], w_trace = []\<rparr>"

lemma sample_registry: "gc_registry sample_service = [''openai'' \<mapsto> sample_connector]"
  by (simp add: sample_service_def)

lemma sample_mode: "con_async sample_connector =
    Some (canned_async (Inr (zero_call\<lparr>call_id := ''resp_1''\<rparr>)) (Inr sample_call) (Inr sample_call))"
  by (simp add: sample_connector_def)

lemma sample_trace: "w_trace (sample_world db) = []"
  by (simp add: sample_world_def)

lemma sample_lawful: "lawful (gc_registry sample_service)"
  unfolding lawful_def
proof (intro allI impI)
  fix p c a
  assume "gc_registry sample_service p = Some c" and "con_async c = Some a"
  then have "c = sample_connector" by (cases "p = ''openai''") (simp_all add: sample_registry)
  with \<open>con_async c = Some a\<close> have
    "a = canned_async (Inr (zero_call\<lparr>call_id := ''resp_1''\<rparr>)) (Inr sample_call) (Inr sample_call)"
    by (simp add: sample_mode)
  then show "async_provider a" by (simp add: canned.async_provider_axioms)
qed

lemma sample_transactor: "transactor (gc_transactor sample_service)"
  using pg.transactor_axioms by (simp add: sample_service_def)

interpretation sample_checks: check_service sample_service
  by (rule check_service.intro [OF sample_lawful sample_transactor])

text \<open>Whatever other processes do around it and whichever statements fail, a check moves the
  tables only along the program's transactions, so it keeps their invariant.\<close>

theorem check_keeps_invariant:
  assumes "lawful (gc_registry service)" and "transactor (gc_transactor service)"
    and "run_state (GenerationCheck_Exec service request) w = (r, w')"
    and "w_tx w = None" and "db_inv (w_db w)"
  shows "db_run (w_db_clock w) (w_db w) (w_db_clock w') (w_db w') \<and> db_inv (w_db w')"
proof -
  note check_service.check_moves [OF check_service.intro [OF assms(1,2)]]
  from this assms(3) have "top_run w w'" by (blast dest: state_io_relD)
  with assms(4) have "world_run w w'" by (simp add: top_run_def)
  with world_run_inv [OF this assms(4,5)] assms(4) show ?thesis by (simp add: world_run_def)
qed

theorem check_keeps_invariant_witness:
  "db_inv (w_db (snd (run_state (GenerationCheck_Exec sample_service
     \<lparr>cr_generation = (new_row 10 sample_request)\<lparr>gen_read_at := 20\<rparr>,
      cr_start = Some \<lparr>cs_payload = ''{}'', cs_intent_at = 15\<rparr>\<rparr>) (sample_world sample_db))))"
  using check_keeps_invariant [OF sample_lawful sample_transactor prod.collapse [symmetric],
      where w = "sample_world sample_db"] sample_db_inv
  by (simp add: sample_world_def)

text \<open>C1: A check sends the provider at most one start, and only when its submit handed it the
  payload of a generation with a start and no call yet: a poll, a cancel or a sweep never starts a
  call.\<close>

theorem check_sends_one_start:
  assumes "lawful (gc_registry service)" and "transactor (gc_transactor service)"
    and "run_state (GenerationCheck_Exec service request) w = (r, w')" and "w_tx w = None"
  shows "filter is_start (w_trace w') = filter is_start (w_trace w) \<or>
         (\<exists>start. sends_start request \<and> cr_start request = Some start \<and>
            filter is_start (w_trace w') = filter is_start (w_trace w) @
              [ActStart (cs_payload start) (gen_streamed (cr_generation request))])"
  by (rule check_service.exec_starts [OF check_service.intro [OF assms(1,2)] assms(3,4)])

theorem check_sends_one_start_witness:
  "filter is_start (w_trace (snd (run_state (GenerationCheck_Exec sample_service
     \<lparr>cr_generation = (new_row 10 sample_request)\<lparr>gen_read_at := 20\<rparr>, cr_start = None\<rparr>)
     (sample_world sample_db)))) = []"
  using check_sends_one_start [OF sample_lawful sample_transactor prod.collapse [symmetric],
      where w = "sample_world sample_db"]
  by (fastforce simp: sample_world_def)

text \<open>C23: A commit settles the generation, records the provider's answer and records what the call
  consumed together, or changes nothing: the tables after it are those the transaction began on,
  or those one settle transaction made of them, and only then does it answer the settled row.\<close>

theorem commit_is_atomic:
  assumes "lawful (gc_registry service)" and "transactor (gc_transactor service)"
    and "run_state (check_commit service ctx g status message failure call) w = (res, w')"
    and "w_tx w = None"
  shows "(w_db w' = w_db (begun w) \<and> (\<nexists>x. res = Inr x)) \<or>
         (\<exists>settled t1 t2 t3.
            settle_transaction t1 t2 t3
              (commit_request (gc_retention service) g status message failure)
              (call_response call) (usage_record g call) (w_db (begun w)) = (Inr settled, w_db w') \<and>
            (\<forall>x. res = Inr x \<longrightarrow> x = settled))"
proof (rule check_service.commit_cases [OF check_service.intro [OF assms(1,2)] assms(3,4)])
qed blast+

theorem commit_is_atomic_witness:
  "\<exists>settled t1 t2 t3.
     settle_transaction t1 t2 t3
       (commit_request 1000 (new_row 10 sample_request) Succeeded None None)
       (Some ''{}'') None (w_db (begun (sample_world sample_db))) =
       (Inr settled, w_db (snd (run_state (check_commit sample_service None
          (new_row 10 sample_request) Succeeded None None
          (zero_call\<lparr>call_response := Some ''{}''\<rparr>)) (sample_world sample_db))))"
proof -
  let ?run = "run_state (check_commit sample_service None (new_row 10 sample_request) Succeeded
    None None (zero_call\<lparr>call_response := Some ''{}''\<rparr>)) (sample_world sample_db)"
  have "\<not> isl (fst ?run)" by code_simp
  then have "\<exists>x. fst ?run = Inr x" by (cases "fst ?run") simp_all
  then show ?thesis
    using commit_is_atomic [OF sample_lawful sample_transactor prod.collapse [symmetric],
        where w = "sample_world sample_db" and g = "new_row 10 sample_request" and status = Succeeded
          and message = None and failure = None and ctx = None
          and call = "zero_call\<lparr>call_response := Some ''{}''\<rparr>"]
    by (auto simp: sample_world_def sample_service_def zero_call_def)
qed

text \<open>The Usage Record a call asks for, field by field: what ran, for whom, what each count of tokens
  was, and when, by the provider's clock where it reports a start.\<close>

definition records_usage :: "generation \<Rightarrow> call \<Rightarrow> token_usage \<Rightarrow> generation_usage \<Rightarrow> bool" where
  "records_usage g call used row \<longleftrightarrow>
     usg_generation_id row = gen_id g \<and> usg_attempt row = 1 \<and>
     usg_owner_id row = gen_owner_id g \<and> usg_purpose row = gen_purpose g \<and> usg_provider row = gen_provider g \<and>
     usg_model row = call_model call \<and> usg_class row = call_class call \<and>
     (call_tier call = [] \<longrightarrow> usg_tier row = None) \<and>
     (call_tier call \<noteq> [] \<longrightarrow> usg_tier row = Some (call_tier call)) \<and>
     usg_input_tokens row = use_input_tokens used \<and>
     usg_cached_input_tokens row = use_cached_input_tokens used \<and>
     usg_cache_write_tokens row = use_cache_write_tokens used \<and>
     usg_output_tokens row = use_output_tokens used \<and>
     usg_reasoning_tokens row = use_reasoning_tokens used \<and>
     (call_started_at call \<noteq> 0 \<longrightarrow> usg_started_at row = call_started_at call) \<and>
     (call_started_at call = 0 \<longrightarrow>
        (\<forall>start. gen_start_requested_at g = Some start \<longrightarrow> usg_started_at row = start)) \<and>
     usg_completed_at row = call_completed_at call"

definition metered :: "database \<Rightarrow> uuid \<Rightarrow> bool" where
  "metered db i \<longleftrightarrow> (\<exists>u \<in> set (usages db). usg_generation_id u = i \<and> usg_attempt u = 1)"

text \<open>A settle appends the record of its call, unless one is there already, and no other.\<close>

lemma settle_transaction_usage:
  assumes "settle_transaction t1 t2 t3 r response (usage_record g call) db = (Inr settled, db')"
  shows "(call_usage call = None \<or> metered db (gen_id g) \<longrightarrow> usages db' = usages db) \<and>
         (\<forall>used. call_usage call = Some used \<and> \<not> metered db (gen_id g) \<longrightarrow>
            (\<exists>row. usages db' = usages db @ [row] \<and> records_usage g call used row))"
  using assms
proof (cases rule: settle_transaction_cases)
  case (1 db1 db2)
  have "usages db1 = usages db"
    using 1(1) by (auto simp: sql_settle_def update_generation_def split: option.splits if_splits)
  with 1(2) have same: "usages db2 = usages db" by (auto dest!: attempt_insert_row)
  from 1(3) show ?thesis
  proof (elim disjE conjE exE)
    assume "usage_record g call = None" "db' = db2"
    then show ?thesis using same by auto
  next
    fix u assume u: "usage_record g call = Some u" "sql_usage_insert t3 u db2 = (Inl (Sentinel ErrNoRows), db2)" "db' = db2"
    then have "metered db (gen_id g)"
      using same by (auto simp: sql_usage_insert_def usage_of_def metered_def Let_def split: if_splits)
    then show ?thesis using same u(3) by simp
  next
    fix u v assume u: "usage_record g call = Some u" "sql_usage_insert t3 u db2 = (Inr v, db')"
    from usage_insert_row [OF u(2)] u(1) same show ?thesis
      by (force simp: records_usage_def usage_of_def metered_def)
  qed
qed

text \<open>C24: A check that answers the settle of a provider's call leaves the row in the outcome the
  provider reported: succeeded when it succeeded, cancelled only when it was cancelled and the
  owner had asked, failed as the provider's otherwise. The provider's answer is recorded with it.
  The Usage Record is the one the provider reported, every count in its own field, added to the
  records the transaction found, once: a generation metered already is not metered again.\<close>

theorem settle_records_outcome:
  assumes "lawful (gc_registry service)" and "transactor (gc_transactor service)"
    and "run_state (check_settle service ctx g call) w = (Inr settled, w')"
    and "w_tx w = None" and "db_inv (w_db w)"
  shows "(\<exists>row. find_row (w_db w') (gen_id g) = Some row \<and>
           gen_status settled = gen_status row \<and>
           (gen_status row = Succeeded \<longleftrightarrow> call_state call = CallSucceeded) \<and>
           (gen_status row = Cancelled \<longleftrightarrow>
              call_state call = CallCancelled \<and> gen_cancel_requested_at g \<noteq> None) \<and>
           gen_failure row = (if gen_status row = Failed then Some ProviderFailed else None) \<and>
           gen_outcome_unknown_at row = None \<and>
           gen_provider_call_id row = gen_provider_call_id g \<and>
           (\<forall>bytes. call_response call = Some bytes \<longrightarrow>
              (\<exists>a \<in> set (attempts (w_db w')). att_generation_id a = gen_id g \<and> att_response a = bytes))) \<and>
         (call_usage call = None \<or> metered (w_db (begun w)) (gen_id g) \<longrightarrow>
            usages (w_db w') = usages (w_db (begun w))) \<and>
         (\<forall>used. call_usage call = Some used \<and> \<not> metered (w_db (begun w)) (gen_id g) \<longrightarrow>
            (\<exists>row. usages (w_db w') = usages (w_db (begun w)) @ [row] \<and> records_usage g call used row))"
proof -
  have service: "check_service service" using assms(1,2) by (rule check_service.intro)
  obtain status message where out: "settleOutcomeOf g call = (status, message)" by fastforce
  let ?failure = "if status = Failed then Some ProviderFailed else None"
  obtain w1 where commit: "run_state (check_commit service ctx g status message ?failure call) w1 =
      (Inr settled, w')" and w1: "w_db w1 = w_db w" "w_tx w1 = None" "w_db (begun w1) = w_db (begun w)"
    using assms(3,4)
    by (auto simp: check_settle_def out logger_Err_def begun_def Let_def next_slot_def arrive_def
        split: if_splits list.splits)
  let ?r = "commit_request (gc_retention service) g status message ?failure"
  show ?thesis
  proof (rule check_service.commit_cases [OF service commit w1(2)])
    fix row t1 t2 t3
    assume committed: "settle_transaction t1 t2 t3 ?r (call_response call) (usage_record g call)
        (w_db (begun w1)) = (Inr row, w_db w')"
      and answer: "\<And>x. Inr settled = Inr x \<Longrightarrow> x = row"
    have "db_inv (w_db (begun w1))"
      using run_begun [OF w1(2)] w1(1,2) assms(5) world_run_inv [of w1 "(begun w1)\<lparr>w_tx := None\<rparr>"] by simp
    from settle_transaction_left [OF committed this] obtain old where
      old: "settle_match ?r old" "find_row (w_db w') (set_id ?r) = Some (settle_row t1 ?r old)"
        "row = (settle_row t1 ?r old)\<lparr>gen_read_at := 0\<rparr>"
      and att: "\<And>bytes. call_response call = Some bytes \<Longrightarrow>
           \<exists>a \<in> set (attempts (w_db w')). att_generation_id a = set_id ?r \<and> att_response a = bytes"
      by blast
    have "settled = row" using answer by simp
    moreover have "gen_provider_call_id old = gen_provider_call_id g"
      using old(1) by (simp add: settle_match_def commit_request_def)
    ultimately have "\<exists>row. find_row (w_db w') (gen_id g) = Some row \<and>
           gen_status settled = gen_status row \<and>
           (gen_status row = Succeeded \<longleftrightarrow> call_state call = CallSucceeded) \<and>
           (gen_status row = Cancelled \<longleftrightarrow>
              call_state call = CallCancelled \<and> gen_cancel_requested_at g \<noteq> None) \<and>
           gen_failure row = (if gen_status row = Failed then Some ProviderFailed else None) \<and>
           gen_outcome_unknown_at row = None \<and>
           gen_provider_call_id row = gen_provider_call_id g \<and>
           (\<forall>bytes. call_response call = Some bytes \<longrightarrow>
              (\<exists>a \<in> set (attempts (w_db w')). att_generation_id a = gen_id g \<and> att_response a = bytes))"
      using old(2,3) att out
      by (intro exI [of _ "settle_row t1 ?r old"])
         (auto simp: commit_request_def settle_row_def settleOutcomeOf_def
            split: call_state.splits if_splits)
    then show ?thesis using settle_transaction_usage [OF committed] unfolding w1(3) by blast
  next
    assume "\<And>x. (Inr settled :: goerr + generation) \<noteq> Inr x"
    then show ?thesis by blast
  qed
qed

definition sample_used :: call where
  "sample_used = sample_call\<lparr>call_model := ''gpt'', call_class := ''high'', call_usage := Some
     \<lparr>use_input_tokens = 7, use_cached_input_tokens = 2, use_cache_write_tokens = 1, use_output_tokens = 5,
      use_reasoning_tokens = 3\<rparr>\<rparr>"

theorem settle_records_outcome_witness:
  "\<exists>row. usages (w_db (snd (run_state (check_settle sample_service None
       (new_row 10 sample_request) sample_used) (sample_world sample_db)))) = usages sample_db @ [row] \<and>
     usg_input_tokens row = 7 \<and> usg_cached_input_tokens row = 2 \<and> usg_output_tokens row = 5"
proof -
  let ?run = "run_state (check_settle sample_service None (new_row 10 sample_request) sample_used)
    (sample_world sample_db)"
  have "\<not> isl (fst ?run)" by code_simp
  then have "?run = (Inr (projr (fst ?run)), snd ?run)" by (cases "fst ?run") (simp_all add: prod_eq_iff)
  note settled = settle_records_outcome [OF sample_lawful sample_transactor this]
  have "w_db (begun (sample_world sample_db)) = sample_db"
    by (simp add: begun_def sample_world_def next_slot_def)
  moreover have "\<not> metered sample_db (gen_id (new_row 10 sample_request))"
    by (simp add: metered_def sample_db_def)
  ultimately show ?thesis
    using settled sample_db_inv by (auto simp: sample_world_def sample_used_def records_usage_def)
qed

text \<open>The row constraints never refuse the settle of a check: on tables that keep their
  invariant, settling any call with any label of its outcome either finds the row and settles it,
  or finds that it moved on.\<close>

theorem settle_never_refused:
  assumes "db_inv db" and "settleOutcomeOf g call = (status, message)"
    and "sql_settle now (commit_request retention g status message
           (if status = Failed then Some ProviderFailed else None)) db = (Inl err, db')"
  shows "err = Sentinel ErrNoRows \<and> db' = db"
proof -
  let ?r = "commit_request retention g status message (if status = Failed then Some ProviderFailed else None)"
  have accepted: "generation_row_check (settle_row now ?r row)"
    if "row \<in> set (generations db)" "settle_match ?r row" for row
  proof (rule commit_request_accepted [OF that(2)])
    show "row_inv row" using assms(1) that(1) unfolding db_inv_def by blast
    show "terminal_status status" "message \<noteq> Some []"
      using settleOutcomeOf_terminal [OF assms(2)] by blast+
  qed simp
  show ?thesis
  proof (cases "List.find (settle_match ?r) (generations db)")
    case None
    with assms(3) show ?thesis by (simp add: sql_settle_def update_generation_def)
  next
    case (Some row)
    with accepted find_Some_in [OF Some] assms(3) show ?thesis
      by (simp add: sql_settle_def update_generation_def)
  qed
qed

theorem settle_never_refused_witness:
  "fst (sql_settle 20 (commit_request 1000 ((new_row 10 sample_request)\<lparr>gen_id := 5\<rparr>) Succeeded None None)
     sample_db) = Inl (Sentinel ErrNoRows)"
proof -
  let ?g = "(new_row 10 sample_request)\<lparr>gen_id := 5\<rparr>"
  let ?settle = "sql_settle 20 (commit_request 1000 ?g Succeeded None None) sample_db"
  have "isl (fst ?settle)" by code_simp
  then have "?settle = (Inl (projl (fst ?settle)), snd ?settle)"
    by (cases "fst ?settle") (simp_all add: prod_eq_iff)
  then have run: "sql_settle 20 (commit_request 1000 ?g Succeeded None
      (if Succeeded = Failed then Some ProviderFailed else None)) sample_db =
      (Inl (projl (fst ?settle)), snd ?settle)" by simp
  have "settleOutcomeOf ?g sample_call = (Succeeded, None)"
    by (simp add: settleOutcomeOf_def sample_call_def)
  from settle_never_refused [OF sample_db_inv this run]
  have "projl (fst ?settle) = Sentinel ErrNoRows" by simp
  with \<open>isl (fst ?settle)\<close> show ?thesis by (cases "fst ?settle") simp_all
qed

text \<open>One look at a call asks the provider at most twice, reading it and then stopping it, and it
  stops a call only when a stop is due: its owner asked, it ran past its ceiling, or it is a
  streamed call still queued past its own.\<close>

theorem ask_calls_provider_twice_at_most:
  assumes "async_provider connector"
    and "run_state (check_ask ctx connector g start i) w = ((res, since), w')"
  shows "(w_trace w' = w_trace w @ [ActGet i] \<and> since = None \<and>
            gen_cancel_requested_at g = None \<and> gen_read_at g - start < runCeiling) \<or>
         (w_trace w' = w_trace w @ [ActCancel i] \<and>
            (gen_cancel_requested_at g \<noteq> None \<or> gen_read_at g - start \<ge> runCeiling) \<and>
            (\<exists>t. since = Some t)) \<or>
         (w_trace w' = w_trace w @ [ActGet i, ActCancel i] \<and> gen_streamed g \<and>
            gen_read_at g - start \<ge> streamQueuedCeiling \<and> since = Some (start + streamQueuedCeiling))"
proof (cases "stop_wanted g start")
  case (Some t)
  then have due: "gen_cancel_requested_at g \<noteq> None \<or> gen_read_at g - start \<ge> runCeiling"
    by (auto simp: stop_wanted_def Let_def split: if_splits)
  from Some assms(2) have "run_state (connector_Cancel connector ctx i) w = (res, w')" "since = Some t"
    by (auto simp: check_ask_def ask_stop_def split: prod.splits)
  with async_provider.Cancel_trace [OF assms(1)] due show ?thesis by blast
next
  case None
  then have early: "gen_cancel_requested_at g = None" "gen_read_at g - start < runCeiling"
    by (auto simp: stop_wanted_def Let_def split: if_splits)
  obtain got w1 where got: "run_state (connector_Get connector ctx i) w = (got, w1)" by fastforce
  note read = async_provider.Get_trace [OF assms(1) got]
  show ?thesis
  proof (cases "\<exists>call. got = Inr call \<and> gen_streamed g \<and> call_state call = CallQueued \<and>
      \<not> gen_read_at g - start < streamQueuedCeiling")
    case True
    with None got assms(2) have "run_state (connector_Cancel connector ctx i) w1 = (res, w')"
      "since = Some (start + streamQueuedCeiling)"
      by (auto simp: check_ask_def ask_stop_def split: prod.splits)
    moreover from this(1) have "w_trace w' = w_trace w @ [ActGet i, ActCancel i]"
      using async_provider.Cancel_trace [OF assms(1)] read by fastforce
    ultimately show ?thesis using True by (intro disjI2) auto
  next
    case False
    with None got assms(2) have "w' = w1" "since = None"
      by (auto simp: check_ask_def split: sum.splits if_splits)
    with read early show ?thesis by simp
  qed
qed

theorem ask_calls_provider_twice_at_most_witness:
  "w_trace (snd (run_state (check_ask None
     (canned_async (Inr (zero_call\<lparr>call_id := ''resp_1''\<rparr>)) (Inr sample_call) (Inr sample_call) :: (unit, generation) async)
     ((new_row 10 sample_request)\<lparr>gen_read_at := 20\<rparr>) 10 ''resp_1'') (sample_world sample_db)))
   = [ActGet ''resp_1'']"
proof -
  let ?g = "(new_row 10 sample_request)\<lparr>gen_read_at := 20\<rparr>"
  have "gen_cancel_requested_at ?g = None \<and> \<not> gen_read_at ?g - 10 \<ge> runCeiling \<and> \<not> gen_streamed ?g"
    by (simp add: sample_request_def runCeiling_def)
  moreover obtain res since w' where run: "run_state (check_ask None
     (canned_async (Inr (zero_call\<lparr>call_id := ''resp_1''\<rparr>)) (Inr sample_call) (Inr sample_call) :: (unit, generation) async)
     ?g 10 ''resp_1'') (sample_world sample_db) = ((res, since), w')"
    by (metis prod.exhaust)
  ultimately show ?thesis
    using ask_calls_provider_twice_at_most [OF canned.async_provider_axioms run]
    by (simp add: sample_trace)
qed

text \<open>C25: A start that never recorded a call id is left alone until it can no longer be in flight.
  From then on, the check that answers has failed the generation as an unknown outcome, held from
  the instant it settled, and has sent the provider nothing more for it.\<close>

theorem unanswered_start_resolved:
  assumes "lawful (gc_registry service)" and "transactor (gc_transactor service)"
    and "gen_provider_call_id g = None" and "gen_start_requested_at g = Some at"
    and "run_state (check_transition service ctx \<lparr>cr_generation = g, cr_start = None\<rparr>) w = (res, w')"
    and "w_tx w = None" and "db_inv (w_db w)"
  shows "if gen_read_at g - at < startOutcomeUnknownAfter then res = Inr g \<and> w' = w
         else no_start w w' \<and>
           (\<forall>settled. res = Inr settled \<longrightarrow>
             (\<exists>row. find_row (w_db w') (gen_id g) = Some row \<and> gen_status row = Failed \<and>
                gen_failure row = Some OutcomeUnknown \<and> gen_provider_call_id row = None \<and>
                gen_outcome_unknown_at row = gen_settled_at row))"
proof (cases "gen_read_at g - at < startOutcomeUnknownAfter")
  case True
  with assms(3-5) show ?thesis by (simp add: check_transition_def check_resolveStart_def)
next
  case False
  have service: "check_service service" using assms(1,2) by (rule check_service.intro)
  from False assms(3-5) have run: "run_state (check_settleFailure service ctx g failureOutcomeUnknown
      OutcomeUnknown ''start intent recorded without a provider call id'' None) w = (res, w')"
    by (simp add: check_transition_def check_resolveStart_def)
  have "top_quiet w w'"
    using check_service.calm_settleFailure [OF service] run
    by (rule state_io_relD)
  with assms(6) have "no_start w w'" by (simp add: top_quiet_def)
  moreover have "\<exists>row. find_row (w_db w') (gen_id g) = Some row \<and> gen_status row = Failed \<and>
        gen_failure row = Some OutcomeUnknown \<and> gen_provider_call_id row = None \<and>
        gen_outcome_unknown_at row = gen_settled_at row" if "res = Inr settled" for settled
    using check_service.settleFailure_left [OF service, of ctx g failureOutcomeUnknown OutcomeUnknown]
      run that assms(3,6,7) by fastforce
  ultimately show ?thesis using False by simp
qed

theorem unanswered_start_resolved_witness:
  "fst (run_state (check_transition sample_service None
     \<lparr>cr_generation = (new_row 10 sample_request)\<lparr>gen_read_at := 20\<rparr>, cr_start = None\<rparr>)
     (sample_world sample_db)) = Inr ((new_row 10 sample_request)\<lparr>gen_read_at := 20\<rparr>)"
  using unanswered_start_resolved [OF sample_lawful sample_transactor _ _ prod.collapse [symmetric],
      where g = "(new_row 10 sample_request)\<lparr>gen_read_at := 20\<rparr>" and at = 10
        and w = "sample_world sample_db"] sample_db_inv
  by (simp add: sample_world_def startOutcomeUnknownAfter_def)

text \<open>C26: The writes of a call id stay inside the time a start may be in flight: a retry that lands
  began before the patience after the intent ended, and is answered within the write's own
  deadline, so before any check may call the start's outcome unknown by a clock running with this
  one.\<close>

theorem record_lands_before_unknown:
  assumes "record_retry ctx i callID (intentAt + recordPatience) n (Inl err) w = (Inr (Inr g), w')"
  shows "w_clock w' - intentAt < startOutcomeUnknownAfter"
  using record_retry_answered [OF assms] by (auto simp: check_constants)

theorem record_lands_before_unknown_witness:
  "w_clock (snd (record_retry None 1 ''resp_1'' (15 + recordPatience) 0 (Inl (External ''reset''))
     (sample_world sample_db))) - 15 < startOutcomeUnknownAfter"
proof -
  let ?first = "run_state (record_write None 1 ''resp_1'') (sleep (record_pause 0) (sample_world sample_db))"
  have "\<not> isl (fst ?first)" by code_simp
  then have "?first = (Inr (projr (fst ?first)), snd ?first)"
    by (cases "fst ?first") (simp_all add: prod_eq_iff)
  from record_retry_again [OF _ _ this, of "External ''reset''" "15 + recordPatience"]
  have "record_retry None 1 ''resp_1'' (15 + recordPatience) 0 (Inl (External ''reset''))
      (sample_world sample_db) = (Inr (Inr (projr (fst ?first))), snd ?first)"
    by (simp add: check_constants sample_world_def)
  from record_lands_before_unknown [OF this] this show ?thesis by simp
qed

text \<open>The generation a recording answers carries the call it was asked to record, with its
  start, whichever write or read told it so: what a start then reads off it is never missing.\<close>

theorem recording_carries_call:
  assumes "run_state (check_recordCall ctx connector intent intentAt callID) w = (Inr g, w')"
    and "w_tx w = None" and "db_inv (w_db w)" and "callID \<noteq> []"
  shows "gen_provider_call_id g = Some callID \<and> gen_start_requested_at g \<noteq> None"
  using assms by (rule recordCall_carries)

theorem recording_carries_call_witness:
  "gen_provider_call_id (projr (fst (run_state (check_recordCall None
     (canned_async (Inr sample_call) (Inr sample_call) (Inr sample_call) :: (unit, generation) async)
     ((new_row 10 sample_request)\<lparr>gen_read_at := 20\<rparr>) 15 ''resp_1'') (sample_world sample_db)))) =
   Some ''resp_1''"
proof -
  let ?connector = "canned_async (Inr sample_call) (Inr sample_call) (Inr sample_call) :: (unit, generation) async"
  let ?first = "run_state (record_write None 1 ''resp_1'') (sample_world sample_db)"
  have "\<not> isl (fst ?first)" by code_simp
  then obtain g w' where wrote: "?first = (Inr g, w')"
    by (cases ?first; cases "fst ?first") auto
  have run: "run_state (check_recordCall None ?connector ((new_row 10 sample_request)\<lparr>gen_read_at := 20\<rparr>)
      15 ''resp_1'') (sample_world sample_db) = (Inr g, w')"
    by (simp add: check_recordCall_def Let_def sample_request_def wrote [unfolded sample_request_def])
  have "gen_provider_call_id g = Some ''resp_1'' \<and> gen_start_requested_at g \<noteq> None"
    by (rule recording_carries_call [OF run]) (simp_all add: sample_world_def sample_db_inv)
  with run show ?thesis by simp
qed

end
