(* ===== verification/Submit_Properties.thy ===== *)
theory Submit_Properties
  imports Submit_Outcomes Check_Properties
begin

text \<open>
  What a submit is proved to do: it deduplicates, admits within its caller's caps, sends what
  it recorded and nothing else, and leaves nothing behind when it refuses.
\<close>

section \<open>A submit service on the sample of the check\<close>

definition sample_json :: payload_json where
  "sample_json =
     \<lparr>pj_members = (\<lambda>payload. Inr [(''body'', payload)]), pj_format = Inr,
      pj_encode = (\<lambda>members. case members ''body'' of None \<Rightarrow> Inl (External ''empty'') | Some v \<Rightarrow> Inr v)\<rparr>"

definition sample_submit :: "unit generation_submit" where
  "sample_submit =
     \<lparr>gs_check = sample_service, gs_registry = gc_registry sample_service,
      gs_transactor = pg_transactor, gs_purposes = [''chat''], gs_sha256 = (\<lambda>bytes. [word_of_nat (length bytes)]),
      gs_json = sample_json, gs_ijson_object = (\<lambda>payload. True)\<rparr>"

definition sample_asking :: "generation_caps \<Rightarrow> generation_submission" where
  "sample_asking caps =
     \<lparr>sb_owner_id = 2, sb_purpose = ''chat'', sb_provider = ''openai'', sb_payload = ''{}'',
      sb_variant = 0, sb_stream = False, sb_caps = Some caps\<rparr>"

definition sample_submission :: generation_submission where
  "sample_submission = sample_asking \<lparr>caps_concurrency = Some 3,
     caps_windows = [\<lparr>win_duration = 5, win_input_tokens = Some 10, win_output_tokens = None\<rparr>]\<rparr>"

definition sample_capped :: generation_submission where
  "sample_capped = sample_asking \<lparr>caps_concurrency = Some 0, caps_windows = []\<rparr>"

abbreviation sample_submit_run :: "unit world \<Rightarrow> (goerr + generation_submitted) \<times> unit world" where
  "sample_submit_run \<equiv> run_state (GenerationSubmit_Exec sample_submit 5 None None sample_submission)"

lemma sample_submit_service: "submit_service sample_submit"
  unfolding submit_service_def check_service_def sample_submit_def
  using sample_lawful sample_transactor pg.transactor_axioms by simp

interpretation sample_submits: submit_service sample_submit
  by (rule sample_submit_service)

lemma sample_submit_parts:
  "lawful (gc_registry (gs_check sample_submit))" "transactor (gc_transactor (gs_check sample_submit))"
  "transactor (gs_transactor sample_submit)"
  using sample_submit_service by (auto simp: submit_service_def check_service_def)

lemma sample_asking_validated: "caps_valid caps \<Longrightarrow> submit_validateRequest sample_submit (sample_asking caps) = None"
  by (simp add: submit_validateRequest_def submission_valid_def sample_asking_def submit_modes_def
      registry_Async_def modeOf_def sample_submit_def sample_registry sample_mode PayloadSizeCeiling_def
      blank_def rune_count_def space1_def space2_def)

lemma sample_asking_key: "submit_key sample_submit (sample_asking caps) = Inr [121]"
  by (simp add: submit_key_def canonicalPayload_def sample_json_def sample_asking_def sample_submit_def key_preimage_def key_fields_def
      frame_def bytes_of_def requestKeyTag_def asyncMode_def)

lemma sample_validated:
  "submit_validateRequest sample_submit sample_submission = None"
  "submit_validateRequest sample_submit sample_capped = None"
  by (simp_all add: sample_submission_def sample_capped_def sample_asking_validated caps_valid_def
      window_valid_def non_negative_def)

lemma sample_key:
  "submit_key sample_submit sample_submission = Inr [121]" "submit_key sample_submit sample_capped = Inr [121]"
  by (simp_all add: sample_submission_def sample_capped_def sample_asking_key)

lemma sample_submit_unfold:
  assumes "r = sample_submission \<or> r = sample_capped"
  shows
  "GenerationSubmit_Exec sample_submit 5 None None r = do {
     intentAt \<leftarrow> time_Now;
     (err, vars) \<leftarrow> pg_transactor None (submit_body None (submit_row 5 None r [121]) r);
     let (result, refusal) = (case vars of None \<Rightarrow> (None, None) | Some v \<Rightarrow> v);
     if (case refusal of None \<Rightarrow> False | Some cause \<Rightarrow> err_is ErrUsageCapReached cause)
     then State_Monad.return (Inl (the refusal))
     else case err of
       Some e \<Rightarrow> State_Monad.return (Inl e)
     | None \<Rightarrow>
         (case result of
            None \<Rightarrow> State_Monad.return (Inl (Panic ''nil pointer dereference''))
          | Some result \<Rightarrow> submit_send sample_submit None r intentAt result) }"
  using assms
  by (auto simp: GenerationSubmit_Exec_def sample_validated sample_key) (simp_all add: sample_submit_def)

section \<open>Properties\<close>

text \<open>Under every schedule, a submit moves the tables only along the transactions of the program,
  and keeps their invariant.\<close>

theorem submit_keeps_invariant:
  assumes "lawful (gc_registry (gs_check service))" and "transactor (gc_transactor (gs_check service))"
    and "transactor (gs_transactor service)"
    and "run_state (GenerationSubmit_Exec service new_id traceparent ctx r) w = (res, w')"
    and "w_tx w = None" and "db_inv (w_db w)"
  shows "db_run (w_db_clock w) (w_db w) (w_db_clock w') (w_db w') \<and> db_inv (w_db w')"
proof -
  have "submit_service service" by (rule submit_service.intro [OF check_service.intro [OF assms(1,2)] assms(3)])
  then have "top_run w w'" by (rule state_io_relD [OF submit_service.submit_moves assms(4)])
  with assms(5) have "world_run w w'" by (simp add: top_run_def)
  with world_run_inv [OF this assms(5,6)] assms(5) show ?thesis by (simp add: world_run_def)
qed

theorem submit_keeps_invariant_witness:
  "db_inv (w_db (snd (sample_submit_run (sample_world sample_db))))"
  using submit_keeps_invariant [OF sample_submit_parts prod.collapse [symmetric],
      where w = "sample_world sample_db"] sample_db_inv
  by (simp add: sample_world_def)

text \<open>A submit refused before its transaction leaves everything as it was, and its request is
  named invalid unless its provider cannot take a call of its mode.\<close>

theorem invalid_submit_touches_nothing:
  assumes "submit_validateRequest service r = Some err"
  shows "run_state (GenerationSubmit_Exec service new_id traceparent ctx r) w = (Inl err, w) \<and>
         (err_is ErrInvalidRequest err \<or>
          (submission_valid r \<and> (\<exists>e. submit_modes service r = Some e \<and> err_is ErrModeUnsupported e \<and>
             err_is ErrModeUnsupported err)))"
proof -
  have modes: "err_is ErrProviderUnknown e \<or> err_is ErrModeUnsupported e" if "submit_modes service r = Some e" for e
    using that by (auto simp: submit_modes_def registry_Async_def registry_Streaming_def modeOf_def
        split: option.splits sum.splits if_splits)
  show ?thesis
    using assms modes
    by (auto simp: GenerationSubmit_Exec_def submit_validateRequest_def invalid_is split: if_splits option.splits)
qed

theorem invalid_submit_touches_nothing_witness:
  "run_state (GenerationSubmit_Exec sample_submit 5 None None (sample_submission\<lparr>sb_owner_id := 0\<rparr>))
     (sample_world sample_db) = (Inl invalid, sample_world sample_db)"
proof -
  have "submit_validateRequest sample_submit (sample_submission\<lparr>sb_owner_id := 0\<rparr>) = Some invalid"
    by (simp add: submit_validateRequest_def submission_valid_def)
  from invalid_submit_touches_nothing [OF this] show ?thesis by simp
qed



lemma sample_submit_started:
  "filter is_start (w_trace (snd (sample_submit_run (sample_world sample_db)))) \<noteq> []"
  unfolding sample_submit_unfold [OF disjI1, OF HOL.refl] by code_simp


text \<open>C10: A submit refused by its caller's caps records nothing: its transaction rolled back what it
  had inserted, nothing was sent, and the tables, with the generation counted among them, were
  over a cap.\<close>

theorem refused_submit_records_nothing:
  assumes "lawful (gc_registry (gs_check service))" and "transactor (gc_transactor (gs_check service))"
    and "transactor (gs_transactor service)"
    and "submit_validateRequest service r = None" and "submit_key service r = Inr key"
    and "run_state (GenerationSubmit_Exec service new_id traceparent ctx r) w = (Inl e, w')"
    and "err_is ErrUsageCapReached e" and "w_tx w = None"
  shows "w_db w' = w_db (begun w) \<and> no_start w w' \<and>
         (\<exists>t g db1 txn. w_tx (begun w) = Some txn \<and>
            sql_submit t (submit_row new_id traceparent r key) (w_db (begun w)) = (Inr g, db1) \<and>
            \<not> within_caps txn r db1)"
proof -
  have service: "submit_service service"
    by (rule submit_service.intro [OF check_service.intro [OF assms(1,2)] assms(3)])
  let ?row = "submit_row new_id traceparent r key"
  let ?body = "submit_body ctx ?row r"
  obtain txn where txn: "w_tx (begun w) = Some txn" using begun_tx [of w] by auto
  from assms(6) show ?thesis
  proof (cases rule: submit_exec_cases)
    case (early e')
    with assms(4,5) show ?thesis by simp
  next
    case (ran key' err vars w1)
    with assms(5) have key: "key' = key" by simp
    note tx = ran(3) [unfolded key]
    have "top_quiet w w1" by (rule state_io_relD [OF submit_service.record_calm [OF service] tx])
    with assms(8) have calm: "no_start w w1" by (simp add: top_quiet_def)
    have outcome: "tx_outcome ?body w (err, vars) w1" by (rule transactor.outcome [OF assms(3,8) tx])
    from ran(4) have "w' = w1 \<and>
      ((\<exists>result. vars = Some (result, Some e)) \<or> err = Some e \<or>
       err = None \<and> (case vars of None \<Rightarrow> None | Some v \<Rightarrow> fst v) = None)"
    proof
      assume "\<exists>e'. Inl e = Inl e' \<and> w' = w1 \<and>
              ((\<exists>result. vars = Some (result, Some e') \<and> err_is ErrUsageCapReached e') \<or> err = Some e' \<or>
               err = None \<and> (case vars of None \<Rightarrow> None | Some v \<Rightarrow> fst v) = None)"
      then show ?thesis by auto
    next
      assume "\<exists>result refusal. err = None \<and> vars = Some (Some result, refusal) \<and>
              (\<forall>c. refusal = Some c \<longrightarrow> \<not> err_is ErrUsageCapReached c) \<and>
              run_state (submit_send service ctx r (w_clock w) result) w1 = (Inl e, w')"
      with assms(7) show ?thesis using send_failed by blast
    qed
    then have w': "w' = w1" and answer: "(\<exists>result. vars = Some (result, Some e)) \<or> err = Some e \<or>
       err = None \<and> (case vars of None \<Rightarrow> None | Some v \<Rightarrow> fst v) = None" by blast+
    from outcome assms(7) answer show ?thesis
    proof (rule body_refused)
      fix err' a w2
      assume body: "run_state ?body (begun w) = ((Some err', a), w2)" "err_is ErrUsageCapReached err'"
        and left: "w_db w1 = w_db (begun w)"
      from body_refused_over_caps [OF body(1) txn body(2)] left calm txn w' show ?thesis by auto
    qed
  qed
qed

lemma sample_capped_refused:
  "case fst (run_state (GenerationSubmit_Exec sample_submit 5 None None sample_capped) (sample_world sample_db)) of
     Inl e \<Rightarrow> (case e of UsageCap u \<Rightarrow> cap_limit u = ''concurrency 0'' \<and> cap_retry_after u = 0 | _ \<Rightarrow> False) | Inr _ \<Rightarrow> False"
  unfolding sample_submit_unfold [OF disjI2, OF HOL.refl] by code_simp

theorem refused_submit_records_nothing_witness:
  "w_db (snd (run_state (GenerationSubmit_Exec sample_submit 5 None None sample_capped)
     (sample_world sample_db))) = sample_db"
proof -
  let ?run = "run_state (GenerationSubmit_Exec sample_submit 5 None None sample_capped) (sample_world sample_db)"
  obtain e where e: "?run = (Inl e, snd ?run)" "err_is ErrUsageCapReached e"
    using sample_capped_refused by (cases "fst ?run") (auto simp: prod_eq_iff split: goerr.splits)
  have "w_tx (sample_world sample_db) = None" by (simp add: sample_world_def)
  from refused_submit_records_nothing [OF sample_submit_parts sample_validated(2) sample_key(2) e this]
  show ?thesis by (simp add: begun_def next_slot_def sample_world_def)
qed

text \<open>C28: A submit that answers a created generation recorded it within its caller's caps: at the
  start of its transaction, and with it counted, no more generations were live or held than the
  caller allowed, and no window had reached its limit.\<close>

theorem created_within_caps:
  assumes "lawful (gc_registry (gs_check service))" and "transactor (gc_transactor (gs_check service))"
    and "transactor (gs_transactor service)"
    and "run_state (GenerationSubmit_Exec service new_id traceparent ctx r) w = (Inr sd, w')"
    and "sd_created sd" and "w_tx w = None"
  shows "\<exists>key t g db1 txn. submit_key service r = Inr key \<and> w_tx (begun w) = Some txn \<and>
           sql_submit t (submit_row new_id traceparent r key) (w_db (begun w)) = (Inr g, db1) \<and>
           gen_id g = new_id \<and> within_caps txn r db1"
proof -
  have service: "submit_service service"
    by (rule submit_service.intro [OF check_service.intro [OF assms(1,2)] assms(3)])
  obtain txn where txn: "w_tx (begun w) = Some txn" using begun_tx [of w] by auto
  from submit_service.exec_sent [OF service assms(4,6)] show ?thesis
  proof cases
    case (1 key t g w1 wa wb)
    from 1(8) assms(5) have created: "gen_id g = new_id"
      using send_created by fastforce
    have "within_caps txn r (w_db wa)"
      using admit_answer [OF 1(9) [OF created]] 1(11) txn by simp
    with 1(2,3,10) created txn show ?thesis by auto
  qed
qed

lemma sample_submit_created:
  "case fst (sample_submit_run (sample_world sample_db)) of Inl e \<Rightarrow> False | Inr sd \<Rightarrow> sd_created sd"
  unfolding sample_submit_unfold [OF disjI1, OF HOL.refl] by code_simp

lemma sample_submit_answered:
  obtains sd w' where "sample_submit_run (sample_world sample_db) = (Inr sd, w')" and "sd_created sd"
  using sample_submit_created
  by (cases "sample_submit_run (sample_world sample_db)"; cases "fst (sample_submit_run (sample_world sample_db))")
     auto

theorem created_within_caps_witness:
  "\<exists>t db1. sql_submit t (submit_row 5 None sample_submission [121]) sample_db =
      (Inr (new_row t (submit_row 5 None sample_submission [121])), db1) \<and> within_caps 20 sample_submission db1"
proof -
  obtain sd w' where run: "sample_submit_run (sample_world sample_db) = (Inr sd, w')" "sd_created sd"
    by (rule sample_submit_answered)
  have top: "w_tx (sample_world sample_db) = None" by (simp add: sample_world_def)
  have at: "w_tx (begun (sample_world sample_db)) = Some 20" "w_db (begun (sample_world sample_db)) = sample_db"
    by (simp_all add: begun_def next_slot_def sample_world_def)
  obtain key t g db1 txn where "submit_key sample_submit sample_submission = Inr key" "Some 20 = Some txn"
    "sql_submit t (submit_row 5 None sample_submission key) sample_db = (Inr g, db1)" "gen_id g = 5"
    "within_caps txn sample_submission db1"
    using created_within_caps [OF sample_submit_parts run top] unfolding at by blast
  then have created: "sql_submit t (submit_row 5 None sample_submission [121]) sample_db = (Inr g, db1)" "gen_id g = 5"
    "within_caps 20 sample_submission db1" by (simp_all add: sample_key)
  from created(1) have "g = new_row t (submit_row 5 None sample_submission [121])"
  proof (cases rule: submit_cases)
    case replayed
    with created(2) show ?thesis by (auto simp: sample_db_def sample_request_def)
  qed
  with created show ?thesis by blast
qed

text \<open>C3: A request in flight or succeeded is not paid for twice. When a generation under the
  request's key is neither failed nor cancelled, a submit answers that generation, creates
  nothing and starts nothing; when there is none, it creates the one it answers.\<close>

theorem submit_deduplicates:
  assumes "lawful (gc_registry (gs_check service))" and "transactor (gc_transactor (gs_check service))"
    and "transactor (gs_transactor service)"
    and "run_state (GenerationSubmit_Exec service new_id traceparent ctx r) w = (Inr sd, w')"
    and "submit_key service r = Inr key" and "w_tx w = None" and "db_inv (w_db w)"
    and "new_id \<notin> gen_id ` set (generations (w_db (begun w)))"
  shows "case List.find (\<lambda>g. keyed g \<and> gen_request_key g = key) (generations (w_db (begun w))) of
           Some g \<Rightarrow> \<not> sd_created sd \<and> gv_id (sd_generation sd) = gen_id g \<and> no_start w w'
         | None \<Rightarrow> sd_created sd \<and> gv_id (sd_generation sd) = new_id"
proof -
  have service: "submit_service service"
    by (rule submit_service.intro [OF check_service.intro [OF assms(1,2)] assms(3)])
  have inv: "db_inv (w_db (begun w))" by (rule begun_inv [OF assms(6,7)])
  show ?thesis
  proof (cases "List.find (\<lambda>g. keyed g \<and> gen_request_key g = key) (generations (w_db (begun w)))")
    case (Some h)
    from find_Some_in [OF Some] have h: "h \<in> set (generations (w_db (begun w)))" "keyed h" "gen_request_key h = key"
      by simp_all
    with find_row_iff [OF db_inv_distinct [OF inv]] have "find_row (w_db (begun w)) (gen_id h) = Some h" by blast
    moreover have "gen_id h \<noteq> new_id" using h(1) assms(8) by blast
    ultimately show ?thesis
      using submit_service.submit_replays [OF service assms(4,5,6,7) _ h(2,3)] Some by simp
  next
    case None
    from submit_service.exec_sent [OF service assms(4,6)] show ?thesis
    proof cases
      case (1 key' t g w1 wa wb)
      then have insert: "sql_submit t (submit_row new_id traceparent r key) (w_db (begun w)) = (Inr g, w_db w1)"
        using assms(5) by simp
      then have "gen_id g = new_id"
        using None by (cases rule: submit_cases) (auto simp: find_None_iff submit_row_def)
      with submit_service.send_answers [OF service 1(8) 1(6) submit_inv [OF insert inv]] None show ?thesis by simp
    qed
  qed
qed

definition sample_known :: database where
  "sample_known = sample_db\<lparr>generations := [new_row 10 (sample_request\<lparr>sub_request_key := [121]\<rparr>)]\<rparr>"

lemma sample_known_inv: "db_inv sample_known"
proof -
  have "generation_row_check (new_row 10 (sample_request\<lparr>sub_request_key := [121]\<rparr>))"
    by (simp add: generation_row_check_def new_row_def sample_request_def live_status_def)
  from new_row_inv [OF this] show ?thesis by (simp add: db_inv_def sample_known_def sample_db_def)
qed

lemma sample_replay_answered:
  "case fst (sample_submit_run (sample_world sample_known)) of Inl e \<Rightarrow> False | Inr sd \<Rightarrow> True"
  unfolding sample_submit_unfold [OF disjI1, OF HOL.refl] by code_simp

theorem submit_deduplicates_witness:
  "\<exists>sd w'. sample_submit_run (sample_world sample_known) = (Inr sd, w') \<and> \<not> sd_created sd \<and>
     gv_id (sd_generation sd) = 1 \<and> filter is_start (w_trace w') = []"
proof -
  obtain sd w' where run: "sample_submit_run (sample_world sample_known) = (Inr sd, w')"
    using sample_replay_answered
    by (cases "sample_submit_run (sample_world sample_known)";
        cases "fst (sample_submit_run (sample_world sample_known))") auto
  have at: "w_tx (sample_world sample_known) = None" "w_db (sample_world sample_known) = sample_known"
    "w_db (begun (sample_world sample_known)) = sample_known"
    by (simp_all add: begun_def next_slot_def sample_world_def)
  have known: "generations sample_known = [new_row 10 (sample_request\<lparr>sub_request_key := [121]\<rparr>)]"
    by (simp add: sample_known_def)
  from submit_deduplicates [OF sample_submit_parts run sample_key(1) at(1), unfolded at] sample_known_inv run
  show ?thesis
    by (simp add: known keyed_def no_start_def sample_trace sample_request_def)
qed

text \<open>C29: A refusal on a window says when its caller may come back: from then on, the oldest usage
  counted against the window has left it. Until a positive limit is reached there is no refusal
  without one.\<close>

theorem window_refusal_retry_after:
  assumes "windowRefusal scope win (window_totals txn owner purpose db (win_duration win)) now = Some u"
  shows "0 \<le> cap_retry_after u \<and>
         (\<forall>oldest later. tot_oldest_at (window_totals txn owner purpose db (win_duration win)) = Some oldest \<longrightarrow>
            now + cap_retry_after u \<le> later \<longrightarrow>
            (\<forall>v \<in> set (window_records later owner purpose (win_duration win) db). oldest < usg_created_at v)) \<and>
         (tot_oldest_at (window_totals txn owner purpose db (win_duration win)) = None \<longrightarrow>
            (\<exists>n \<le> 0. win_input_tokens win = Some n \<or> win_output_tokens win = Some n))"
proof -
  let ?used = "window_totals txn owner purpose db (win_duration win)"
  let ?records = "window_records txn owner purpose (win_duration win) db"
  have after: "cap_retry_after u =
      (case tot_oldest_at ?used of None \<Rightarrow> 0 | Some oldest \<Rightarrow> max (oldest + win_duration win - now) 0)"
    and hit: "reached (win_input_tokens win) (tot_input_tokens ?used) \<or>
      reached (win_output_tokens win) (tot_output_tokens ?used)"
    using assms by (auto simp: windowRefusal_def Let_def split: if_splits)
  have "oldest < usg_created_at v"
    if "tot_oldest_at ?used = Some oldest" "now + cap_retry_after u \<le> later"
      "v \<in> set (window_records later owner purpose (win_duration win) db)" for oldest later v
    using that after by (auto simp: window_records_def max_def split: if_splits)
  moreover have "\<exists>n \<le> 0. win_input_tokens win = Some n \<or> win_output_tokens win = Some n"
    if "tot_oldest_at ?used = None"
  proof -
    from that have "?records = []" by (simp add: window_totals_def Let_def split: list.splits)
    then have "tot_input_tokens ?used = 0" "tot_output_tokens ?used = 0" by (simp_all add: window_totals_def)
    with hit show ?thesis by (auto simp: reached_def split: option.splits)
  qed
  moreover have "0 \<le> cap_retry_after u" using after by (simp split: option.splits)
  ultimately show ?thesis by blast
qed

definition sample_usage :: generation_usage where
  "sample_usage =
     \<lparr>usg_generation_id = 9, usg_attempt = 1, usg_owner_id = 2, usg_purpose = ''chat'',
      usg_provider = ''openai'', usg_model = ''gpt'', usg_class = ''none'', usg_tier = None,
      usg_input_tokens = 12, usg_cached_input_tokens = 0, usg_cache_write_tokens = 0,
      usg_output_tokens = 1, usg_reasoning_tokens = 0, usg_started_at = 5, usg_completed_at = None,
      usg_created_at = 18\<rparr>"

theorem window_refusal_retry_after_witness:
  "\<exists>u. windowRefusal ''purpose'' \<lparr>win_duration = 5, win_input_tokens = Some 10, win_output_tokens = None\<rparr>
      (window_totals 20 2 ''chat'' (sample_db\<lparr>usages := [sample_usage]\<rparr>) 5) 20 = Some u \<and>
     cap_retry_after u = 3 \<and>
     window_records (20 + cap_retry_after u) 2 ''chat'' 5 (sample_db\<lparr>usages := [sample_usage]\<rparr>) = []"
proof -
  let ?win = "\<lparr>win_duration = 5, win_input_tokens = Some 10, win_output_tokens = None\<rparr> :: cap_window"
  let ?db = "sample_db\<lparr>usages := [sample_usage]\<rparr>"
  have used: "window_totals 20 2 ''chat'' ?db (win_duration ?win) =
      \<lparr>tot_input_tokens = 12, tot_output_tokens = 1, tot_oldest_at = Some 18\<rparr>"
    by (simp add: window_totals_def window_records_def sample_usage_def)
  then obtain u where u: "windowRefusal ''purpose'' ?win (window_totals 20 2 ''chat'' ?db (win_duration ?win)) 20 = Some u"
    and after: "cap_retry_after u = 3"
    by (auto simp: windowRefusal_def reached_def Let_def)
  from window_refusal_retry_after [OF u] used after have
    "\<forall>later \<ge> 23. \<forall>v \<in> set (window_records later 2 ''chat'' 5 ?db). 18 < usg_created_at v" by simp
  from this [THEN spec, of 23] have "window_records 23 2 ''chat'' 5 ?db = []"
    by (simp add: window_records_def sample_usage_def split: if_splits)
  with u after show ?thesis by auto
qed

text \<open>Of the windows that are full, the shortest is the one a refusal names: every shorter window
  still had room when the transaction began.\<close>

theorem refusal_names_shortest_window:
  assumes "run_state (admit_windows ctx r) w = (Some e, w')" and "err_is ErrUsageCapReached e"
    and "w_tx w = Some txn"
  shows "\<exists>u win now. e = UsageCap u \<and> win \<in> set (caps_windows (submit_caps r)) \<and>
           windowRefusal (submit_scope r) win (usage_in txn r (w_db w) win) now = Some u \<and>
           (\<forall>win' \<in> set (caps_windows (submit_caps r)). win_duration win' < win_duration win \<longrightarrow>
              window_open win' (usage_in txn r (w_db w) win'))"
  using admit_windows_answer [OF assms(1,3)] assms(2) by blast

definition sample_tx :: "unit world" where
  "sample_tx = (sample_world (sample_db\<lparr>usages := [sample_usage]\<rparr>))\<lparr>w_tx := Some 20\<rparr>"

definition sample_full :: generation_submission where
  "sample_full = sample_asking \<lparr>caps_concurrency = None,
     caps_windows = [\<lparr>win_duration = 9, win_input_tokens = Some 10, win_output_tokens = None\<rparr>,
       \<lparr>win_duration = 1, win_input_tokens = Some 10, win_output_tokens = None\<rparr>]\<rparr>"

lemma sample_full_refused:
  "case fst (run_state (admit_windows None sample_full) sample_tx) of
     Some e \<Rightarrow> err_is ErrUsageCapReached e | None \<Rightarrow> False"
  by code_simp

theorem refusal_names_shortest_window_witness:
  "\<exists>u now. fst (run_state (admit_windows None sample_full) sample_tx) = Some (UsageCap u) \<and>
     windowRefusal (submit_scope sample_full)
       \<lparr>win_duration = 9, win_input_tokens = Some 10, win_output_tokens = None\<rparr>
       \<lparr>tot_input_tokens = 12, tot_output_tokens = 1, tot_oldest_at = Some 18\<rparr> now = Some u"
proof -
  obtain e w' where run: "run_state (admit_windows None sample_full) sample_tx = (Some e, w')"
    "err_is ErrUsageCapReached e"
    using sample_full_refused
    by (cases "run_state (admit_windows None sample_full) sample_tx";
        cases "fst (run_state (admit_windows None sample_full) sample_tx)") auto
  have tx: "w_tx sample_tx = Some 20" by (simp add: sample_tx_def)
  have wins: "set (caps_windows (submit_caps sample_full)) =
      {\<lparr>win_duration = 9, win_input_tokens = Some 10, win_output_tokens = None\<rparr>,
       \<lparr>win_duration = 1, win_input_tokens = Some 10, win_output_tokens = None\<rparr>}"
    by (simp add: sample_full_def sample_asking_def submit_caps_def)
  have long: "usage_in 20 sample_full (w_db sample_tx)
      \<lparr>win_duration = 9, win_input_tokens = Some 10, win_output_tokens = None\<rparr> =
      \<lparr>tot_input_tokens = 12, tot_output_tokens = 1, tot_oldest_at = Some 18\<rparr>"
    and short: "usage_in 20 sample_full (w_db sample_tx)
      \<lparr>win_duration = 1, win_input_tokens = Some 10, win_output_tokens = None\<rparr> =
      \<lparr>tot_input_tokens = 0, tot_output_tokens = 0, tot_oldest_at = None\<rparr>"
    by (simp_all add: usage_in_def window_totals_def window_records_def sample_usage_def sample_tx_def
        sample_full_def sample_asking_def sample_world_def)
  from refusal_names_shortest_window [OF run tx] obtain u win now where u: "e = UsageCap u"
    "win \<in> set (caps_windows (submit_caps sample_full))"
    "windowRefusal (submit_scope sample_full) win (usage_in 20 sample_full (w_db sample_tx) win) now = Some u"
    by blast
  then have "windowRefusal (submit_scope sample_full)
       \<lparr>win_duration = 9, win_input_tokens = Some 10, win_output_tokens = None\<rparr>
       \<lparr>tot_input_tokens = 12, tot_output_tokens = 1, tot_oldest_at = Some 18\<rparr> now = Some u"
    unfolding wins
  proof (elim insertE emptyE)
    assume "win = \<lparr>win_duration = 1, win_input_tokens = Some 10, win_output_tokens = None\<rparr>"
    with u(3) short show ?thesis by (simp add: windowRefusal_def reached_def)
  qed (use u(3) long in simp)
  with run u(1) show ?thesis by auto
qed

end
