(* ===== verification/Services_Properties.thy ===== *)
theory Services_Properties
  imports Services Submit_Properties
begin

text \<open>
  What the read and stop services are proved to do: an answered cancel leaves its generation
  settled or asked to stop, a read answers its owner's generation alone and asks the provider
  only while it is unsettled, a summary counts what admission counts, and the services that only
  read write nothing.
\<close>

section \<open>Following one row through a run\<close>

lemma world_tracks:
  assumes "world_run w w'" and "w_tx w = None" and "db_inv (w_db w)" and "find_row (w_db w) i = Some g"
  shows "\<exists>g'. row_run (w_db_clock w) g (w_db_clock w') g' \<and> row_inv g' \<and>
           (find_row (w_db w') i = Some g' \<or> expired (w_db_clock w') g')"
  using db_run_tracks [OF _ assms(3,4)] assms(1,2) by (simp add: world_run_def)

text \<open>The row \<open>g\<close> of \<open>w\<close> is settled at \<open>w'\<close>, or its owner's request to stop it is in it.\<close>

definition halted :: "'p world \<Rightarrow> generation \<Rightarrow> 'p world \<Rightarrow> bool" where
  "halted w g w' \<longleftrightarrow>
     (\<exists>g'. row_run (w_db_clock w) g (w_db_clock w') g' \<and> row_inv g' \<and>
        (find_row (w_db w') (gen_id g) = Some g' \<or> expired (w_db_clock w') g') \<and>
        (live_status (gen_status g') \<longrightarrow> gen_cancel_requested_at g' \<noteq> None))"

lemma halted_later:
  assumes "halted w g w1" and "world_run w1 w2" and "w_tx w1 = None" and "db_inv (w_db w1)"
  shows "halted w g w2"
proof -
  from assms(1) obtain h where h: "row_run (w_db_clock w) g (w_db_clock w1) h" "row_inv h"
    "find_row (w_db w1) (gen_id g) = Some h \<or> expired (w_db_clock w1) h"
    "live_status (gen_status h) \<longrightarrow> gen_cancel_requested_at h \<noteq> None"
    unfolding halted_def by blast
  have clock: "w_db_clock w1 \<le> w_db_clock w2" using assms(2) by (simp add: world_run_def)
  from h(3) show ?thesis
  proof
    assume "find_row (w_db w1) (gen_id g) = Some h"
    from world_tracks [OF assms(2-4) this] obtain k where
      k: "row_run (w_db_clock w1) h (w_db_clock w2) k" "row_inv k"
        "find_row (w_db w2) (gen_id g) = Some k \<or> expired (w_db_clock w2) k" by blast
    have "live_status (gen_status k) \<longrightarrow> gen_cancel_requested_at k \<noteq> None"
      using h(4) row_run_settled [OF k(1)] row_run_cancel_request [OF k(1)] by blast
    with row_run_trans [OF k(1) h(1)] k(2,3) show ?thesis unfolding halted_def by blast
  next
    assume "expired (w_db_clock w1) h"
    with clock have "expired (w_db_clock w2) h" by (auto simp: expired_def split: option.splits)
    with row_run_later [OF h(1) clock] h(2) expired_settled show ?thesis unfolding halted_def by blast
  qed
qed

lemma halted_settled:
  assumes "world_run w w1" and "w_tx w = None" and "db_inv (w_db w)" and "find_row (w_db w) (gen_id g) = Some g"
    and "\<And>h. find_row (w_db w1) (gen_id g) = Some h \<Longrightarrow> gen_owner_id h = gen_owner_id g \<Longrightarrow>
           \<not> live_status (gen_status h)"
  shows "halted w g w1"
proof -
  from world_tracks [OF assms(1-4)] obtain h where h: "row_run (w_db_clock w) g (w_db_clock w1) h" "row_inv h"
    "find_row (w_db w1) (gen_id g) = Some h \<or> expired (w_db_clock w1) h" by blast
  from h(1) have "gen_owner_id h = gen_owner_id g" by (simp add: row_run_keeps)
  with h assms(5) expired_settled show ?thesis unfolding halted_def by blast
qed

lemma halted_cancelled:
  assumes "world_run w w1" and "w_tx w = None" and "db_inv (w_db w)" and "find_row (w_db w) (gen_id g) = Some g"
    and "sql_request_cancel (w_db_clock w1) r (w_db w1) = (Inr a, db')" and "can_id r = gen_id g"
    and "w2 = (elapse d w1)\<lparr>w_db := db'\<rparr>"
  shows "halted w g w2"
proof -
  have inv: "db_inv (w_db w1)" using world_run_inv [OF assms(1-3)] by simp
  from world_tracks [OF assms(1-4)] obtain h where h: "row_run (w_db_clock w) g (w_db_clock w1) h" "row_inv h"
    "find_row (w_db w1) (gen_id g) = Some h \<or> expired (w_db_clock w1) h" by blast
  have clock: "w_db_clock w1 \<le> w_db_clock w2" by (simp add: assms(7) elapse_def)
  let ?c = "cancel_row (w_db_clock w1) r"
  from request_cancel_row(2) [OF assms(5) inv] assms(6) obtain x where
    x: "find_row (w_db w1) (gen_id g) = Some x" "row_step (w_db_clock w1) x (?c x)" "db' = put_row (?c x) (w_db w1)"
    by auto
  from h(3) show ?thesis
  proof
    assume "find_row (w_db w1) (gen_id g) = Some h"
    with x have c: "row_step (w_db_clock w1) h (?c h)" "db' = put_row (?c h) (w_db w1)" by simp_all
    have found: "find_row (w_db w2) (gen_id g) = Some (?c h)"
      using x(1) find_row_in [OF x(1)] \<open>find_row (w_db w1) (gen_id g) = Some h\<close>
      by (simp add: assms(7) c(2) find_row_put_row)
    moreover have "row_inv (?c h)"
      using db_inv_row [OF request_cancel_row(1) [OF assms(5) inv]] found by (simp add: assms(7))
    moreover have "row_run (w_db_clock w) g (w_db_clock w2) (?c h)"
      using row_run.row_moves [OF h(1) c(1) _ clock] by simp
    moreover have "gen_cancel_requested_at (?c h) \<noteq> None" by (simp add: cancel_row_def Let_def split: option.splits)
    ultimately show ?thesis unfolding halted_def by blast
  next
    assume "expired (w_db_clock w1) h"
    with clock have "expired (w_db_clock w2) h" by (auto simp: expired_def split: option.splits)
    with row_run_later [OF h(1) clock] h(2) expired_settled show ?thesis unfolding halted_def by blast
  qed
qed

section \<open>A cancel\<close>

lemma foreign_not_cancellable:
  "foreign e \<Longrightarrow> \<not> err_is ErrGenerationNotCancellable (execute_query (no_rows ErrGenerationNotCancellable e))"
  by (auto simp: foreign_def no_rows_def)

lemma run_cancel_found: "state_io_rel world_run (cancel_found retention ctx request)"
  unfolding cancel_found_def by (intro runs.guarantee_constructs run_dao)

lemma cancel_found_halts:
  assumes "run_state (cancel_found retention ctx request) w = (Inr h, w')" and "w_tx w = None"
    and "db_inv (w_db w)" and "find_row (w_db w) (gen_id g) = Some g"
    and "gcr_id request = gen_id g" and "gcr_owner_id request = gen_owner_id g"
  shows "halted w g w'"
proof -
  let ?r = "\<lparr>can_id = gcr_id request, can_owner_id = gcr_owner_id request,
    can_error = generationCancelledReason, can_retention = retention\<rparr>"
  obtain res v where cancel: "run_state (PgGenerationRequestCancel_Exec ctx ?r) w = (res, v)" by fastforce
  have ran: "world_run w v" by (rule state_io_relD [OF dcancel.run cancel])
  show ?thesis
  proof (cases res)
    case (Inr a)
    with assms(1) cancel have "w' = v" by (simp add: cancel_found_def)
    from cancel [unfolded Inr] show ?thesis
    proof (cases rule: dcancel.answered)
      case (1 sl w1 a' d db')
      have "world_run w w1" by (rule state_io_relD [OF run_next_slot 1(1)])
      from halted_cancelled [OF this assms(2-4) 1(2) _ 1(4)] assms(5) \<open>w' = v\<close> show ?thesis by simp
    qed
  next
    case (Inl err)
    with assms(1) cancel have refused: "err_is ErrGenerationNotCancellable err"
      and get: "run_state (PgGenerationGet_Exec ctx (gcr_id request) (gcr_owner_id request)) v = (Inr h, w')"
      by (auto simp: cancel_found_def split: if_splits)
    have v: "w_tx v = None" "db_inv (w_db v)" using world_run_inv [OF ran assms(2,3)] by simp_all
    have "halted w g v"
      using cancel [unfolded Inl]
    proof (cases rule: dcancel.failed)
      case (unanswered sl w1 e' d)
      with refused foreign_not_cancellable show ?thesis by blast
    next
      case (refused sl w1 e' d db')
      have none: "List.find (\<lambda>g. gen_id g = can_id ?r \<and> gen_owner_id g = can_owner_id ?r \<and>
          live_status (gen_status g)) (generations (w_db w1)) = None"
        using refused \<open>err_is ErrGenerationNotCancellable err\<close>
        by (auto simp: sql_request_cancel_def update_generation_def no_rows_def
            split: option.splits if_splits)
      then have "db' = w_db w1"
        using refused(3) by (simp add: sql_request_cancel_def update_generation_def)
      have stopped: "\<not> live_status (gen_status h)"
        if "find_row (w_db v) (gen_id g) = Some h" "gen_owner_id h = gen_owner_id g" for h
      proof -
        from that(1) refused(4) \<open>db' = w_db w1\<close> have "find_row (w_db w1) (gen_id g) = Some h" by simp
        from find_row_in [OF this] that(2) find_None_notin [OF none] assms(5,6) show ?thesis by auto
      qed
      show ?thesis by (rule halted_settled [OF ran assms(2-4) stopped])
    qed
    from halted_later [OF this state_io_relD [OF dget.run get] v] show ?thesis .
  qed
qed

context check_service
begin

lemma stop_moves: "state_io_rel top_run (cancel_stop service ctx g)"
  unfolding cancel_stop_def
  by (intro tops.guarantee_constructs check_moves top_run_mono [OF run_with_attempts])

lemma cancel_moves: "state_io_rel top_run (GenerationCancel_Exec service retention ctx request)"
  unfolding GenerationCancel_Exec_def
  by (intro tops.guarantee_constructs stop_moves top_run_mono [OF run_cancel_found])

lemma get_rest_moves: "state_io_rel top_run (do { g \<leftarrow> get_checked service g; with_attempts ctx g })"
  unfolding get_checked_def
  by (intro tops.guarantee_constructs check_moves top_run_mono [OF run_with_attempts])

lemma get_moves: "state_io_rel top_run (GenerationGet_Exec service ctx request)"
  unfolding GenerationGet_Exec_def get_checked_def
  by (intro tops.guarantee_constructs check_moves top_run_mono [OF run_with_attempts]
        top_run_mono [OF dget.run])

lemma cancel_halts:
  assumes "run_state (GenerationCancel_Exec service retention ctx request) w = (Inr view, w')" and "w_tx w = None"
    and "db_inv (w_db w)" and "find_row (w_db w) (gen_id g) = Some g"
    and "gcr_id request = gen_id g" and "gcr_owner_id request = gen_owner_id g"
  shows "halted w g w'"
proof -
  from assms(1) obtain found w1 where found: "run_state (cancel_found retention ctx request) w = (found, w1)"
    and rest: "run_state (case found of
          Inl err \<Rightarrow> State_Monad.return (Inl (Wrap ''cancel generation'' err))
        | Inr g \<Rightarrow> cancel_stop service ctx g) w1 = (Inr view, w')"
    by (auto simp: GenerationCancel_Exec_def split: if_splits prod.splits)
  from rest obtain h where h: "found = Inr h" by (cases found) auto
  have halted: "halted w g w1" by (rule cancel_found_halts [OF found [unfolded h] assms(2-6)])
  have w1: "w_tx w1 = None" "db_inv (w_db w1)"
    using world_run_inv [OF state_io_relD [OF run_cancel_found found] assms(2,3)] by simp_all
  from rest h have "run_state (cancel_stop service ctx h) w1 = (Inr view, w')" by simp
  with stop_moves have "top_run w1 w'" by (rule state_io_relD)
  with w1(1) have "world_run w1 w'" by (simp add: top_run_def)
  with halted w1 show ?thesis by (blast intro: halted_later)
qed

end

section \<open>Properties\<close>

lemma sample_check_service: "check_service sample_service"
  by (rule check_service.intro [OF sample_lawful sample_transactor])


lemma sample_cancelled:
  "\<not> isl (fst (run_state (GenerationCancel_Exec sample_service 1000 None
     \<lparr>gcr_id = 1, gcr_owner_id = 2\<rparr>) (sample_world sample_db)))"
  by code_simp


text \<open>Reading a settled generation asks the provider nothing: the answer is the row as it settled.\<close>

theorem settled_get_is_a_read:
  assumes "lawful (gc_registry service)" and "transactor (gc_transactor service)"
    and "run_state (GenerationGet_Exec service ctx request) w = (Inr view, w')"
    and "w_tx w = None" and "db_inv (w_db w)" and "find_row (w_db w) (ggr_id request) = Some g"
    and "\<not> live_status (gen_status g)" and "\<not> expired (w_db_clock w') g"
  shows "w_trace w' = w_trace w \<and> gv_id view = gen_id g \<and> gv_status view = gen_status g"
proof -
  from assms(3) obtain h w1 where get: "run_state (PgGenerationGet_Exec ctx (ggr_id request) (ggr_owner_id request)) w =
      (Inr h, w1)"
    and rest: "run_state (do { g \<leftarrow> get_checked service h; with_attempts ctx g }) w1 = (Inr view, w')"
    by (auto simp: GenerationGet_Exec_def split: if_splits sum.splits prod.splits)
  have trace: "w_trace w1 = w_trace w"
    using state_io_relD [OF dget.silent_read get] by (simp add: silent_def)
  from get show ?thesis
  proof (cases rule: dget.answered)
    case (1 sl w0 a d db')
    have w0: "world_run w w0" by (rule state_io_relD [OF run_next_slot 1(1)])
    have inv: "db_inv (w_db w0)" using slot_inv [OF 1(1) assms(4,5)] by simp
    from 1(2,3) obtain row where row: "row \<in> set (generations (w_db w0))" "gen_id row = ggr_id request"
      and h: "h = row\<lparr>gen_read_at := w_db_clock w0\<rparr>"
      by (auto simp: sql_get_def split: option.splits dest: find_Some_in)
    have found: "find_row (w_db w0) (ggr_id request) = Some row"
      using row find_row_iff [OF db_inv_distinct [OF inv]] by blast
    from world_tracks [OF w0 assms(4-6)] row_run_settled [OF _ assms(7)] have
      kept: "row = g \<or> expired (w_db_clock w0) g" using found by auto
    have later: "w_db_clock w0 \<le> w_db_clock w1" by (simp add: 1(4) elapse_def)
    show ?thesis
    proof (cases "row = g")
      case True
      have "row_inv g" using db_inv_row [OF inv found] True by simp
      then have "gen_settled_at h \<noteq> None" using assms(7) h True by (simp add: row_inv_def)
      with rest have view: "run_state (with_attempts ctx h) w1 = (Inr view, w')"
        by (simp add: get_checked_def)
      have "w_trace w' = w_trace w1"
        using state_io_relD [OF silent_with_attempts view] by (simp add: silent_def)
      with trace with_attempts_view [OF view] h True show ?thesis by simp
    next
      case False
      have "w_db_clock w1 \<le> w_db_clock w'"
        using state_io_relD [OF check_service.get_rest_moves [OF check_service.intro [OF assms(1,2)]] rest]
          world_run_inv [OF state_io_relD [OF dget.run get] assms(4,5)]
        by (simp add: top_run_def world_run_def)
      with kept False later assms(8) show ?thesis
        by (auto simp: expired_def split: option.splits)
    qed
  qed
qed

definition sample_stopped :: database where
  "sample_stopped = put_row (settle_row 20 sample_settle (new_row 10 sample_request)) sample_db"

lemma sample_stopped_inv: "db_inv sample_stopped"
  unfolding sample_stopped_def using db_step_inv [OF sample_settled_step sample_db_inv] .

lemma sample_stopped_find:
  "find_row sample_stopped 1 = Some (settle_row 20 sample_settle (new_row 10 sample_request))"
  using sample_find
  by (simp add: sample_stopped_def find_row_put_row sample_request_def)

lemma sample_stopped_read:
  "\<not> isl (fst (run_state (GenerationGet_Exec sample_service None \<lparr>ggr_id = 1, ggr_owner_id = 2\<rparr>)
     (sample_world sample_stopped))) \<and>
   w_db_clock (snd (run_state (GenerationGet_Exec sample_service None \<lparr>ggr_id = 1, ggr_owner_id = 2\<rparr>)
     (sample_world sample_stopped))) = 20"
  by code_simp

theorem settled_get_is_a_read_witness:
  "w_trace (snd (run_state (GenerationGet_Exec sample_service None \<lparr>ggr_id = 1, ggr_owner_id = 2\<rparr>)
     (sample_world sample_stopped))) = []"
proof -
  let ?run = "run_state (GenerationGet_Exec sample_service None \<lparr>ggr_id = 1, ggr_owner_id = 2\<rparr>)
    (sample_world sample_stopped)"
  let ?g = "settle_row 20 sample_settle (new_row 10 sample_request)"
  from sample_stopped_read have run: "?run = (Inr (projr (fst ?run)), snd ?run)" and clock: "w_db_clock (snd ?run) = 20"
    by (cases "fst ?run"; simp add: prod_eq_iff)+
  have at: "w_tx (sample_world sample_stopped) = None" "w_db (sample_world sample_stopped) = sample_stopped"
    by (simp_all add: sample_world_def)
  have found: "find_row sample_stopped (ggr_id \<lparr>ggr_id = 1, ggr_owner_id = 2\<rparr>) = Some ?g"
    using sample_stopped_find by simp
  have "\<not> live_status (gen_status ?g)" "\<not> expired (w_db_clock (snd ?run)) ?g"
    by (simp_all add: clock sample_settle_def live_status_def expired_def)
  from settled_get_is_a_read [OF sample_lawful sample_transactor run at(1), unfolded at, OF sample_stopped_inv found this]
  show ?thesis by (simp add: sample_trace)
qed

text \<open>What the services answer for a generation its owner does not have, as for one that does not exist.\<close>

lemma missing_generation_answers:
  assumes "w_sched w = []"
    and "\<forall>g \<in> set (generations (w_db w)). \<not> (gen_id g = i \<and> gen_owner_id g = owner)"
    and "i \<noteq> 0" and "owner \<noteq> 0"
  shows "run_state (GenerationGet_Exec service None \<lparr>ggr_id = i, ggr_owner_id = owner\<rparr>) w =
           (Inl (Wrap ''get generation'' (Wrap ''execute query''
              (Join (Sentinel ErrNoRows) (Sentinel ErrGenerationGetNotFound)))), w) \<and>
         run_state (GenerationCancel_Exec service retention None \<lparr>gcr_id = i, gcr_owner_id = owner\<rparr>) w =
           (Inl (Wrap ''cancel generation'' (Wrap ''execute query''
              (Join (Sentinel ErrNoRows) (Sentinel ErrGenerationGetNotFound)))), w) \<and>
         (non_negative cursor \<longrightarrow>
            run_state (GenerationStream_Exec registry None
              \<lparr>gsr_id = i, gsr_owner_id = owner, gsr_starting_after = cursor\<rparr>) w =
            (Inl (Wrap ''get generation'' (Wrap ''execute query''
               (Join (Sentinel ErrNoRows) (Sentinel ErrGenerationGetNotFound)))), w))"
proof -
  have none: "List.find (\<lambda>g. gen_id g = i \<and> gen_owner_id g = owner) (generations (w_db w)) = None"
    "List.find (\<lambda>g. gen_id g = i \<and> gen_owner_id g = owner \<and> live_status (gen_status g))
       (generations (w_db w)) = None"
    using assms(2) by (auto simp: find_None_iff)
  have get: "run_state (PgGenerationGet_Exec None i owner) w =
      (Inl (Wrap ''execute query'' (Join (Sentinel ErrNoRows) (Sentinel ErrGenerationGetNotFound))), w)"
    using assms(1) none(1)
    by (simp add: PgGenerationGet_Exec_def statement_def next_slot_def run_statement_def quiet_slot_def
        over_def cut_short_def time_left_def sql_get_def no_rows_def)
  have cancel: "run_state (PgGenerationRequestCancel_Exec None \<lparr>can_id = i, can_owner_id = owner,
        can_error = reason, can_retention = retention\<rparr>) w =
      (Inl (Wrap ''execute query'' (Join (Sentinel ErrNoRows) (Sentinel ErrGenerationNotCancellable))), w)" for reason
    using assms(1) none(2)
    by (simp add: PgGenerationRequestCancel_Exec_def statement_def next_slot_def run_statement_def quiet_slot_def
        over_def cut_short_def time_left_def sql_request_cancel_def update_generation_def no_rows_def)
  show ?thesis
    using assms(3,4) get cancel
    by (simp add: GenerationGet_Exec_def GenerationCancel_Exec_def cancel_found_def GenerationStream_Exec_def)
qed

text \<open>With nothing else about, a statement answers what it reads, in or out of a transaction.\<close>

lemma alone_reads:
  assumes "w_sched w = []" and "w_tx w = None \<or> w_tx w = Some (w_db_clock w)"
  shows "run_state (PgGenerationCountLive_Exec None owner purpose hold) w =
           (Inr (count_live (w_db_clock w) owner purpose hold (w_db w)), w)"
    and "run_state (PgGenerationUsageSum_Exec None owner purpose durations) w =
           (map_error execute_query (fst (sql_usage_sum (w_db_clock w) owner purpose durations (w_db w))), w)"
  using assms
  by (auto simp: PgGenerationCountLive_Exec_def PgGenerationUsageSum_Exec_def statement_def next_slot_def run_statement_def
      quiet_slot_def over_def cut_short_def time_left_def sql_count_live_def sql_usage_sum_def Let_def)

text \<open>Whether every total of the windows fits its column.\<close>

definition totals_answer :: "time \<Rightarrow> generation_submission \<Rightarrow> database \<Rightarrow> bool" where
  "totals_answer txn r db \<longleftrightarrow> (\<forall>win \<in> set (caps_windows (submit_caps r)). totals_fit (usage_in txn r db win))"

lemma admission_alone:
  assumes "w_sched w = []" and "w_tx w = Some (w_db_clock w)" and "totals_answer (w_db_clock w) r (w_db w)"
    and "run_state (submit_admit None r) w = (answer, w')"
  shows "(answer = None) = within_caps (w_db_clock w) r (w_db w)" and "answer \<noteq> None \<Longrightarrow> \<exists>u. answer = Some (UsageCap u)"
proof -
  let ?wins = "sort_key win_duration (caps_windows (submit_caps r))"
  have used: "fst (sql_usage_sum (w_db_clock w) (sb_owner_id r) (sb_purpose r) (map win_duration ?wins) (w_db w)) =
      Inr (map (usage_in (w_db_clock w) r (w_db w)) ?wins)"
    using assms(3) by (simp add: totals_answer_def sql_usage_sum_def usage_in_def [abs_def] comp_def Let_def)
  note reads = alone_reads [OF assms(1) disjI2 [OF assms(2)]]
  obtain windows v where windows: "run_state (admit_windows None r) w = (windows, v)" by fastforce
  have refused: "\<exists>u. windows = Some (UsageCap u)" if some: "windows \<noteq> None"
  proof -
    from some windows have "run_state (refuse_windows (submit_scope r) ?wins
        (map (usage_in (w_db_clock w) r (w_db w)) ?wins)) w = (windows, v)"
      by (auto simp: admit_windows_def reads used Let_def split: if_splits)
    from refuse_windows_answer [OF this] some show ?thesis by (cases windows) auto
  qed
  have "answer = windows \<or> (\<exists>u. answer = Some (UsageCap u))"
    using assms(4) windows
    by (auto simp: submit_admit_def admit_concurrency_def reads split: option.splits if_splits)
  with refused show cap: "answer \<noteq> None \<Longrightarrow> \<exists>u. answer = Some (UsageCap u)" by blast
  have "err_is ErrUsageCapReached (UsageCap u)" for u by simp
  with admit_answer [OF assms(4,2)] cap show "(answer = None) = within_caps (w_db_clock w) r (w_db w)" by blast
qed

text \<open>The generation a submit creates is one more live one, and changes no usage.\<close>

lemma created_counts:
  assumes "sql_submit now (submit_row new_id traceparent r key) db = (Inr g, db1)"
    and "gen_id g = new_id" and "new_id \<notin> gen_id ` set (generations db)"
  shows "count_live txn (sb_owner_id r) (sb_purpose r) window db1 = count_live txn (sb_owner_id r) (sb_purpose r) window db + 1"
    and "usage_in txn r db1 = usage_in txn r db"
proof -
  from assms have "db1 = db\<lparr>generations := generations db @ [new_row now (submit_row new_id traceparent r key)]\<rparr>"
    by (auto simp: sql_submit_def find_Some_iff split: if_splits option.splits)
  then show "count_live txn (sb_owner_id r) (sb_purpose r) window db1 =
      count_live txn (sb_owner_id r) (sb_purpose r) window db + 1"
    and "usage_in txn r db1 = usage_in txn r db"
    by (simp_all add: count_live_def new_row_def submit_row_def live_status_def usage_in_def [abs_def] window_totals_def
        window_records_def)
qed

text \<open>C30: A summary counts what admission counts. With nothing else about, the transaction of a submit of
  the owner for the purpose that records a new generation admits it exactly when the numbers of the
  summary leave room for it under its caps: fewer live generations than the concurrency cap, which the new
  one then fills, and usage short of each limit of each window. It refuses with the cap reached
  otherwise, and with nothing else.\<close>

theorem summary_counts_as_admission:
  assumes "run_state (UsageSummary_Exec purposes None
       \<lparr>usr_owner_id = sb_owner_id r, usr_purpose = sb_purpose r,
        usr_windows = map win_duration (caps_windows (submit_caps r))\<rparr>) w = (Inr s, w')"
    and "w_sched w = []" and "w_tx w = None" and "new_id \<notin> gen_id ` set (generations (w_db w))"
    and "run_state (submit_body None (submit_row new_id traceparent r key) r) (begun w) =
           ((err, Some result, refusal), v)" and "sres_created result"
  shows "w_db w' = w_db w \<and> refusal = err \<and>
         (err = None) =
           ((\<forall>n. caps_concurrency (submit_caps r) = Some n \<longrightarrow> uss_live s < n) \<and>
            list_all2 (\<lambda>win used. usw_duration used = win_duration win \<and>
                \<not> reached (win_input_tokens win) (usw_input_tokens used) \<and>
                \<not> reached (win_output_tokens win) (usw_output_tokens used))
              (caps_windows (submit_caps r)) (uss_windows s)) \<and>
         (err \<noteq> None \<longrightarrow> (\<exists>u. err = Some (UsageCap u)))"
proof -
  let ?wins = "caps_windows (submit_caps r)" and ?now = "w_db_clock w" and ?row = "submit_row new_id traceparent r key"
  let ?tx = "w\<lparr>w_tx := Some ?now\<rparr>"
  note reads = alone_reads [OF assms(2) disjI1 [OF assms(3)]]
  from assms(1) have same: "w' = w" and fits: "totals_answer ?now r (w_db w)"
    and s: "s = \<lparr>uss_live = count_live ?now (sb_owner_id r) (sb_purpose r) UnknownOutcomeHold (w_db w),
      uss_windows = map (\<lambda>win. summary_window (win_duration win) (usage_in ?now r (w_db w) win)) ?wins\<rparr>"
    by (auto simp: UsageSummary_Exec_def reads sql_usage_sum_def totals_answer_def usage_in_def Let_def map2_map_map comp_def
        split: if_splits)
  have begun: "begun w = ?tx" using assms(2) by (simp add: begun_def next_slot_def)
  obtain res db1 where insert: "sql_submit ?now ?row (w_db w) = (res, db1)" by fastforce
  have stored: "run_state (PgGenerationSubmit_Exec None ?row) ?tx =
      (case res of Inl e \<Rightarrow> Inl (execute_query e)
        | Inr g \<Rightarrow> Inr \<lparr>sres_generation = g, sres_created = (gen_id g = new_id)\<rparr>,
       ?tx\<lparr>w_db := db1\<rparr>)"
    using assms(2) insert
    by (auto simp: PgGenerationSubmit_Exec_def statement_def next_slot_def run_statement_def quiet_slot_def over_def
        cut_short_def time_left_def submit_row_def Let_def split: sum.splits)
  from assms(5,6) obtain g where g: "res = Inr g" "gen_id g = new_id" and refusal: "refusal = err"
    and admit: "run_state (submit_admit None r) (?tx\<lparr>w_db := db1\<rparr>) = (err, v)"
    unfolding begun submit_body_def
    by (auto simp: stored split: sum.splits prod.splits if_splits)
  note counts = created_counts [OF insert [unfolded g(1)] g(2) assms(4)]
  have "totals_answer (w_db_clock (?tx\<lparr>w_db := db1\<rparr>)) r (w_db (?tx\<lparr>w_db := db1\<rparr>))"
    using fits by (simp add: totals_answer_def counts)
  from admission_alone [OF _ _ this admit] assms(2)
  have answer: "(err = None) = within_caps ?now r db1" "err \<noteq> None \<Longrightarrow> \<exists>u. err = Some (UsageCap u)" by simp_all
  have "within_caps ?now r db1 =
      ((\<forall>n. caps_concurrency (submit_caps r) = Some n \<longrightarrow> uss_live s < n) \<and>
       list_all2 (\<lambda>win used. usw_duration used = win_duration win \<and>
           \<not> reached (win_input_tokens win) (usw_input_tokens used) \<and>
           \<not> reached (win_output_tokens win) (usw_output_tokens used)) ?wins (uss_windows s))"
    by (simp add: within_caps_def counts s window_open_def summary_window_def list_all2_conv_all_nth
        all_set_conv_all_nth add1_zle_eq)
  with answer same refusal show ?thesis by simp
qed

definition sample_summary :: usage_summary_request where
  "sample_summary = \<lparr>usr_owner_id = 2, usr_purpose = ''chat'', usr_windows = [5]\<rparr>"

text \<open>One generation of the owner is live: a cap of one leaves no room.\<close>

definition sample_full :: generation_submission where
  "sample_full = sample_asking \<lparr>caps_concurrency = Some 1,
     caps_windows = [\<lparr>win_duration = 5, win_input_tokens = Some 10, win_output_tokens = None\<rparr>]\<rparr>"

lemma sample_summary_answer:
  "fst (run_state (UsageSummary_Exec [''chat''] None sample_summary) (sample_world sample_db)) =
     Inr \<lparr>uss_live = 1, uss_windows =
       [\<lparr>usw_duration = 5, usw_input_tokens = 0, usw_output_tokens = 0\<rparr>]\<rparr>"
  by code_simp

lemma sample_full_created:
  "case fst (run_state (submit_body None (submit_row 5 None sample_full [121]) sample_full) (begun (sample_world sample_db))) of
     (err, vars, refusal) \<Rightarrow> (case vars of None \<Rightarrow> False | Some result \<Rightarrow> sres_created result)"
  by code_simp

theorem summary_counts_as_admission_witness:
  "\<exists>u vars. fst (run_state (submit_body None (submit_row 5 None sample_full [121]) sample_full)
     (begun (sample_world sample_db))) = (Some (UsageCap u), vars)"
proof -
  let ?run = "run_state (UsageSummary_Exec [''chat''] None sample_summary) (sample_world sample_db)"
  let ?s = "\<lparr>uss_live = 1, uss_windows = [\<lparr>usw_duration = 5, usw_input_tokens = 0, usw_output_tokens = 0\<rparr>]\<rparr>"
  let ?body = "run_state (submit_body None (submit_row 5 None sample_full [121]) sample_full) (begun (sample_world sample_db))"
  have request: "sample_summary = \<lparr>usr_owner_id = sb_owner_id sample_full, usr_purpose = sb_purpose sample_full,
      usr_windows = map win_duration (caps_windows (submit_caps sample_full))\<rparr>"
    by (simp add: sample_summary_def sample_full_def sample_asking_def submit_caps_def)
  have run: "?run = (Inr ?s, snd ?run)" using sample_summary_answer by (simp add: prod_eq_iff)
  have at: "w_sched (sample_world sample_db) = []" "w_tx (sample_world sample_db) = None"
    "5 \<notin> gen_id ` set (generations (w_db (sample_world sample_db)))"
    by (simp_all add: sample_world_def sample_db_def new_row_def sample_request_def)
  obtain err result refusal where body: "?body = ((err, Some result, refusal), snd ?body)" "sres_created result"
    using sample_full_created by (auto simp: prod_eq_iff split: prod.splits option.splits)
  from summary_counts_as_admission [OF run [unfolded request] at body] have "\<exists>u. err = Some (UsageCap u)"
    by (simp add: sample_full_def sample_asking_def submit_caps_def)
  with body(1) show ?thesis by (metis fst_conv)
qed

text \<open>A stream only reads. With nothing else about, it leaves the tables as they were and starts
  nothing, it is opened only on its owner's streamed generation once the provider named the call,
  and its caller gets the provider's events in order, up to the first error.\<close>

theorem stream_reads_only:
  assumes "streams_lawfully registry" and "w_sched w = []"
    and "run_state (GenerationStream_Exec registry ctx request) w = (Inr events, w1)"
    and "run_state events w1 = (sent, w2)"
  shows "w_db w2 = w_db w \<and> w_trace w2 = w_trace w \<and>
         (\<exists>g call stream received. g \<in> set (generations (w_db w)) \<and> gen_id g = gsr_id request \<and>
            gen_owner_id g = gsr_owner_id request \<and> gen_streamed g \<and> gen_provider_call_id g = Some call \<and>
            registry_Streaming registry (gen_provider g) = Inr stream \<and>
            run_state (stream ctx call (gsr_starting_after request)) w1 = (received, w2) \<and>
            sent = forwardEvents received)"
proof -
  from assms(3) obtain h where get: "run_state (PgGenerationGet_Exec ctx (gsr_id request) (gsr_owner_id request)) w =
      (Inr h, w1)"
    and streamed: "gen_streamed h"
    and open_it: "(case gen_provider_call_id h of
        None \<Rightarrow> Inl (Annotate (Sentinel ErrStreamUnavailable) ''no provider call yet'')
      | Some call \<Rightarrow>
          (case registry_Streaming registry (gen_provider h) of
             Inl err \<Rightarrow> Inl (Wrap (''provider '' @ quoted (gen_provider h)) err)
           | Inr stream \<Rightarrow> Inr (do {
               events \<leftarrow> stream ctx call (gsr_starting_after request);
               State_Monad.return (forwardEvents events) }))) = Inr events"
    by (auto simp: GenerationStream_Exec_def split: if_splits sum.splits prod.splits)
  from open_it obtain call stream where call: "gen_provider_call_id h = Some call"
    and stream: "registry_Streaming registry (gen_provider h) = Inr stream"
    and events: "events = do { events \<leftarrow> stream ctx call (gsr_starting_after request);
               State_Monad.return (forwardEvents events) }"
    by (auto split: option.splits sum.splits)
  from events assms(4) obtain received where
    received: "run_state (stream ctx call (gsr_starting_after request)) w1 = (received, w2)"
    "sent = forwardEvents received" by (auto split: prod.splits)
  have provider: "streaming_provider stream" by (rule lawful_Streaming [OF assms(1) stream])
  have kept: "w_db w2 = w_db w" "w_trace w2 = w_trace w"
    using state_io_relD [OF dget.untouched_read get] state_io_relD [OF dget.silent_read get]
      state_io_relD [OF streaming_provider.stream_untouched [OF provider] received(1)]
      state_io_relD [OF streaming_provider.stream_silent [OF provider] received(1)] assms(2)
    by (simp_all add: untouched_def silent_def)
  from get obtain g where "g \<in> set (generations (w_db w))" "gen_id g = gsr_id request"
    "gen_owner_id g = gsr_owner_id request" "gen_streamed g = gen_streamed h"
    "gen_provider_call_id g = gen_provider_call_id h" "gen_provider g = gen_provider h"
  proof (cases rule: dget.answered)
    case (1 sl w0 a d db')
    then have "w_db w0 = w_db w" using assms(2) by (auto simp: next_slot_def)
    with 1(2,3) that show ?thesis by (auto simp: sql_get_def split: option.splits dest!: find_Some_in)
  qed
  with kept call stream streamed received show ?thesis by metis
qed

definition sample_events :: "unit streaming" where
  "sample_events = (\<lambda>ctx i cursor. State_Monad.return
     [Inr \<lparr>ev_sequence = 0, ev_data = ''{}'', ev_terminal = False\<rparr>, Inl (Sentinel ErrRetryable),
      Inr \<lparr>ev_sequence = 1, ev_data = ''{}'', ev_terminal = True\<rparr>])"

interpretation replayed: streaming_provider sample_events
  by unfold_locales (simp_all add: sample_events_def runs.guarantee_return silences.guarantee_return
      rests.guarantee_return)

definition sample_streams :: "(unit, generation) registry" where
  "sample_streams = [''openai'' \<mapsto> \<lparr>con_async = None, con_streaming = Some sample_events\<rparr>]"

definition sample_streamed :: database where
  "sample_streamed = sample_db\<lparr>generations :=
     [(new_row 10 sample_request)\<lparr>gen_streamed := True, gen_status := Running,
        gen_provider_call_id := Some ''resp_1''\<rparr>]\<rparr>"

theorem stream_reads_only_witness:
  "\<exists>events w1 w2. run_state (GenerationStream_Exec sample_streams None
       \<lparr>gsr_id = 1, gsr_owner_id = 2, gsr_starting_after = None\<rparr>) (sample_world sample_streamed) = (Inr events, w1) \<and>
     run_state events w1 = ([Inr (0, ''{}''), Inl (Sentinel ErrRetryable)], w2) \<and> w_db w2 = sample_streamed"
proof -
  let ?request = "\<lparr>gsr_id = 1, gsr_owner_id = 2, gsr_starting_after = None\<rparr>"
  have lawful: "streams_lawfully sample_streams"
    by (simp add: streams_lawfully_def sample_streams_def replayed.streaming_provider_axioms)
  have at: "w_sched (sample_world sample_streamed) = []" "w_db (sample_world sample_streamed) = sample_streamed"
    by (simp_all add: sample_world_def)
  obtain events w1 where run: "run_state (GenerationStream_Exec sample_streams None ?request)
      (sample_world sample_streamed) = (Inr events, w1)"
    by (simp add: GenerationStream_Exec_def PgGenerationGet_Exec_def statement_def next_slot_def run_statement_def
        quiet_slot_def over_def cut_short_def time_left_def sql_get_def sample_world_def sample_streamed_def
        sample_db_def sample_request_def new_row_def non_negative_def registry_Streaming_def modeOf_def
        sample_streams_def)
  obtain sent w2 where sent: "run_state events w1 = (sent, w2)" by fastforce
  from stream_reads_only [OF lawful at(1) run sent, unfolded at] obtain g :: generation and call stream received where
    kept: "w_db w2 = sample_streamed" and stream: "registry_Streaming sample_streams (gen_provider g) = Inr stream"
    and received: "run_state (stream None call (gsr_starting_after ?request)) w1 = (received, w2)"
    "sent = forwardEvents received" by blast
  from stream have "stream = sample_events"
    by (auto simp: registry_Streaming_def modeOf_def sample_streams_def split: option.splits if_splits)
  with received have "sent = [Inr (0, ''{}''), Inl (Sentinel ErrRetryable)]"
    by (auto simp: sample_events_def)
  with run sent kept show ?thesis by blast
qed

end
