(* ===== verification/Handlers_Properties.thy ===== *)
theory Handlers_Properties
  imports Handlers Services_Properties Submit_Properties
begin

text \<open>
  What a caller can learn from the handlers of \<open>Handlers\<close>, and what it cannot.
\<close>

section \<open>The statuses a caller may read\<close>

text \<open>Each with its code, its text and no details: what the handlers answer whatever went wrong.\<close>

definition id_answers :: "grpc_status list" where
  "id_answers =
     [status_Error InvalidArgument ''invalid generation id'', status_Error InvalidArgument ''invalid owner id'']"

definition read_answers :: "grpc_status list" where
  "read_answers =
     [status_Error NotFound ''generation not found'', status_Error InvalidArgument ''invalid request'',
      status_Error Internal ''internal error'']"

definition stream_answers :: "grpc_status list" where
  "stream_answers = read_answers @
     [status_Error FailedPrecondition ''generation not submitted for streaming'',
      status_Error FailedPrecondition ''the provider does not stream this generation now: poll it'',
      status_Error Unimplemented ''the provider does not support the Streaming mode'',
      status_Error Unavailable ''stream interrupted: resume after the last event received'']"

definition submit_answers :: "grpc_status list" where
  "submit_answers =
     [status_Error InvalidArgument ''invalid owner id'',
      status_Error Unimplemented ''the provider does not support the requested mode'',
      status_Error Internal ''internal error'']"

definition summary_answers :: "grpc_status list" where
  "summary_answers =
     [status_Error InvalidArgument ''invalid owner id'', status_Error Internal ''internal error'']"

lemma parse_ids_refused: "parse_ids lib generation owner = Inl status \<Longrightarrow> status \<in> set id_answers"
  by (auto simp: parse_ids_def id_answers_def split: option.splits)

section \<open>What the libraries promise\<close>

text \<open>
  A fault answers its code and message and keeps its cause from the caller. Details are added to a
  status without changing it.
\<close>

locale handler_laws =
  fixes lib :: "'p handler_library"
  assumes fault: "hl_fault lib c message cause = status_Error c message"
    and details: "hl_with_details lib status ds = Some detailed \<Longrightarrow> detailed = status\<lparr>st_details := st_details status @ ds\<rparr>"
begin

lemma read_answer: "read_status lib err \<in> set read_answers"
  by (simp add: read_status_def fault read_answers_def)

lemma stream_answer: "streamStatus lib None err \<in> set stream_answers"
  by (simp add: streamStatus_def fault stream_answers_def read_answers_def)

lemma read_internal:
  "(st_code (read_status lib err) = Internal) = (\<not> err_is ErrGenerationGetNotFound err \<and> \<not> err_is ErrInvalidRequest err)"
  by (simp add: read_status_def fault status_Error_def)

lemma cap_status:
  "st_code (newGrpcUsageCapStatus lib u) = ResourceExhausted \<and>
   st_message (newGrpcUsageCapStatus lib u) = err_text (UsageCap u) \<and>
   st_details (newGrpcUsageCapStatus lib u) \<in>
     {[], QuotaFailure (cap_scope u) (cap_limit u) #
        (if cap_retry_after u > 0 then [RetryInfo (hl_duration lib (cap_retry_after u))] else [])}"
  by (auto simp: newGrpcUsageCapStatus_def Let_def status_Error_def split: option.split dest!: details)

lemma submit_answer:
  "submit_status lib err \<in> set submit_answers \<or>
     (err_is ErrInvalidRequest err \<or> err_is ErrUsageCapReached err)"
  by (auto simp: submit_status_def fault submit_answers_def split: option.split dest: as_usage_cap_is)

lemma submit_internal:
  "(st_code (submit_status lib err) = Internal) =
     (\<not> (\<exists>s \<in> {ErrInvalidRequest, ErrUsageCapReached, ErrModeUnsupported}. err_is s err))"
proof (cases "as_usage_cap err")
  case None
  then show ?thesis by (simp add: submit_status_def fault status_Error_def)
next
  case (Some u)
  with as_usage_cap_is [OF Some] cap_status [of u] show ?thesis
    by (simp add: submit_status_def) (simp add: status_Error_def)
qed

lemma stream_internal:
  "(st_code (streamStatus lib None err) = Internal) =
     (\<not> (\<exists>s \<in> {ErrGenerationGetNotFound, ErrInvalidRequest, ErrGenerationNotStreamed, ErrStreamUnavailable,
          ErrModeUnsupported, ErrRetryable}. err_is s err))"
  by (simp add: streamStatus_def fault status_Error_def)

end

definition sample_library :: "'p handler_library" where
  "sample_library =
     \<lparr>hl_parse = (\<lambda>text. if text = ''1'' then Some 1 else if text = ''2'' then Some 2 else if text = ''3'' then Some 3 else None),
      hl_fault = (\<lambda>c message cause. status_Error c message),
      hl_with_details = (\<lambda>status ds. Some (status\<lparr>st_details := st_details status @ ds\<rparr>)),
      hl_from_context = (\<lambda>cause. status_Error DeadlineExceeded (sentinel_text cause)),
      hl_as_duration = (\<lambda>d. case d of None \<Rightarrow> 0 | Some (s, n) \<Rightarrow> s * second + n),
      hl_duration = (\<lambda>d. (d div second, d mod second)),
      hl_health = (\<lambda>ctx. State_Monad.return None)\<rparr>"

interpretation sample_laws: handler_laws sample_library
  by unfold_locales (simp_all add: sample_library_def)

section \<open>Properties\<close>

text \<open>C34: An identifier cannot be probed through any RPC: reading, cancelling and streaming another
  owner's generation, like one that does not exist, answer the same not-found status and change
  nothing.\<close>

theorem foreign_id_is_not_found:
  assumes "parse_ids lib generation owner = Inr (i, owner_id)"
    and "\<forall>g \<in> set (generations (w_db w)). \<not> (gen_id g = i \<and> gen_owner_id g = owner_id)"
    and "w_sched w = []" and "i \<noteq> 0" and "owner_id \<noteq> 0" and "non_negative cursor"
  shows "run_state (grpc_GenerationGet lib service None generation owner) w =
           (Inl (status_Error NotFound ''generation not found''), w) \<and>
         run_state (grpc_GenerationCancel lib service retention None generation owner) w =
           (Inl (status_Error NotFound ''generation not found''), w) \<and>
         run_state (grpc_GenerationStream lib registry send None generation owner cursor) w =
           (([], Refused (status_Error NotFound ''generation not found'')), w)"
  using assms(1,6) missing_generation_answers [OF assms(3,2,4,5)]
  by (simp add: grpc_GenerationGet_def grpc_GenerationCancel_def grpc_GenerationStream_def read_status_def
      streamStatus_def time_Now_def context_error_def over_def)

theorem foreign_id_is_not_found_witness:
  "fst (run_state (grpc_GenerationGet sample_library sample_service None ''1'' ''3'') (sample_world sample_db)) =
     Inl (status_Error NotFound ''generation not found'')"
proof -
  have parsed: "parse_ids (sample_library :: unit handler_library) ''1'' ''3'' = Inr (1, 3)"
    by (simp add: parse_ids_def sample_library_def)
  have none: "\<forall>g \<in> set (generations (w_db (sample_world sample_db))). \<not> (gen_id g = 1 \<and> gen_owner_id g = 3)"
    by (simp add: sample_world_def sample_db_def sample_request_def)
  show ?thesis
    using foreign_id_is_not_found [OF parsed none, of None] by (simp add: sample_world_def non_negative_def)
qed

lemma events_refused:
  "snd (send_events lib left send events n) = Refused status \<Longrightarrow> \<exists>err. status = streamStatus lib left err"
  by (induction lib left send events n rule: send_events.induct) (auto simp: Let_def split: option.splits prod.splits)

context handler_laws
begin

lemma get_refusal:
  "fst (run_state (grpc_GenerationGet lib service ctx generation owner) w) = Inl status \<Longrightarrow>
     status \<in> set (id_answers @ read_answers)"
  by (auto simp: grpc_GenerationGet_def read_answer split: sum.splits prod.splits dest: parse_ids_refused)

lemma cancel_refusal:
  "fst (run_state (grpc_GenerationCancel lib service retention ctx generation owner) w) = Inl status \<Longrightarrow>
     status \<in> set (id_answers @ read_answers)"
  by (auto simp: grpc_GenerationCancel_def read_answer split: sum.splits prod.splits dest: parse_ids_refused)

lemma left_answers:
  "streamStatus lib (context_error ctx now) err \<in> set (id_answers @ stream_answers) \<or>
     context_error ctx now = Some ErrDeadlineExceeded \<and>
       streamStatus lib (context_error ctx now) err = hl_from_context lib ErrDeadlineExceeded"
  using stream_answer [of err] by (auto simp: context_error_def streamStatus_def)

lemma stream_refusal:
  "snd (fst (run_state (grpc_GenerationStream lib registry send ctx generation owner cursor) w)) = Refused status \<Longrightarrow>
     status \<in> set (id_answers @ stream_answers) \<or>
     (\<exists>now. context_error ctx now = Some ErrDeadlineExceeded) \<and> status = hl_from_context lib ErrDeadlineExceeded"
  using left_answers [of ctx]
  by (auto simp: grpc_GenerationStream_def time_Now_def split: sum.splits prod.splits
      dest!: parse_ids_refused events_refused)

lemma summary_refusal:
  assumes "fst (run_state (grpc_UsageSummary lib purposes ctx owner purpose windows) w) = Inl status"
  shows "status \<in> set summary_answers \<or> 
     (\<exists>i err. hl_parse lib owner = Some i \<and> fst (run_state (UsageSummary_Exec purposes ctx
        \<lparr>usr_owner_id = i, usr_purpose = purpose, usr_windows = map (hl_as_duration lib) windows\<rparr>) w) = Inl err \<and>
        err_is ErrInvalidRequest err \<and> status = status_Error InvalidArgument (err_text err))"
  using assms
  by (auto simp: grpc_UsageSummary_def summary_answers_def fault split: option.splits sum.splits prod.splits if_splits)

lemma status_refusal:
  "fst (run_state (grpc_Status lib ctx) w) = Inl status \<Longrightarrow>
     status = status_Error Unavailable ''service dependencies unavailable''"
  by (auto simp: grpc_Status_def fault split: option.splits sum.splits prod.splits)

lemma submit_refusal:
  assumes "fst (run_state (grpc_GenerationSubmit lib service new_id traceparent ctx request) w) = Inl status"
  shows "status \<in> set submit_answers \<or>
     (\<exists>i err. hl_parse lib (ws_owner_id request) = Some i \<and> status = submit_status lib err \<and>
        fst (run_state (GenerationSubmit_Exec service new_id traceparent ctx
          \<lparr>sb_owner_id = i, sb_purpose = ws_purpose request, sb_provider = ws_provider request,
           sb_payload = ws_payload request, sb_variant = ws_variant request, sb_stream = ws_stream request,
           sb_caps = newCoreGenerationCaps lib (ws_caps request)\<rparr>) w) = Inl err \<and>
        (err_is ErrInvalidRequest err \<or> err_is ErrUsageCapReached err))"
  using assms submit_answer
  by (auto simp: grpc_GenerationSubmit_def split: option.splits sum.splits prod.splits)
     (auto simp: submit_answers_def)

end


lemma sample_stream_refused:
  "case snd (fst (run_state (grpc_GenerationStream sample_library (gc_registry sample_service) (\<lambda>n. None) None ''1'' ''2'' None)
     (sample_world sample_db))) of Refused status \<Rightarrow> True | Sent \<Rightarrow> False | Broken e \<Rightarrow> False"
  by code_simp


text \<open>A caller past its caps learns which one and when to come back: a submit the caps refused
  answers RESOURCE_EXHAUSTED with the refusal's message, its details name the scope and the limit,
  and a retry delay is among them exactly when a positive one is known.\<close>

theorem refusal_names_limit:
  assumes "handler_laws lib" and "hl_parse lib (ws_owner_id request) = Some owner"
    and "run_state (GenerationSubmit_Exec service new_id traceparent ctx
       \<lparr>sb_owner_id = owner, sb_purpose = ws_purpose request, sb_provider = ws_provider request,
        sb_payload = ws_payload request, sb_variant = ws_variant request, sb_stream = ws_stream request,
        sb_caps = newCoreGenerationCaps lib (ws_caps request)\<rparr>) w = (Inl (UsageCap u), w')"
    and "\<And>status ds. hl_with_details lib status ds \<noteq> None"
  shows "\<exists>status. run_state (grpc_GenerationSubmit lib service new_id traceparent ctx request) w = (Inl status, w') \<and>
           st_code status = ResourceExhausted \<and> st_message status = ''usage cap reached: '' @ cap_reason u \<and>
           QuotaFailure (cap_scope u) (cap_limit u) \<in> set (st_details status) \<and>
           (\<exists>d. RetryInfo d \<in> set (st_details status)) = (0 < cap_retry_after u)"
proof -
  have "submit_status lib (UsageCap u) = newGrpcUsageCapStatus lib u"
    by (simp add: submit_status_def)
  moreover have "st_details (newGrpcUsageCapStatus lib u) =
      QuotaFailure (cap_scope u) (cap_limit u) #
        (if cap_retry_after u > 0 then [RetryInfo (hl_duration lib (cap_retry_after u))] else [])"
    (is "_ = ?ds")
  proof -
    let ?plain = "status_Error ResourceExhausted (err_text (UsageCap u))"
    obtain detailed where d: "hl_with_details lib ?plain ?ds = Some detailed"
      using assms(4) by blast
    then have "newGrpcUsageCapStatus lib u = detailed"
      by (simp only: newGrpcUsageCapStatus_def Let_def option.case)
    with handler_laws.details [OF assms(1) d] show ?thesis by (simp add: status_Error_def)
  qed
  ultimately show ?thesis
    using assms(2,3) handler_laws.cap_status [OF assms(1), of u]
    by (auto simp: grpc_GenerationSubmit_def) (metis surj_pair)
qed

theorem refusal_names_limit_witness:
  "\<exists>status. fst (run_state (grpc_GenerationSubmit sample_library sample_submit 5 None None
       \<lparr>ws_owner_id = ''2'', ws_purpose = ''chat'', ws_provider = ''openai'', ws_payload = ''{}'',
        ws_variant = 0, ws_stream = False, ws_caps = Some \<lparr>wc_concurrency = Some 0, wc_windows = []\<rparr>\<rparr>)
       (sample_world sample_db)) = Inl status \<and> st_code status = ResourceExhausted \<and>
     (\<nexists>d. RetryInfo d \<in> set (st_details status))"
proof -
  let ?request = "\<lparr>ws_owner_id = ''2'', ws_purpose = ''chat'', ws_provider = ''openai'', ws_payload = ''{}'',
    ws_variant = 0, ws_stream = False, ws_caps = Some \<lparr>wc_concurrency = Some 0, wc_windows = []\<rparr>\<rparr>"
  let ?lib = "sample_library :: unit handler_library"
  let ?run = "run_state (GenerationSubmit_Exec sample_submit 5 None None sample_capped) (sample_world sample_db)"
  have asked: "sample_capped = \<lparr>sb_owner_id = 2, sb_purpose = ws_purpose ?request, sb_provider = ws_provider ?request,
      sb_payload = ws_payload ?request, sb_variant = ws_variant ?request, sb_stream = ws_stream ?request,
      sb_caps = newCoreGenerationCaps ?lib (ws_caps ?request)\<rparr>"
    by (simp add: sample_capped_def sample_asking_def newCoreGenerationCaps_def)
  obtain u where u: "?run = (Inl (UsageCap u), snd ?run)" "cap_retry_after u = 0"
    using sample_capped_refused by (cases "fst ?run") (auto simp: prod_eq_iff split: goerr.splits)
  have parsed: "hl_parse ?lib (ws_owner_id ?request) = Some 2" by (simp add: sample_library_def)
  have "hl_with_details ?lib status ds \<noteq> None" for status ds by (simp add: sample_library_def)
  from refusal_names_limit [OF sample_laws.handler_laws_axioms parsed u(1) [unfolded asked] this] u(2)
  show ?thesis by auto
qed

end
