(* ===== verification/Check_Settles.thy ===== *)
theory Check_Settles
  imports Check_Properties
begin

text \<open>
  When a check leaves its generation settled: once the provider says that the call is over, and, whatever
  the provider says, once the time the call is given has run out.
\<close>

section \<open>Checks that settle what they answer\<close>

text \<open>\<open>settles m\<close>: a generation \<open>m\<close> answers is the row that \<open>m\<close> left settled in the tables.\<close>

definition settles :: "('p, goerr + generation) process \<Rightarrow> bool" where
  "settles m \<longleftrightarrow>
     (\<forall>w g w'. run_state m w = (Inr g, w') \<longrightarrow> w_tx w = None \<longrightarrow> db_inv (w_db w) \<longrightarrow>
        (\<exists>row. find_row (w_db w') (gen_id g) = Some row \<and> g = row\<lparr>gen_read_at := 0\<rparr> \<and>
           \<not> live_status (gen_status row)))"

lemma settlesD:
  "\<lbrakk>settles m; run_state m w = (Inr g, w'); w_tx w = None; db_inv (w_db w)\<rbrakk> \<Longrightarrow>
     \<exists>row. find_row (w_db w') (gen_id g) = Some row \<and> g = row\<lparr>gen_read_at := 0\<rparr> \<and>
       \<not> live_status (gen_status row)"
  unfolding settles_def by blast

lemma settles_error: "settles (State_Monad.return (Inl e))"
  by (simp add: settles_def)

lemma settles_bind:
  assumes "state_io_rel top_run m" and "\<And>a. settles (f a)"
  shows "settles (Monad_Syntax.bind m f)"
  unfolding settles_def
proof (intro allI impI)
  fix w g w'
  assume run: "run_state (Monad_Syntax.bind m f) w = (Inr g, w')" and top: "w_tx w = None" "db_inv (w_db w)"
  from run obtain a w1 where a: "run_state m w = (a, w1)" "run_state (f a) w1 = (Inr g, w')"
    by (rule run_state_bindE)
  with top_run_kept [OF assms(1) a(1) top] settlesD [OF assms(2) a(2)]
  show "\<exists>row. find_row (w_db w') (gen_id g) = Some row \<and> g = row\<lparr>gen_read_at := 0\<rparr> \<and>
      \<not> live_status (gen_status row)" by blast
qed

text \<open>The next step may rely on what the first one answered.\<close>

lemma settles_bind_answer:
  assumes "state_io_rel top_run m"
    and "\<And>w a w'. run_state m w = (a, w') \<Longrightarrow> settles (f a)"
  shows "settles (Monad_Syntax.bind m f)"
  unfolding settles_def
proof (intro allI impI)
  fix w g w'
  assume run: "run_state (Monad_Syntax.bind m f) w = (Inr g, w')" and top: "w_tx w = None" "db_inv (w_db w)"
  from run obtain a w1 where a: "run_state m w = (a, w1)" "run_state (f a) w1 = (Inr g, w')"
    by (rule run_state_bindE)
  with top_run_kept [OF assms(1) a(1) top] settlesD [OF assms(2) [OF a(1)] a(2)]
  show "\<exists>row. find_row (w_db w') (gen_id g) = Some row \<and> g = row\<lparr>gen_read_at := 0\<rparr> \<and>
      \<not> live_status (gen_status row)" by blast
qed

text \<open>A step that hands on what the first one settled, or settles when it failed.\<close>

lemma settles_or:
  assumes "state_io_rel top_run m" and "settles m"
    and "\<And>e. settles (f (Inl e))" and "\<And>g. f (Inr g) = State_Monad.return (Inr g)"
  shows "settles (Monad_Syntax.bind m f)"
  unfolding settles_def
proof (intro allI impI)
  fix w g w'
  assume run: "run_state (Monad_Syntax.bind m f) w = (Inr g, w')" and top: "w_tx w = None" "db_inv (w_db w)"
  from run obtain a w1 where a: "run_state m w = (a, w1)" "run_state (f a) w1 = (Inr g, w')"
    by (rule run_state_bindE)
  show "\<exists>row. find_row (w_db w') (gen_id g) = Some row \<and> g = row\<lparr>gen_read_at := 0\<rparr> \<and>
      \<not> live_status (gen_status row)"
  proof (cases a)
    case (Inl e)
    with top_run_kept [OF assms(1) a(1) top] settlesD [OF assms(3)] a(2) show ?thesis by blast
  next
    case (Inr h)
    with a assms(4) have "run_state m w = (Inr g, w')" by simp
    from settlesD [OF assms(2) this top] show ?thesis .
  qed
qed

context check_service
begin

lemma commit_settles: "settles (check_commit service ctx g status message failure call)"
  unfolding settles_def
proof (intro allI impI)
  fix w settled w'
  assume run: "run_state (check_commit service ctx g status message failure call) w = (Inr settled, w')"
    and top: "w_tx w = None" and inv: "db_inv (w_db w)"
  let ?r = "commit_request (gc_retention service) g status message failure"
  have begun: "db_inv (w_db (begun w))"
    using run_begun [OF top] top inv world_run_inv [of w "(begun w)\<lparr>w_tx := None\<rparr>"] by simp
  from run top show "\<exists>row. find_row (w_db w') (gen_id settled) = Some row \<and> settled = row\<lparr>gen_read_at := 0\<rparr> \<and>
      \<not> live_status (gen_status row)"
  proof (rule commit_cases)
    fix row t1 t2 t3
    assume committed: "settle_transaction t1 t2 t3 ?r (call_response call) (usage_record g call) (w_db (begun w)) =
        (Inr row, w_db w')"
      and "\<And>x. (Inr settled :: goerr + generation) = Inr x \<Longrightarrow> x = row"
    then have same: "settled = row" by blast
    from settle_transaction_left [OF committed begun] obtain old where
      old: "settle_match ?r old" "find_row (w_db w') (set_id ?r) = Some (settle_row t1 ?r old)"
        "row = (settle_row t1 ?r old)\<lparr>gen_read_at := 0\<rparr>" by metis
    have "db_inv (w_db w')" by (rule settle_transaction_inv [OF committed begun])
    with old(2) have "row_inv (settle_row t1 ?r old)" by (rule db_inv_row [rotated])
    then have "\<not> live_status (gen_status (settle_row t1 ?r old))"
      by (auto simp: row_inv_def settle_row_def)
    with old same show ?thesis
      by (intro exI [of _ "settle_row t1 ?r old"]) (simp add: settle_match_def settle_row_def)
  next
    assume "\<And>x. (Inr settled :: goerr + generation) \<noteq> Inr x"
    then show ?thesis by blast
  qed
qed

lemma settleFailure_settles: "settles (check_settleFailure service ctx g message class cause response)"
  unfolding check_settleFailure_def by (intro settles_bind moves.log moves.now commit_settles)

lemma settle_settles: "settles (check_settle service ctx g call)"
  unfolding check_settle_def Let_def
  by (auto intro!: settles_bind moves.log commit_settles split: prod.splits)

lemma observe_settle_settles: "settles (observe_settle service ctx g start call since)"
proof -
  let ?relabel = "(if call_state call = CallCancelled \<and> gen_cancel_requested_at g = None \<and> since = None
        then do {
          res \<leftarrow> PgGenerationGet_Exec ctx (gen_id g) (gen_owner_id g);
          State_Monad.return
            (case res of
               Inl err \<Rightarrow> Inl (Wrap ''re-read generation'' err)
             | Inr current \<Rightarrow>
                 Inr (g\<lparr>gen_cancel_requested_at := gen_cancel_requested_at current\<rparr>))
        }
        else State_Monad.return (Inr g)) :: ('p, goerr + generation) process"
  have run: "state_io_rel top_run ?relabel"
    by (intro tops.guarantee_constructs moves.get_row)
  have "settles (do {
       settled \<leftarrow> check_settle service ctx h call;
       case settled of
         Inl err \<Rightarrow>
           if err_is ErrRefused err \<and> gen_read_at h - start \<ge> runCeiling + stopRetryWindow
           then check_settleFailure service ctx h failureNotRecorded ProviderFailed (err_text err) None
           else State_Monad.return (Inl err)
       | Inr settled \<Rightarrow> State_Monad.return (Inr settled)
     })" for h
    by (rule settles_or [OF moves.settle settle_settles])
       (simp_all add: settleFailure_settles settles_error)
  then show ?thesis
    unfolding observe_settle_def by (intro settles_bind run) (simp add: settles_error split: sum.split)
qed

text \<open>A look at the call that leaves nothing to a later check settles the generation.\<close>

lemma observe_settles:
  assumes "gen_start_requested_at g = Some start" and "gen_provider_call_id g = Some i"
    and "\<And>connector res since w w'. registry_Async (gc_registry service) (gen_provider g) = Inr connector \<Longrightarrow>
           run_state (check_ask ctx connector g start i) w = ((res, since), w') \<Longrightarrow>
           verdict_of g res since \<noteq> Leave"
  shows "settles (check_observe service ctx g)"
proof (cases "registry_Async (gc_registry service) (gen_provider g)")
  case (Inl err)
  then show ?thesis by (simp add: check_observe_def settleFailure_settles)
next
  case (Inr connector)
  then have provider: "async_provider connector" by (rule lawful_Async [OF lawful_registry])
  have "settles (case verdict_of g res since of
                 Settle call \<Rightarrow> observe_settle service ctx g start call since
               | Leave \<Rightarrow> State_Monad.return (Inr g)
               | Fail message class reason \<Rightarrow>
                   check_settleFailure service ctx g message class reason None)"
    if "run_state (check_ask ctx connector g start i) w = ((res, since), w')" for res since w w'
    using assms(3) [OF Inr that] by (cases "verdict_of g res since") (simp_all add: observe_settle_settles settleFailure_settles)
  then show ?thesis
    unfolding check_observe_def Inr sum.case assms(1,2) prod.case option.case
    by (intro settles_bind_answer moves.ask provider) (auto split: prod.split)
qed

lemma ask_runs:
  "async_provider (connector :: ('p, generation) async) \<Longrightarrow>
     state_io_rel top_run (check_ask ctx connector g start i)"
  by (rule moves.ask)

end

section \<open>Properties\<close>

text \<open>
  The time a call is given has run out: it ran for its ceiling, or its owner asked to stop it, and stops
  have been tried for their whole window.
\<close>

definition out_of_time :: "generation \<Rightarrow> time \<Rightarrow> bool" where
  "out_of_time g start \<longleftrightarrow>
     runCeiling + stopRetryWindow \<le> gen_read_at g - start \<or>
     (\<exists>t. gen_cancel_requested_at g = Some t \<and> stopRetryWindow \<le> gen_read_at g - t)"

lemma out_of_time_stops:
  assumes "out_of_time g start"
  shows "\<exists>since. stop_wanted g start = Some since \<and> stopRetryWindow \<le> gen_read_at g - since"
proof -
  have pos: "0 \<le> stopRetryWindow" by (simp add: stopRetryWindow_def)
  from assms show ?thesis
    unfolding out_of_time_def
  proof (elim disjE exE conjE)
    assume "runCeiling + stopRetryWindow \<le> gen_read_at g - start"
    with pos show ?thesis by (auto simp: stop_wanted_def Let_def split: option.splits)
  next
    fix t assume "gen_cancel_requested_at g = Some t" "stopRetryWindow \<le> gen_read_at g - t"
    then show ?thesis by (auto simp: stop_wanted_def Let_def)
  qed
qed

lemma out_of_time_verdict:
  assumes "out_of_time g start" and "run_state (check_ask ctx connector g start i) w = ((res, since), w')"
  shows "verdict_of g res since \<noteq> Leave"
proof -
  from out_of_time_stops [OF assms(1)] obtain t where
    t: "stop_wanted g start = Some t" "stopRetryWindow \<le> gen_read_at g - t" by blast
  from assms(2) have "since = Some t"
    by (simp add: check_ask_def ask_stop_def t(1) split: prod.splits)
  with t(2) show ?thesis by (auto simp: verdict_of_def Let_def split: sum.splits)
qed

text \<open>What the provider answered when a check asked it: \<open>asked service ctx g start i w res\<close>.\<close>

definition asked ::
  "'p generation_check \<Rightarrow> ctx \<Rightarrow> generation \<Rightarrow> time \<Rightarrow> string \<Rightarrow> 'p world \<Rightarrow> goerr + call \<Rightarrow> bool" where
  "asked service ctx g start i w res \<longleftrightarrow>
     (\<exists>connector since w'. registry_Async (gc_registry service) (gen_provider g) = Inr connector \<and>
        run_state (check_ask ctx connector g start i) w = ((res, since), w'))"

text \<open>An answer that leaves the call to a later check: it is not over yet, or a later try may tell.\<close>

definition undecided :: "goerr + call \<Rightarrow> bool" where
  "undecided res \<longleftrightarrow>
     (case res of
        Inr call \<Rightarrow> \<not> Terminal (call_state call)
      | Inl err \<Rightarrow> err_is ErrRetryable err \<and> \<not> err_is ErrResponseTooLarge err)"

lemma leave_undecided: "verdict_of g res since = Leave \<Longrightarrow> undecided res"
  by (auto simp: verdict_of_def undecided_def Let_def split: sum.splits if_splits)

text \<open>A look at the call settles the generation, unless the answer leaves it and its time is not out.\<close>

lemma observe_settles_or_leaves:
  assumes "check_service service"
    and "gen_start_requested_at g = Some start" and "gen_provider_call_id g = Some i"
    and "run_state (check_observe service ctx g) w = (Inr h, w')" and "w_tx w = None" and "db_inv (w_db w)"
  shows "(\<exists>row. find_row (w_db w') (gen_id h) = Some row \<and> h = row\<lparr>gen_read_at := 0\<rparr> \<and>
            \<not> live_status (gen_status row)) \<or>
         (\<exists>res. asked service ctx g start i w res \<and> undecided res \<and> \<not> out_of_time g start)"
proof (cases "registry_Async (gc_registry service) (gen_provider g)")
  case (Inl err)
  have "settles (check_observe service ctx g)"
    unfolding check_observe_def Inl sum.case by (rule check_service.settleFailure_settles [OF assms(1)])
  from settlesD [OF this assms(4-6)] show ?thesis by blast
next
  case (Inr connector)
  then have provider: "async_provider connector"
    by (rule lawful_Async [OF check_service.lawful_registry [OF assms(1)]])
  obtain res since v where ask: "run_state (check_ask ctx connector g start i) w = ((res, since), v)"
    by (metis surj_pair)
  have v: "w_tx v = None" "db_inv (w_db v)"
    using top_run_kept [OF check_service.ask_runs [OF assms(1) provider] ask assms(5,6)] by blast+
  have rest: "run_state (case verdict_of g res since of
                 Settle call \<Rightarrow> observe_settle service ctx g start call since
               | Leave \<Rightarrow> State_Monad.return (Inr g)
               | Fail message class reason \<Rightarrow>
                   check_settleFailure service ctx g message class reason None) v = (Inr h, w')"
    using assms(4) by (simp add: check_observe_def Inr assms(2,3) ask)
  note settled = check_service.observe_settle_settles [OF assms(1)] check_service.settleFailure_settles [OF assms(1)]
  show ?thesis
  proof (cases "verdict_of g res since")
    case (Settle call)
    with rest have "run_state (observe_settle service ctx g start call since) v = (Inr h, w')" by simp
    from settlesD [OF settled(1) this v] show ?thesis by blast
  next
    case Leave
    then have "undecided res" "\<not> out_of_time g start"
      using leave_undecided out_of_time_verdict [OF _ ask] by blast+
    then show ?thesis using Inr ask unfolding asked_def by blast
  next
    case (Fail message cause reason)
    with rest have "run_state (check_settleFailure service ctx g message cause reason None) v = (Inr h, w')" by simp
    from settlesD [OF settled(2) this v] show ?thesis by blast
  qed
qed


definition sample_running :: generation where
  "sample_running =
     (new_row 10 sample_request)\<lparr>gen_provider_call_id := Some ''resp_1'', gen_status := Running\<rparr>"

definition sample_running_db :: database where
  "sample_running_db = sample_db\<lparr>generations := [sample_running]\<rparr>"

lemma sample_running_inv: "db_inv sample_running_db"
  by (simp add: db_inv_def sample_running_db_def sample_running_def sample_db_def row_inv_def generation_row_check_def new_row_def
      sample_request_def live_status_def)


end
