(* ===== verification/OpenAI_Contract.thy ===== *)
theory OpenAI_Contract
  imports OpenAI
begin

text \<open>
  The connector keeps the contract of both modes, whatever its transport does outside this
  service: \<open>openai_transport\<close> is what the transport promises, and the sublocales give the
  contracts a check and a stream rely on.
\<close>

section \<open>What happens outside\<close>

text \<open>
  An exchange with the provider leaves no mark of this process's and none in its tables. Time
  passes, and other processes commit meanwhile.
\<close>

definition outside :: "'p world \<Rightarrow> 'p world \<Rightarrow> bool" where
  "outside w w' \<longleftrightarrow> world_run w w' \<and> silent w w' \<and> untouched w w'"

interpretation outsides: guarantee outside
proof
  fix w :: "'a world"
  show "outside w w" by (simp add: outside_def runs.refl silences.refl rests.refl)
next
  fix u v w :: "'a world"
  assume "outside u v" and "outside v w"
  then show "outside u w"
    unfolding outside_def by (blast intro: runs.trans silences.trans rests.trans)
qed

lemma outside_time_Now: "state_io_rel outside time_Now"
  by (auto simp: state_io_rel_def time_Now_def outsides.refl)

lemma state_io_rel_mono:
  "state_io_rel R m \<Longrightarrow> (\<And>w w'. R w w' \<Longrightarrow> S w w') \<Longrightarrow> state_io_rel S m"
  by (auto simp: state_io_rel_def)

text \<open>Any guarantee an exchange gives, a start gives when \<open>Accepted\<close> does.\<close>

locale outer_guarantee = guarantee R for R :: "'p world \<Rightarrow> 'p world \<Rightarrow> bool" +
  assumes outside_R: "outside w w' \<Longrightarrow> R w w'"
begin

lemma outer: "state_io_rel outside m \<Longrightarrow> state_io_rel R m"
  by (erule state_io_rel_mono) (rule outside_R)

end

interpretation outer_runs: outer_guarantee world_run
  by unfold_locales (simp add: outside_def)

interpretation outer_quiet: outer_guarantee no_start
  by unfold_locales (simp add: outside_def silent_def no_start_def)

interpretation outer_outsides: outer_guarantee outside
  by unfold_locales

section \<open>The transport\<close>

locale openai_transport =
  fixes client :: "'p openai"
  assumes send_outside: "state_io_rel outside (oa_send client ctx rq)"
    and open_outside: "state_io_rel outside (oa_open client ctx rq)"
    and wait_outside:
      "run_state (oa_open client ctx rq) w = ((Inr stream, sent), w') \<Longrightarrow>
       (wait, data) \<in> set (sse_events stream) \<Longrightarrow> state_io_rel outside wait"
begin

lemma read_outside: "state_io_rel outside (send_read client ctx rq)"
  unfolding send_read_def by (intro outsides.guarantee_constructs outside_time_Now send_outside)

lemma Get_outside: "state_io_rel outside (OpenAI_Get client ctx i)"
  unfolding OpenAI_Get_def by (intro outsides.guarantee_constructs read_outside)

lemma Cancel_outside: "state_io_rel outside (OpenAI_Cancel client ctx i)"
  unfolding OpenAI_Cancel_def by (intro outsides.guarantee_constructs read_outside Get_outside)

lemma yield_outside:
  assumes "\<And>wait data. (wait, data) \<in> set events \<Longrightarrow> state_io_rel outside wait"
  shows "state_io_rel outside (yieldEvents client events ended)"
  using assms
proof (induction events)
  case Nil
  show ?case by (simp add: outsides.guarantee_return)
next
  case (Cons event events)
  obtain wait data where event: "event = (wait, data)" by fastforce
  with Cons show ?case
    unfolding event yieldEvents.simps by (intro outsides.guarantee_constructs) auto
qed

lemma Stream_outside: "state_io_rel outside (OpenAI_Stream client ctx i cursor)"
  unfolding OpenAI_Stream_def
proof (rule outsides.guarantee_bind_answer [OF open_outside])
  fix a w w'
  assume run: "run_state (oa_open client ctx (get_request (callPath i) (streamOptions cursor))) w = (a, w')"
  obtain opened sent where a: "a = (opened, sent)" by fastforce
  show "state_io_rel outside (case a of (opened, sent) \<Rightarrow>
      (case opened of Inl err \<Rightarrow> State_Monad.return [Inl (classifyOpenAIStreamError err)]
       | Inr stream \<Rightarrow> yieldEvents client (sse_events stream) (sse_err stream)))"
    using run wait_outside unfolding a
    by (cases opened) (auto intro!: outsides.guarantee_return yield_outside)
qed

end

section \<open>A start\<close>

text \<open>The steps of a held stream: an event that says nothing, and one that names the operation.\<close>

definition names :: "'p openai \<Rightarrow> raw \<Rightarrow> call option" where
  "names client data =
     (case oa_held client data of
        None \<Rightarrow> None
      | Some response \<Rightarrow>
          (case providerCallOf client response of
             Inl _ \<Rightarrow> None
           | Inr current \<Rightarrow> if call_id current = [] then None else Some current))"

lemma names_id: "names client data = Some c \<Longrightarrow> call_id c \<noteq> []"
  by (auto simp: names_def split: option.splits sum.splits if_splits)

lemma hold_events_Cons:
  "hold_events client accepted ((wait, data) # events) call answer = do {
     _ \<leftarrow> wait;
     case names client data of
       None \<Rightarrow> hold_events client accepted events call answer
     | Some current \<Rightarrow>
         if call = None then do {
           given \<leftarrow> accepted current;
           case given of
             Inl err \<Rightarrow> State_Monad.return (Inl err, Some given)
           | Inr _ \<Rightarrow>
               if call_state current \<noteq> CallQueued
               then State_Monad.return (Inr (Some current), Some given)
               else hold_events client accepted events (Some current) (Some given)
         }
         else if call_state current \<noteq> CallQueued
         then State_Monad.return (Inr (Some current), answer)
         else hold_events client accepted events (Some current) answer
   }"
  by (simp add: names_def cong: option.case_cong sum.case_cong)
     (auto simp: fun_eq_iff split: option.splits sum.splits intro!: arg_cong [where f = "Monad_Syntax.bind wait"])

declare hold_events.simps [simp del]
declare hold_events.simps(1) [simp]

context outer_guarantee
begin

lemma hold_guarantee:
  assumes "\<And>wait data. (wait, data) \<in> set events \<Longrightarrow> state_io_rel outside wait"
    and "\<And>c. state_io_rel R (accepted c)"
  shows "state_io_rel R (hold_events client accepted events call answer)"
  using assms(1)
proof (induction events arbitrary: call answer)
  case Nil
  show ?case by (simp add: guarantee_return)
next
  case (Cons event events)
  obtain wait data where event: "event = (wait, data)" by fastforce
  with Cons.prems have "state_io_rel R wait" by (intro outer) auto
  moreover have "state_io_rel R (hold_events client accepted events c a)" for c a
    using Cons.prems by (intro Cons.IH) auto
  ultimately show ?case
    unfolding event hold_events_Cons by (intro guarantee_constructs assms(2))
qed

lemma holdStream_guarantee:
  assumes "openai_transport client" and "\<And>c. state_io_rel R (accepted c)"
  shows "state_io_rel R (holdStream client ctx body accepted)"
  unfolding holdStream_def
proof (rule guarantee_bind_answer [OF outer [OF openai_transport.open_outside [OF assms(1)]]])
  fix a w w'
  assume run: "run_state (oa_open client ctx (post_request responsesPath (Some body))) w = (a, w')"
  obtain opened sent where a: "a = (opened, sent)" by fastforce
  have "state_io_rel R (hold_events client accepted (sse_events stream) None None)" if "opened = Inr stream" for stream
    using run unfolding a that
    by (intro hold_guarantee assms(2)) (rule openai_transport.wait_outside [OF assms(1)])
  then show "state_io_rel R (case a of (opened, sent) \<Rightarrow>
      (case opened of
         Inl err \<Rightarrow> State_Monad.return (Inl (classifyOpenAIStartError client err sent), None)
       | Inr stream \<Rightarrow> do {
           (held, answer) \<leftarrow> hold_events client accepted (sse_events stream) None None;
           State_Monad.return
             (case held of
                Inl err \<Rightarrow> (Inl err, answer)
              | Inr None \<Rightarrow>
                  (Inl (Annotate (Sentinel ErrStartAmbiguous) ''the stream ended before the operation's id''), answer)
              | Inr (Some call) \<Rightarrow> (Inr call, answer)) }))"
    unfolding a prod.case by (intro guarantee_constructs)
qed

lemma Start_guarantee:
  assumes "openai_transport client" and "\<And>c. state_io_rel R (accepted c)"
  shows "state_io_rel R (OpenAI_Start client ctx payload stream accepted)"
proof -
  have send: "state_io_rel R (oa_send client ctx rq)" for rq
    by (rule outer [OF openai_transport.send_outside [OF assms(1)]])
  show ?thesis
    unfolding OpenAI_Start_def
    by (auto split: sum.split goerr.split
        intro!: guarantee_constructs send holdStream_guarantee [OF assms])
qed

end

text \<open>A held stream hands out only a call it can name, and answers such a one.\<close>

lemma hold_named:
  assumes "\<And>c. call_id c \<noteq> [] \<Longrightarrow> accepted c = accepted' c"
  shows "hold_events client accepted events call answer = hold_events client accepted' events call answer"
proof (induction events arbitrary: call answer)
  case Nil
  show ?case by simp
next
  case (Cons event events)
  obtain wait data where event: "event = (wait, data)" by fastforce
  show ?case
    unfolding event hold_events_Cons
    by (cases "names client data") (auto simp: Cons.IH assms names_id cong: sum.case_cong)
qed

lemma hold_answers:
  assumes "run_state (hold_events client accepted events call answer) w = ((Inr (Some c), given), w')"
    and "\<And>x. call = Some x \<Longrightarrow> call_id x \<noteq> []"
  shows "call_id c \<noteq> []"
  using assms
proof (induction events arbitrary: call answer w)
  case Nil
  then show ?case by simp
next
  case (Cons event events)
  obtain wait data where event: "event = (wait, data)" by fastforce
  from Cons.prems show ?case
    unfolding event hold_events_Cons
    by (auto split: prod.splits option.splits sum.splits if_splits dest: names_id Cons.IH)
qed

text \<open>An answer a held stream hands back is one \<open>Accepted\<close> gave.\<close>

lemma hold_hands:
  assumes "run_state (hold_events client accepted events call answer) w = ((out, Some given), w')"
    and "\<And>wait data. (wait, data) \<in> set events \<Longrightarrow> state_io_rel outside wait"
    and "\<And>c. state_io_rel world_run (accepted c)"
  shows "answer = Some given \<or>
         (\<exists>c v v'. call_id c \<noteq> [] \<and> world_run w v \<and> run_state (accepted c) v = (given, v'))"
  using assms(1,2)
proof (induction events arbitrary: call answer w)
  case Nil
  then show ?case by simp
next
  case (Cons event events)
  obtain wait data where event: "event = (wait, data)" by fastforce
  obtain v where wait: "run_state wait w = ((), v)" by (metis old.unit.exhaust surj_pair)
  have "state_io_rel outside wait" using Cons.prems(2) event by auto
  then have run: "world_run w v" using wait by (auto simp: outside_def dest: state_io_relD)
  have later: "ans = Some given \<or>
      (\<exists>c v v'. call_id c \<noteq> [] \<and> world_run w v \<and> run_state (accepted c) v = (given, v'))"
    if "run_state (hold_events client accepted events cl ans) x = ((out, Some given), w')" and "world_run w x"
    for cl ans x
    using Cons.IH [OF that(1)] Cons.prems(2) that(2) by (metis list.set_intros(2) runs.trans)
  show ?case
  proof (cases "names client data")
    case None
    with Cons.prems(1) wait
    have "run_state (hold_events client accepted events call answer) v = ((out, Some given), w')"
      by (simp add: event hold_events_Cons)
    then show ?thesis using run by (rule later)
  next
    case (Some current)
    note named = names_id [OF Some]
    show ?thesis
    proof (cases "call = None")
      case False
      with Some Cons.prems(1) wait have "answer = Some given \<or>
          run_state (hold_events client accepted events (Some current) answer) v = ((out, Some given), w')"
        by (auto simp: event hold_events_Cons split: if_splits)
      with later run show ?thesis by blast
    next
      case True
      obtain res x where res: "run_state (accepted current) v = (res, x)" by fastforce
      with assms(3) have "world_run v x" by (blast dest: state_io_relD)
      with run have "world_run w x" by (rule runs.trans)
      then have "res = given \<or> (\<exists>c v v'. call_id c \<noteq> [] \<and> world_run w v \<and> run_state (accepted c) v = (given, v'))"
        using True Some Cons.prems(1) wait res
        unfolding event hold_events_Cons by (auto dest: later split: sum.splits if_splits)
      with named run res show ?thesis by blast
    qed
  qed
qed

section \<open>The contracts\<close>

lemma Start_cases:
  assumes "run_state (OpenAI_Start client ctx payload stream accepted) w = ((outcome, answer), w')"
  obtains (unsent) env where "asyncEnvelope client payload stream = Inl env"
      and "outcome = Inl (envelope_error env)" and "answer = None" and "w' = w"
  | (posted) body given where "asyncEnvelope client payload stream = Inr body"
      and "run_state (oa_send client ctx (post_request responsesPath (Some body))) w = (given, w')"
      and "outcome = started_call client given" and "answer = None" and "\<not> stream"
  | (refused) e sent body where "asyncEnvelope client payload stream = Inr body"
      and "run_state (oa_open client ctx (post_request responsesPath (Some body))) w = ((Inl e, sent), w')"
      and "outcome = Inl (classifyOpenAIStartError client e sent)" and "answer = None" and "stream"
  | (held) opened sent body w1 out where "asyncEnvelope client payload stream = Inr body"
      and "run_state (oa_open client ctx (post_request responsesPath (Some body))) w = ((Inr opened, sent), w1)"
      and "run_state (hold_events client accepted (sse_events opened) None None) w1 = ((out, answer), w')"
      and "outcome = (case out of
             Inl err \<Rightarrow> Inl err
           | Inr None \<Rightarrow>
               Inl (Annotate (Sentinel ErrStartAmbiguous) ''the stream ended before the operation's id'')
           | Inr (Some call) \<Rightarrow> Inr call)" and "stream"
proof (cases "asyncEnvelope client payload stream")
  case (Inl err)
  with assms show thesis by (intro unsent [of err]) (auto simp: OpenAI_Start_def)
next
  case (Inr body)
  show thesis
  proof (cases stream)
    case False
    obtain given v where "run_state (oa_send client ctx (post_request responsesPath (Some body))) w = (given, v)"
      by fastforce
    with False Inr assms show thesis
      by (intro posted [of body given]) (auto simp: OpenAI_Start_def)
  next
    case True
    obtain opened sent w1 where
      s: "run_state (oa_open client ctx (post_request responsesPath (Some body))) w = ((opened, sent), w1)"
      by (metis surj_pair)
    show thesis
    proof (cases opened)
      case (Inl e)
      with True Inr s assms show thesis by (intro refused) (auto simp: OpenAI_Start_def holdStream_def)
    next
      case op: (Inr op)
      obtain out given w2 where
        h: "run_state (hold_events client accepted (sse_events op) None None) w1 = ((out, given), w2)"
        by (metis surj_pair)
      with True Inr s op assms show thesis
        by (intro held [of body op sent w1 out])
           (auto simp: OpenAI_Start_def holdStream_def split: sum.splits option.splits)
    qed
  qed
qed

sublocale openai_transport < reads: streaming_provider "OpenAI_Stream client"
proof
  fix ctx i cursor
  note outside = Stream_outside [of ctx i cursor]
  show "state_io_rel world_run (OpenAI_Stream client ctx i cursor)"
    by (rule state_io_rel_mono [OF outside]) (simp add: outside_def)
  show "state_io_rel silent (OpenAI_Stream client ctx i cursor)"
    by (rule state_io_rel_mono [OF outside]) (simp add: outside_def)
  show "state_io_rel untouched (OpenAI_Stream client ctx i cursor)"
    by (rule state_io_rel_mono [OF outside]) (simp add: outside_def)
qed

lemma OpenAI_async_fields [simp]:
  "as_start (OpenAI_async client) = OpenAI_Start client"
  "as_get (OpenAI_async client) = OpenAI_Get client"
  "as_cancel (OpenAI_async client) = OpenAI_Cancel client"
  by (simp_all add: OpenAI_async_def)

lemma started_named: "started_call client given = Inr c \<Longrightarrow> call_id c \<noteq> []"
  by (auto simp: started_call_def split: sum.splits if_splits)

lemma start_named:
  assumes "\<And>c. call_id c \<noteq> [] \<Longrightarrow> accepted c = accepted' c"
  shows "OpenAI_Start client ctx payload stream accepted = OpenAI_Start client ctx payload stream accepted'"
proof -
  have hold: "hold_events client accepted = hold_events client accepted'"
    by (intro ext hold_named assms)
  show ?thesis
    unfolding OpenAI_Start_def holdStream_def hold by (rule HOL.refl)
qed

sublocale openai_transport < runs: async_provider "OpenAI_async client"
proof
  fix ctx payload stream c i and accepted accepted' :: "call \<Rightarrow> ('p, goerr + 'b) process"
    and w w' :: "'p world" and answer outcome given
  show "state_io_rel world_run (as_start (OpenAI_async client) ctx payload stream accepted)"
    if "\<And>c. state_io_rel world_run (accepted c)"
    using outer_runs.Start_guarantee [OF openai_transport_axioms that] by simp
  show "state_io_rel no_start (as_start (OpenAI_async client) ctx payload stream accepted)"
    if "\<And>c. state_io_rel no_start (accepted c)"
    using outer_quiet.Start_guarantee [OF openai_transport_axioms that] by simp
  show "as_start (OpenAI_async client) ctx payload stream accepted =
      as_start (OpenAI_async client) ctx payload stream accepted'"
    if "\<And>c. call_id c \<noteq> [] \<Longrightarrow> accepted c = accepted' c"
    using start_named [of accepted accepted', OF that] by simp
  show "call_id c \<noteq> []"
    if "run_state (as_start (OpenAI_async client) ctx payload stream accepted) w = ((Inr c, answer), w')"
    using that [unfolded OpenAI_async_fields]
  proof (cases rule: Start_cases)
    case (posted body given)
    then show ?thesis by (auto dest: started_named [OF sym])
  next
    case (held opened sent body w1 out)
    then show ?thesis by (auto dest!: hold_answers split: sum.splits option.splits)
  qed simp_all
  show "\<exists>c v v'. call_id c \<noteq> [] \<and> world_run w v \<and> run_state (accepted c) v = (given, v')"
    if accepted: "\<And>c. state_io_rel world_run (accepted c)"
      and run: "run_state (as_start (OpenAI_async client) ctx payload stream accepted) w = ((outcome, Some given), w')"
    using run [unfolded OpenAI_async_fields]
  proof (cases rule: Start_cases)
    case (held opened sent body w1 out)
    note waits = wait_outside [OF held(2)]
    have "\<exists>c v v'. call_id c \<noteq> [] \<and> world_run w1 v \<and> run_state (accepted c) v = (given, v')"
      using hold_hands [OF held(3) _ accepted] waits by fast
    then obtain c v v' where hands: "call_id c \<noteq> []" "world_run w1 v" "run_state (accepted c) v = (given, v')"
      by blast
    have "world_run w w1" using state_io_relD [OF open_outside held(2)] by (simp add: outside_def)
    with hands show ?thesis by (blast intro: runs.trans)
  qed simp_all
  note outside = Get_outside [of ctx i] Cancel_outside [of ctx i]
  show "state_io_rel world_run (as_get (OpenAI_async client) ctx i)"
    using outside(1) by (auto intro: state_io_rel_mono simp: outside_def)
  show "state_io_rel silent (as_get (OpenAI_async client) ctx i)"
    using outside(1) by (auto intro: state_io_rel_mono simp: outside_def)
  show "state_io_rel world_run (as_cancel (OpenAI_async client) ctx i)"
    using outside(2) by (auto intro: state_io_rel_mono simp: outside_def)
  show "state_io_rel silent (as_cancel (OpenAI_async client) ctx i)"
    using outside(2) by (auto intro: state_io_rel_mono simp: outside_def)
qed

context openai_transport
begin

lemma async_contract: "async_provider (OpenAI_async client :: ('p, 'r) async)"
  by (rule runs.async_provider_axioms)

lemma streaming_contract: "streaming_provider (OpenAI_Stream client)"
  by (rule reads.streaming_provider_axioms)

end

end
