(* ===== verification/OpenAI_Properties.thy ===== *)
theory OpenAI_Properties
  imports OpenAI_Contract Check
begin

text \<open>
  What the connector of \<open>OpenAI\<close> is proved to do: the endpoint it names, the body it sends, the
  call it reads, what a failed start means to the generation, and where a stream ends.
\<close>

section \<open>A transport whose answers are fixed\<close>

text \<open>
  The witnesses run the connector on a transport that answers at once. A body is the status of the
  one operation it knows, an event the type of one.
\<close>

definition sample_response :: "string \<Rightarrow> openai_response" where
  "sample_response status =
     \<lparr>ors_id = ''resp_1'', ors_status = status, ors_error_code = [], ors_error_message = [],
      ors_model = ''gpt'', ors_effort = [], ors_service_tier = [], ors_created_at = 0,
      ors_completed_at = None, ors_input_tokens = 3, ors_cached_tokens = 0, ors_cache_write_tokens = 0,
      ors_output_tokens = 5, ors_reasoning_tokens = 0, ors_total_tokens = Some 8\<rparr>"

definition sample_body :: raw where "sample_body = ''body''"

definition sample_members :: "string \<rightharpoonup> raw" where
  "sample_members = [''model'' \<mapsto> ''x'', ''background'' \<mapsto> ''true'', ''stream'' \<mapsto> ''false'']"

definition sample_openai :: "(goerr + raw) \<times> bool \<Rightarrow> (goerr + raw list) \<times> bool \<Rightarrow> 'p openai" where
  "sample_openai sends opens =
     \<lparr>oa_send = (\<lambda>ctx rq. State_Monad.return sends),
      oa_open = (\<lambda>ctx rq. State_Monad.return
        (map_sum id (\<lambda>events. \<lparr>sse_events = map (Pair (State_Monad.return ())) events, sse_err = None\<rparr>) (fst opens),
         snd opens)),
      oa_response = (\<lambda>body. Inr (sample_response body)),
      oa_head = (\<lambda>data. Inr \<lparr>eh_type = data, eh_sequence_number = 0\<rparr>),
      oa_held = Some,
      oa_members = (\<lambda>body. Inr (Some (if body = sample_body then sample_members else [''model'' \<mapsto> ''x'']))),
      oa_encoder = (\<lambda>m. if m = sample_members then Inr (sample_body @ [CHR 10]) else Inl (External ''unsupported'')),
      oa_valid = (\<lambda>body. True)\<rparr>"

lemma sample_transport: "openai_transport (sample_openai sends opens)"
  by unfold_locales
     (auto simp: sample_openai_def map_sum_def split: sum.splits intro!: outsides.guarantee_return)

interpretation replayed_openai: openai_transport "sample_openai sends opens" for sends opens
  by (rule sample_transport)

lemma sample_encode: "encodeJSON (sample_openai sends opens) m = Inr b \<longleftrightarrow> m = sample_members \<and> b = sample_body"
  by (auto simp: encodeJSON_def sample_openai_def split: if_splits)

lemma sample_envelope: "asyncEnvelope (sample_openai sends opens) ''{}'' False = Inr sample_body"
proof -
  have "[''model'' \<mapsto> ''x'', ''background'' \<mapsto> ''true'', ''stream'' \<mapsto> ''false''] = sample_members"
    by (simp add: sample_members_def)
  then show ?thesis
    using TrimSuffix_append [of sample_body "[CHR 10]"]
    by (simp add: asyncEnvelope_def sample_openai_def encodeJSON_def sample_body_def)
qed

section \<open>Endpoints\<close>

text \<open>The inverse of \<open>PathEscape\<close>, as the provider reads a segment.\<close>

definition hex_value :: "char \<Rightarrow> nat" where
  "hex_value c = (if c \<in> set ''0123456789'' then of_char c - 48 else of_char c - 55)"

fun path_unescape :: "string \<Rightarrow> string" where
  "path_unescape [] = []"
| "path_unescape (c # s) =
     (if c = CHR ''%'' then
        (case s of a # b # r \<Rightarrow> char_of (16 * hex_value a + hex_value b) # path_unescape r | _ \<Rightarrow> [])
      else c # path_unescape s)"

lemma nibble: "n < 16 \<Longrightarrow> n \<in> set [0 ..< 16]" for n :: nat
  by simp

lemma hex_value_upper: "n < 16 \<Longrightarrow> hex_value (upper_hex n) = n"
  by (drule nibble) (auto simp: upt_rec hex_value_def upper_hex_def)

lemma upper_hex_plain: "n < 16 \<Longrightarrow> upper_hex n \<noteq> CHR ''/'' \<and> upper_hex n \<noteq> CHR ''%''"
  by (drule nibble) (auto simp: upt_rec upper_hex_def)

lemma char_code: "(of_char c :: nat) < 256"
  by (simp add: of_char_def)

lemma char_nibbles: "(of_char c :: nat) div 16 < 16" "(of_char c :: nat) mod 16 < 16"
  using char_code [of c] by (simp_all add: less_mult_imp_div_less)

lemma hex_halves: "16 * ((of_char c :: nat) div 16) + of_char c mod 16 = of_char c"
  by simp

lemma unescape_byte: "path_unescape (escape_byte c @ s) = c # path_unescape s"
proof (cases "path_safe (of_char c)")
  case True
  then have "c \<noteq> CHR ''%''" by (auto simp: path_safe_def)
  with True show ?thesis by (simp add: escape_byte_def)
next
  case False
  with char_nibbles [of c] show ?thesis
    by (simp add: escape_byte_def hex_value_upper hex_halves)
qed

lemma unescape_path: "path_unescape (PathEscape s) = s"
  by (induction s) (simp_all add: PathEscape_def unescape_byte)

lemma escape_no_slash: "CHR ''/'' \<notin> set (PathEscape s)"
proof -
  have "CHR ''/'' \<notin> set (escape_byte c)" for c
  proof (cases "path_safe (of_char c)")
    case True
    then have "c \<noteq> CHR ''/''" by (auto simp: path_safe_def)
    with True show ?thesis by (simp add: escape_byte_def)
  next
    case False
    with upper_hex_plain [OF char_nibbles(1) [of c]] upper_hex_plain [OF char_nibbles(2) [of c]]
    show ?thesis by (auto simp: escape_byte_def)
  qed
  then show ?thesis by (auto simp: PathEscape_def)
qed

text \<open>Each operation has an endpoint of its own: the provider reads back the identifier the connector
  wrote, an identifier never leaves its segment of the path, and no identifier's endpoint is the
  cancel endpoint of another.\<close>

theorem endpoint_names_operation:
  "path_unescape (PathEscape i) = i \<and> CHR ''/'' \<notin> set (PathEscape i) \<and>
   (callPath i = callPath j) = (i = j) \<and> callPath i \<noteq> callPath j @ ''/cancel''"
proof -
  have inj: "PathEscape i = PathEscape j \<Longrightarrow> i = j" by (metis unescape_path)
  have "PathEscape i \<noteq> PathEscape j @ ''/cancel''"
    using escape_no_slash [of i] by (metis in_set_conv_decomp list.set_intros(1) set_append UnCI)
  with inj escape_no_slash unescape_path show ?thesis by (auto simp: callPath_def)
qed

section \<open>Bodies\<close>

text \<open>The body of a start is the caller's payload with the two members of the Async mode written
  over it: every other member is sent as the caller wrote it. This relies on the JSON encoder writing
  a map its decoder reads back, each value without the white space between its tokens (\<open>squeeze\<close>).\<close>

theorem envelope_keeps_payload:
  assumes "\<And>m b. encodeJSON client m = Inr b \<Longrightarrow>
             oa_members client b = Inr (Some (\<lambda>k. map_option squeeze (m k)))"
    and "asyncEnvelope client payload stream = Inr body"
  shows "\<exists>members sent. oa_members client payload = Inr (Some members) \<and>
           oa_members client body = Inr (Some sent) \<and>
           sent ''background'' = Some (squeeze ''true'') \<and>
           sent ''stream'' = Some (squeeze (if stream then ''true'' else ''false'')) \<and>
           (\<forall>k. k \<noteq> ''background'' \<longrightarrow> k \<noteq> ''stream'' \<longrightarrow> sent k = map_option squeeze (members k))"
proof -
  from assms(2) obtain members where members: "oa_members client payload = Inr (Some members)"
    and body: "encodeJSON client (members(''background'' \<mapsto> ''true'',
        ''stream'' \<mapsto> (if stream then ''true'' else ''false''))) = Inr body"
    by (auto simp: asyncEnvelope_def split: sum.splits option.splits)
  let ?sent = "\<lambda>k. map_option squeeze ((members(''background'' \<mapsto> ''true'',
        ''stream'' \<mapsto> (if stream then ''true'' else ''false''))) k)"
  from assms(1) [OF body] members show ?thesis
    by (intro exI [of _ members] exI [of _ ?sent]) simp
qed

theorem envelope_keeps_payload_witness:
  "\<exists>sent. oa_members (sample_openai (Inr [], True) (Inr [], True) :: unit openai) sample_body = Inr (Some sent) \<and>
     sent ''background'' = Some ''true'' \<and> sent ''model'' = Some ''x''"
  using envelope_keeps_payload [where squeeze = "\<lambda>v. v" and payload = "''{}''" and stream = False
      and client = "sample_openai (Inr [], True) (Inr [], True) :: unit openai", OF _ sample_envelope]
  by (auto simp: sample_encode sample_openai_def map_option.id [unfolded id_def] sample_body_def sample_members_def)

lemma terminal_status:
  "Terminal (state_of_status status) \<longleftrightarrow>
     status = ''completed'' \<or> status = ''incomplete'' \<or> status = ''failed'' \<or> status = ''cancelled''"
  by (simp add: state_of_status_def Terminal_def)

lemma providerCallOf_shape:
  assumes "providerCallOf client body = Inr c"
  obtains response where "oa_response client body = Inr response"
    and "call_id c = ors_id response" and "call_state c = state_of_status (ors_status response)"
    and "Terminal (call_state c) \<Longrightarrow> call_response c = Some body \<and> call_class c \<noteq> [] \<and>
           (call_usage c = None) = (ors_total_tokens response = None)"
    and "\<not> Terminal (call_state c) \<Longrightarrow> call_response c = None \<and> call_usage c = None \<and>
           call_completed_at c = None"
proof -
  obtain response where response: "oa_response client body = Inr response"
    using assms by (auto simp: providerCallOf_def split: sum.splits)
  show thesis
    by (rule that [OF response])
       (use assms response in \<open>auto simp: providerCallOf_def Let_def zero_call_def split: if_splits\<close>)
qed

text \<open>C32: A call read off a response is either running, with nothing of an answer on it, or over: then it
  carries the response as sent, a class, and usage exactly when the provider reported its total. A
  status this service does not know reads as running.\<close>

theorem call_has_answer_iff_over:
  assumes "providerCallOf client body = Inr c"
  shows "\<exists>response. oa_response client body = Inr response \<and> call_id c = ors_id response \<and>
           (if ors_status response \<in> {''completed'', ''incomplete'', ''failed'', ''cancelled''}
            then Terminal (call_state c) \<and> call_response c = Some body \<and> call_class c \<noteq> [] \<and>
              (call_usage c = None) = (ors_total_tokens response = None)
            else \<not> Terminal (call_state c) \<and> call_response c = None \<and> call_usage c = None \<and>
              call_completed_at c = None)"
  using assms
proof (cases rule: providerCallOf_shape)
  case (1 response)
  have "Terminal (call_state c) \<longleftrightarrow> ors_status response \<in> {''completed'', ''incomplete'', ''failed'', ''cancelled''}"
    unfolding 1(3) terminal_status by blast
  with 1 show ?thesis by metis
qed

theorem call_has_answer_iff_over_witness:
  "\<exists>c. providerCallOf (sample_openai (Inr [], True) (Inr [], True) :: unit openai) ''completed'' = Inr c \<and>
     Terminal (call_state c) \<and> call_class c \<noteq> [] \<and> call_usage c \<noteq> None"
proof -
  obtain c where c: "providerCallOf (sample_openai (Inr [], True) (Inr [], True) :: unit openai) ''completed'' = Inr c"
    by (cases "providerCallOf (sample_openai (Inr [], True) (Inr [], True) :: unit openai) ''completed''")
       (auto simp: providerCallOf_def sample_openai_def Let_def split: if_splits)
  from call_has_answer_iff_over [OF c] show ?thesis
    by (intro exI [of _ c] conjI [OF c]) (auto simp: sample_openai_def sample_response_def)
qed

section \<open>A failed start\<close>

text \<open>The errors the SDK and the standard library return: none is this program's own.\<close>

fun sdk_error :: "goerr \<Rightarrow> bool" where
  "sdk_error (External t) = True"
| "sdk_error (ApiError a) = True"
| "sdk_error Oversized = True"
| "sdk_error (Sentinel s) = (s = ErrDeadlineExceeded)"
| "sdk_error (Wrap p e) = sdk_error e"
| "sdk_error _ = False"

lemma sdk_error_foreign:
  "sdk_error e \<Longrightarrow> as_rejection e = None \<and> \<not> err_is ErrStartAmbiguous e"
  by (induction e) auto

definition start_class :: "goerr \<Rightarrow> generation_failure" where
  "start_class e = fst (snd (failStart_class e))"

text \<open>
  The provider may run a call it was sent, unless it answered that it does not: a status other
  than a timeout or a fault of its own.
\<close>

definition may_run :: "(goerr + 'a) \<times> bool \<Rightarrow> bool" where
  "may_run answer =
     (case fst answer of
        Inr _ \<Rightarrow> True
      | Inl err \<Rightarrow>
          (case as_api err of
             None \<Rightarrow> snd answer
           | Some apiErr \<Rightarrow> api_status apiErr = 408 \<or> 500 \<le> api_status apiErr))"

lemma start_class_ambiguous: "start_class (Annotate (Sentinel ErrStartAmbiguous) t) = OutcomeUnknown"
  by (simp add: start_class_def failStart_class_def)

lemma start_class_unreadable:
  "as_rejection e = None \<Longrightarrow> start_class (Wrap2 (Sentinel ErrStartAmbiguous) e) = OutcomeUnknown"
  by (simp add: start_class_def failStart_class_def)

lemma start_class_sdk:
  assumes "sdk_error e"
  shows "(start_class (classifyOpenAIStartError client e sent) = OutcomeUnknown) =
         may_run ((Inl e, sent) :: (goerr + 'a) \<times> bool)"
proof (cases "as_api e")
  case None
  with sdk_error_foreign [OF assms] show ?thesis
    by (simp add: start_class_def failStart_class_def classifyOpenAIStartError_def may_run_def)
next
  case (Some apiErr)
  have "as_rejection (withProviderMessage e apiErr) = None"
    "\<not> err_is ErrStartAmbiguous (withProviderMessage e apiErr)"
    using sdk_error_foreign [OF assms] by (simp_all add: withProviderMessage_def)
  with Some show ?thesis
    by (auto simp: start_class_def failStart_class_def classifyOpenAIStartError_def may_run_def Let_def)
qed

text \<open>Every error of the transport and of the decoders is one of theirs.\<close>

definition sdk_errors :: "'p openai \<Rightarrow> bool" where
  "sdk_errors client \<longleftrightarrow>
     (\<forall>ctx rq w e sent w'. run_state (oa_send client ctx rq) w = ((Inl e, sent), w') \<longrightarrow> sdk_error e) \<and>
     (\<forall>ctx rq w e sent w'. run_state (oa_open client ctx rq) w = ((Inl e, sent), w') \<longrightarrow> sdk_error e) \<and>
     (\<forall>body e. oa_response client body = Inl e \<longrightarrow> sdk_error e) \<and>
     (\<forall>body e. oa_members client body = Inl e \<longrightarrow> sdk_error e) \<and>
     (\<forall>m e. oa_encoder client m = Inl e \<longrightarrow> sdk_error e)"

lemma sdk_errorsD:
  assumes "sdk_errors client"
  shows "run_state (oa_send client ctx rq) w = ((Inl e, sent), w') \<Longrightarrow> sdk_error e"
    and "run_state (oa_open client ctx rq) w = ((Inl e, sent), w') \<Longrightarrow> sdk_error e"
    and "oa_response client body = Inl e \<Longrightarrow> sdk_error e"
    and "oa_members client body = Inl e \<Longrightarrow> sdk_error e"
    and "oa_encoder client m = Inl e \<Longrightarrow> sdk_error e"
  using assms unfolding sdk_errors_def by blast+

lemma start_class_wrapped: "sdk_error e \<Longrightarrow> start_class (Wrap p e) \<noteq> OutcomeUnknown"
  by (frule sdk_error_foreign) (simp add: start_class_def failStart_class_def)

lemma envelope_error_class:
  assumes "sdk_errors client" and "asyncEnvelope client payload stream = Inl e"
  shows "start_class (envelope_error e) \<noteq> OutcomeUnknown"
proof -
  from assms consider "sdk_error e" | t where "e = Panic t"
    by (auto simp: asyncEnvelope_def encodeJSON_def sdk_errors_def split: sum.splits option.splits)
  then show ?thesis
  proof cases
    case 1
    then have "envelope_error e = Wrap ''write async envelope'' e" by (cases e) simp_all
    with start_class_wrapped [OF 1] show ?thesis by simp
  next
    case 2
    then show ?thesis by (simp add: start_class_def failStart_class_def)
  qed
qed

lemma started_call_class:
  assumes "sdk_errors client" and "run_state (oa_send client ctx rq) w = (given, w')"
    and "started_call client given = Inl e"
  shows "(start_class e = OutcomeUnknown) = may_run (capResponse (fst given), snd given)"
proof (cases "capResponse (fst given)")
  case (Inl err)
  obtain answer sent where given: "given = (answer, sent)" by fastforce
  have "sdk_error err"
    using assms(2) Inl sdk_errorsD(1) [OF assms(1)] unfolding given
    by (auto simp: capResponse_def split: sum.splits if_splits)
  from start_class_sdk [OF this, of client "snd given", where 'a = raw] Inl assms(3)
  show ?thesis by (auto simp: started_call_def)
next
  case (Inr body)
  have "start_class e = OutcomeUnknown"
    using assms(1,3) Inr sdk_error_foreign unfolding started_call_def providerCallOf_def sdk_errors_def
    by (fastforce simp: Let_def start_class_ambiguous split: sum.splits if_splits
        intro!: start_class_unreadable)
  then show ?thesis by (simp add: Inr may_run_def)
qed

lemma hold_error_given:
  assumes "run_state (hold_events client accepted events call answer) w = ((Inl e, given), w')"
  shows "given \<noteq> None"
  using assms
proof (induction events arbitrary: call answer w)
  case Nil
  then show ?case by simp
next
  case (Cons event events)
  obtain wait data where event: "event = (wait, data)" by fastforce
  from Cons.prems show ?case
    unfolding event hold_events_Cons
    by (auto split: prod.splits option.splits sum.splits if_splits dest: Cons.IH)
qed

text \<open>C19: A start that failed before the provider named its call is settled as having an unknown outcome
  exactly when the provider may run that call: the request fully left and was not answered with a
  status that says nothing ran, or it was accepted and its answer could not be read.\<close>

theorem failed_start_unknown_iff_may_run:
  assumes "sdk_errors client"
    and "run_state (OpenAI_Start client ctx payload stream accepted) w = ((Inl e, None), w')"
  shows "(start_class e = OutcomeUnknown) =
         (\<exists>body. asyncEnvelope client payload stream = Inr body \<and>
            (if stream
             then \<exists>given w1. run_state (oa_open client ctx (post_request responsesPath (Some body))) w = (given, w1) \<and>
                    may_run given
             else \<exists>given. run_state (oa_send client ctx (post_request responsesPath (Some body))) w = (given, w') \<and>
                    may_run (capResponse (fst given), snd given)))"
  using assms(2)
proof (cases rule: Start_cases)
  case (unsent env)
  with envelope_error_class [OF assms(1) unsent(1)] show ?thesis by simp
next
  case (posted body given)
  from started_call_class [OF assms(1) posted(2) posted(3) [symmetric]] posted show ?thesis
    by (cases given) simp
next
  case (refused err sent body)
  with assms(1) have "sdk_error err" unfolding sdk_errors_def by blast
  from start_class_sdk [OF this] refused show ?thesis by simp
next
  case (held opened sent body w1 out)
  have "out = Inr None"
    using held(3,4) by (auto split: sum.splits option.splits dest: hold_error_given)
  with held show ?thesis by (simp add: start_class_ambiguous may_run_def)
qed

theorem failed_start_unknown_iff_may_run_witness:
  "start_class (Wrap2 (Sentinel ErrStartAmbiguous) (External ''reset'')) = OutcomeUnknown"
proof -
  let ?client = "sample_openai (Inl (External ''reset''), True) (Inr [], True) :: unit openai"
  let ?accepted = "\<lambda>c. State_Monad.return (Inr ()) :: (unit, goerr + unit) process"
  have errors: "sdk_errors ?client"
    by (auto simp: sdk_errors_def sample_openai_def)
  have run: "run_state (OpenAI_Start ?client None ''{}'' False ?accepted) w =
      ((Inl (Wrap2 (Sentinel ErrStartAmbiguous) (External ''reset'')), None), w)" for w
    by (simp add: OpenAI_Start_def sample_envelope)
       (simp add: sample_openai_def started_call_def capResponse_def classifyOpenAIStartError_def)
  from failed_start_unknown_iff_may_run [OF errors run] show ?thesis
    by (simp add: sample_envelope) (auto simp: sample_openai_def capResponse_def may_run_def)
qed

section \<open>A stream\<close>

abbreviation received :: "(goerr + stream_event) list \<Rightarrow> stream_event list" where
  "received events \<equiv> map projr (filter (\<lambda>e. \<not> isl e) events)"

text \<open>Where a stream may end: at its terminal event, at an error, or where the provider cut it.\<close>

lemma yieldEvents_shape:
  assumes "run_state (yieldEvents client opened ended) w = (events, w')"
  shows "(\<forall>k < length events - 1. \<exists>event. events ! k = Inr event \<and> \<not> ev_terminal event) \<and>
         prefix (map ev_data (received events)) (map snd opened) \<and>
         ((\<forall>e \<in> set events. \<exists>event. e = Inr event \<and> \<not> ev_terminal event) \<longrightarrow>
            map ev_data (received events) = map snd opened \<and> ended = None)"
  using assms
proof (induction opened arbitrary: w events)
  case Nil
  then show ?case by (auto simp: cut_stream_def split: option.splits)
next
  case (Cons item opened)
  obtain wait data where item: "item = (wait, data)" by fastforce
  obtain v where wait: "run_state wait w = ((), v)" by (metis old.unit.exhaust surj_pair)
  show ?case
  proof (cases "streamEventOf client data")
    case (Inl err)
    with Cons.prems item wait show ?thesis by auto
  next
    case (Inr event)
    then have data: "ev_data event = data" by (auto simp: streamEventOf_def split: sum.splits)
    show ?thesis
    proof (cases "ev_terminal event")
      case True
      with Cons.prems item wait Inr data show ?thesis by auto
    next
      case False
      obtain later where later: "run_state (yieldEvents client opened ended) v = (later, w')"
        and events: "events = Inr event # later"
        using Cons.prems item wait Inr False by (auto split: prod.splits)
      from Cons.IH [OF later] data item False events show ?thesis
        by (auto simp: nth_Cons split: nat.splits)
    qed
  qed
qed

text \<open>C33: A stream ends at its terminal event: nothing follows a terminal event or an error, and the
  events before are the provider's, unchanged and in order. One that ends without either has
  forwarded all the provider sent, which then ended the stream of itself: a stream cut short is
  never taken for a finished one.\<close>

theorem stream_ends_at_terminal_event:
  assumes "run_state (OpenAI_Stream client ctx i cursor) w = (events, w')"
  shows "(\<forall>k < length events - 1. \<exists>event. events ! k = Inr event \<and> \<not> ev_terminal event) \<and>
         (\<forall>stream sent w1.
            run_state (oa_open client ctx (get_request (callPath i) (streamOptions cursor))) w =
              ((Inr stream, sent), w1) \<longrightarrow>
            prefix (map ev_data (received events)) (map snd (sse_events stream)) \<and>
            ((\<forall>e \<in> set events. \<exists>event. e = Inr event \<and> \<not> ev_terminal event) \<longrightarrow>
               map ev_data (received events) = map snd (sse_events stream) \<and> sse_err stream = None))"
proof -
  obtain opened sent w1 where
    o: "run_state (oa_open client ctx (get_request (callPath i) (streamOptions cursor))) w = ((opened, sent), w1)"
    by (metis surj_pair)
  show ?thesis
  proof (cases opened)
    case (Inl err)
    with assms o show ?thesis by (auto simp: OpenAI_Stream_def)
  next
    case (Inr stream)
    with assms o have "run_state (yieldEvents client (sse_events stream) (sse_err stream)) w1 = (events, w')"
      by (simp add: OpenAI_Stream_def)
    from yieldEvents_shape [OF this] Inr o show ?thesis by simp
  qed
qed

theorem stream_ends_at_terminal_event_witness:
  "\<forall>w. \<exists>events. fst (run_state (OpenAI_Stream (sample_openai (Inr [], True)
       (Inr [''response.created'', ''response.completed'', ''late''], True) :: unit openai) None ''resp_1'' None) w) = events \<and>
     length events = 2 \<and> (\<exists>event. events ! 0 = Inr event \<and> \<not> ev_terminal event)"
proof
  fix w :: "unit world"
  let ?client = "sample_openai (Inr [], True)
    (Inr [''response.created'', ''response.completed'', ''late''], True) :: unit openai"
  let ?events = "fst (run_state (OpenAI_Stream ?client None ''resp_1'' None) w)"
  have "length ?events = 2"
    by (simp add: OpenAI_Stream_def sample_openai_def streamEventOf_def terminalEvents_def)
  with stream_ends_at_terminal_event [of ?client None "''resp_1''" None w, OF prod.collapse [symmetric]]
  show "\<exists>events. fst (run_state (OpenAI_Stream ?client None ''resp_1'' None) w) = events \<and>
      length events = 2 \<and> (\<exists>event. events ! 0 = Inr event \<and> \<not> ev_terminal event)" by auto
qed

section \<open>The registry\<close>

text \<open>The registry the service runs on keeps what every check and stream assumes of it. It serves one
  provider in both modes, refuses any other by name, and is not built without an endpoint and a key.\<close>

theorem registry_keeps_contract:
  fixes client :: "'p openai" and registry :: "('p, 'r) registry"
  assumes "openai_transport client" and "NewRegistry baseURL apiKey client = Inr registry"
  shows "lawful registry \<and> streams_lawfully registry \<and> baseURL \<noteq> [] \<and> apiKey \<noteq> [] \<and>
         registry_Async registry ''openai'' = Inr (OpenAI_async client) \<and>
         registry_Streaming registry ''openai'' = Inr (OpenAI_Stream client) \<and>
         (p \<noteq> ''openai'' \<longrightarrow> registry_Async registry p = Inl (Sentinel ErrProviderUnknown))"
proof -
  have registry: "registry = [''openai'' \<mapsto> OpenAI_connector client]" and set_up: "baseURL \<noteq> []" "apiKey \<noteq> []"
    using assms(2) by (auto simp: NewRegistry_def NewOpenAI_def split: if_splits)
  have "async_provider (OpenAI_async client :: ('p, 'r) async)" "streaming_provider (OpenAI_Stream client)"
    using assms(1) by (rule openai_transport.async_contract openai_transport.streaming_contract)+
  with set_up show ?thesis
    by (auto simp: registry lawful_def streams_lawfully_def registry_Async_def registry_Streaming_def
        modeOf_def OpenAI_connector_def split: if_splits)
qed

theorem registry_keeps_contract_witness:
  "lawful ([''openai'' \<mapsto> OpenAI_connector (sample_openai (Inr [], True) (Inr [], True))] :: (unit, generation) registry)"
proof -
  have "NewRegistry ''https://api.openai.com/v1/'' ''key'' (sample_openai (Inr [], True) (Inr [], True)) =
      (Inr [''openai'' \<mapsto> OpenAI_connector (sample_openai (Inr [], True) (Inr [], True))] ::
        goerr + (unit, generation) registry)"
    by (simp add: NewRegistry_def NewOpenAI_def)
  from registry_keeps_contract [OF sample_transport this] show ?thesis by blast
qed

end
