(* ===== verification/Undisturbed.thy ===== *)
theory Undisturbed
  imports Check_Settles OpenAI_Properties
begin

text \<open>
  What a check does when nothing disturbs it: no other process commits meanwhile, no statement fails, and
  the provider answers, or refuses to, within its time. Such a check settles every generation that ran past
  its time, whatever the provider's answer is, and whatever the database refuses of it.
\<close>

section \<open>Undisturbed statements\<close>

definition alone :: "'p world \<Rightarrow> bool" where
  "alone w \<longleftrightarrow> w_sched w = [] \<and> w_tx w = None"

lemma aloneD: "alone w \<Longrightarrow> w_sched w = []" "alone w \<Longrightarrow> w_tx w = None"
  by (simp_all add: alone_def)

lemma next_slot_alone: "w_sched w = [] \<Longrightarrow> run_state next_slot w = (quiet_slot, w)"
  by (simp add: next_slot_def)

lemma statement_alone:
  assumes "w_sched w = []" and "\<not> over ctx (w_clock w)"
  shows "run_state (statement ctx f) w =
    (let r = f (case w_tx w of None \<Rightarrow> w_db_clock w | Some t \<Rightarrow> t) (w_db_clock w) (w_db w)
     in (fst r, w\<lparr>w_db := snd r\<rparr>))"
proof -
  have "\<not> cut_short ctx 0 (w_clock w)" and "time_left ctx 0 (w_clock w) = 0"
    using assms(2) by (auto simp: cut_short_def time_left_def over_def split: option.splits)
  with assms show ?thesis
    by (simp add: statement_def next_slot_alone run_statement_def quiet_slot_def Let_def)
qed

lemma begun_alone: "w_sched w = [] \<Longrightarrow> begun w = w\<lparr>w_tx := Some (w_db_clock w)\<rparr>"
  by (simp add: begun_def next_slot_alone)

lemma fresh_timeout: "0 < d \<Longrightarrow> \<not> over (with_timeout None now d) now"
  by (simp add: with_timeout_def over_def)

lemma same_tables [simp]: "\<exists>db. w = w\<lparr>w_db := db\<rparr>"
  by (rule exI [of _ "w_db w"]) simp

section \<open>The transaction of a commit\<close>

definition follows :: "generation \<Rightarrow> generation \<Rightarrow> bool" where
  "follows g row \<longleftrightarrow>
     gen_id row = gen_id g \<and> gen_start_requested_at row = gen_start_requested_at g \<and>
     gen_provider_call_id row = gen_provider_call_id g \<and> live_status (gen_status row)"

text \<open>An update that finds its row, and whose result the constraints take, replaces the row.\<close>

lemma update_accepted:
  assumes "db_inv db" and "find_row db i = Some row" and "p row" and "generation_row_check (f row)"
    and "\<And>r. p r \<Longrightarrow> gen_id r = i" and "\<And>r. gen_id (f r) = gen_id r"
  shows "update_generation p f read db = (Inr ((f row)\<lparr>gen_read_at := read\<rparr>), put_row (f row) db)"
proof -
  have row: "row \<in> set (generations db)" "gen_id row = i" using find_row_in [OF assms(2)] by simp_all
  have "List.find p (generations db) = Some row"
    by (rule find_unique [where f = gen_id and p = p, OF db_inv_distinct [OF assms(1)] row(1) assms(3)])
       (use assms(5) row(2) in simp)
  with assms(4) obtain g db' where run: "update_generation p f read db = (Inr g, db')"
    by (simp add: update_generation_def)
  with update_generation_row [OF db_inv_distinct [OF assms(1)] run assms(5,6)] assms(2) show ?thesis by auto
qed

text \<open>A settle whose row is as it was read settles it.\<close>

lemma settle_accepted:
  assumes "db_inv db" and "find_row db (set_id r) = Some row" and "settle_match r row"
    and "generation_row_check (settle_row now r row)"
  shows "sql_settle now r db = (Inr ((settle_row now r row)\<lparr>gen_read_at := 0\<rparr>), put_row (settle_row now r row) db)"
  unfolding sql_settle_def
  by (rule update_accepted [where p = "settle_match r" and f = "settle_row now r", OF assms]) (simp_all add: settle_match_def)

lemma refused_classes:
  "err_is ErrRefused (refused check_violation)" "err_is ErrRefused (refused invalid_text)"
  by (simp_all add: err_is_refused_ErrRefused refusedClasses_def)

lemma recordAttempt_alone:
  assumes "w_sched w = []" and "\<not> over ctx (w_clock w)" and "gen_id g \<in> gen_id ` set (generations (w_db w))"
    and "\<forall>a \<in> set (attempts (w_db w)). att_generation_id a \<noteq> gen_id g"
  shows "\<exists>res db. run_state (check_recordAttempt ctx g response) w = (res, w\<lparr>w_db := db\<rparr>) \<and>
           (\<forall>err. res = Some err \<longrightarrow> err_is ErrRefused err \<and> response \<noteq> None)"
proof (cases response)
  case None
  then show ?thesis by (intro exI [of _ None] exI [of _ "w_db w"]) (simp add: check_recordAttempt_def)
next
  case (Some bytes)
  have fresh: "(gen_id g, 1) \<notin> (\<lambda>a. (att_generation_id a, att_attempt a)) ` set (attempts (w_db w))"
    using assms(4) by force
  show ?thesis
  proof (cases "json_ok (w_db w) bytes")
    case True
    with Some fresh assms(1-3) show ?thesis
      by (simp add: check_recordAttempt_def PgGenerationAttemptInsert_Exec_def statement_alone sql_attempt_insert_def Let_def)
        blast
  next
    case False
    with Some assms(1,2) show ?thesis
      by (simp add: check_recordAttempt_def PgGenerationAttemptInsert_Exec_def statement_alone sql_attempt_insert_def
          refused_classes Let_def)
  qed
qed

lemma recordUsage_alone:
  assumes "w_sched w = []" and "\<not> over ctx (w_clock w)"
  shows "\<exists>res db. run_state (check_recordUsage ctx g call) w = (res, w\<lparr>w_db := db\<rparr>) \<and>
           (\<forall>err. res = Some err \<longrightarrow> err_is ErrRefused err \<and> call_usage call \<noteq> None)"
proof (cases "call_usage call")
  case None
  then show ?thesis by (intro exI [of _ None] exI [of _ "w_db w"]) (simp add: check_recordUsage_def)
next
  case (Some u)
  let ?ins = "sql_usage_insert (w_db_clock w) (usage_of g call u) (w_db w)"
  have run: "run_state (check_recordUsage ctx g call) w =
      (case fst ?ins of
         Inl err \<Rightarrow> if err_is ErrGenerationUsageExists (execute_query (refused (no_rows ErrGenerationUsageExists err)))
                     then None else Some (Wrap ''record usage'' (execute_query (refused (no_rows ErrGenerationUsageExists err))))
       | Inr _ \<Rightarrow> None, w\<lparr>w_db := snd ?ins\<rparr>)"
    using Some assms
    by (cases "fst ?ins") (simp_all add: check_recordUsage_def PgGenerationUsageInsert_Exec_def statement_alone Let_def)
  have "fst ?ins = Inl check_violation \<or> fst ?ins = Inl (Sentinel ErrNoRows) \<or> (\<exists>v. fst ?ins = Inr v)"
    by (simp add: sql_usage_insert_def Let_def)
  with run Some show ?thesis
    by (auto simp: no_rows_def err_is_refused refused_classes)
qed

lemma live_unanswered:
  assumes "db_inv db" and "find_row db i = Some row" and "live_status (gen_status row)" and "a \<in> set (attempts db)"
  shows "att_generation_id a \<noteq> i"
proof
  assume "att_generation_id a = i"
  with assms(1,4) obtain h where h: "h \<in> set (generations db)" "gen_id h = i" "terminal_status (gen_status h)"
    by (auto simp: db_inv_def)
  with assms(2) have "h = row" using find_row_iff [OF db_inv_distinct [OF assms(1)], of i h] by simp
  with h(3) assms(3) show False by simp
qed

text \<open>What the settle of a commit makes of the row: its answer and its usage are still to record.\<close>

lemma commit_settle_alone:
  assumes "w_sched w = []" and "\<not> over ctx (w_clock w)" and "db_inv (w_db w)"
    and "find_row (w_db w) (gen_id g) = Some row" and "follows g row"
    and "terminal_status status" and "message \<noteq> Some []" and "failure \<noteq> None \<longrightarrow> status = Failed"
    and "r = commit_request retention g status message failure" and "settled = settle_row (w_db_clock w) r row"
  shows "run_state (PgGenerationSettle_Exec ctx r) w =
           (Inr (settled\<lparr>gen_read_at := 0\<rparr>), w\<lparr>w_db := put_row settled (w_db w)\<rparr>)"
    and "gen_id g \<in> gen_id ` set (generations (put_row settled (w_db w)))"
    and "\<forall>a \<in> set (attempts (put_row settled (w_db w))). att_generation_id a \<noteq> gen_id g"
proof -
  have matches: "settle_match r row"
    using assms(5) by (simp add: settle_match_def commit_request_def follows_def assms(9))
  have "sql_settle (w_db_clock w) r (w_db w) = (Inr (settled\<lparr>gen_read_at := 0\<rparr>), put_row settled (w_db w))"
    unfolding assms(10)
  proof (rule settle_accepted [OF assms(3) _ matches])
    show "find_row (w_db w) (set_id r) = Some row" using assms(4) by (simp add: assms(9) commit_request_def)
    show "generation_row_check (settle_row (w_db_clock w) r row)"
      using commit_request_accepted [OF matches [unfolded assms(9)] db_inv_row [OF assms(3,4)] assms(6-8)]
      by (simp add: assms(9))
  qed
  with assms(1,2) show "run_state (PgGenerationSettle_Exec ctx r) w =
      (Inr (settled\<lparr>gen_read_at := 0\<rparr>), w\<lparr>w_db := put_row settled (w_db w)\<rparr>)"
    by (simp add: PgGenerationSettle_Exec_def statement_alone Let_def)
  have "gen_id g \<in> gen_id ` set (generations (w_db w))"
    using find_row_None [of "w_db w" "gen_id g"] assms(4) by simp
  then show "gen_id g \<in> gen_id ` set (generations (put_row settled (w_db w)))"
    by (metis put_row_ids set_map)
  show "\<forall>a \<in> set (attempts (put_row settled (w_db w))). att_generation_id a \<noteq> gen_id g"
    using live_unanswered [OF assms(3,4)] assms(5) by (simp add: follows_def)
qed

lemma commit_body_alone:
  assumes "w_sched w = []" and "\<not> over ctx (w_clock w)" and "db_inv (w_db w)"
    and "find_row (w_db w) (gen_id g) = Some row" and "follows g row"
    and "terminal_status status" and "message \<noteq> Some []" and "failure \<noteq> None \<longrightarrow> status = Failed"
  shows "\<exists>res s db. run_state (commit_body ctx (commit_request retention g status message failure) g call) w =
             ((res, Some s), w\<lparr>w_db := db\<rparr>) \<and>
           (\<forall>err. res = Some err \<longrightarrow> err_is ErrRefused err \<and> (call_response call \<noteq> None \<or> call_usage call \<noteq> None))"
proof -
  let ?r = "commit_request retention g status message failure"
  let ?v = "w\<lparr>w_db := put_row (settle_row (w_db_clock w) ?r row) (w_db w)\<rparr>"
  note settle = commit_settle_alone [OF assms, where r = ?r and retention = retention, OF refl refl]
  from recordAttempt_alone [of ?v ctx g "call_response call"] assms(1,2) settle(2,3)
  obtain res db where attempt: "run_state (check_recordAttempt ctx g (call_response call)) ?v = (res, ?v\<lparr>w_db := db\<rparr>)"
    "\<forall>err. res = Some err \<longrightarrow> err_is ErrRefused err \<and> call_response call \<noteq> None" by auto
  show ?thesis
  proof (cases res)
    case (Some err)
    with attempt settle(1) show ?thesis by (simp add: commit_body_def) blast
  next
    case None
    from recordUsage_alone [of "?v\<lparr>w_db := db\<rparr>" ctx g call] assms(1,2)
    obtain res' db' where "run_state (check_recordUsage ctx g call) (?v\<lparr>w_db := db\<rparr>) = (res', ?v\<lparr>w_db := db'\<rparr>)"
      "\<forall>err. res' = Some err \<longrightarrow> err_is ErrRefused err \<and> call_usage call \<noteq> None" by auto
    with None attempt settle(1) show ?thesis by (simp add: commit_body_def) blast
  qed
qed

section \<open>An undisturbed check\<close>

text \<open>
  A transactor that begins and commits under a context whose time is not over: what the caller is answered is
  what the body answered.
\<close>

locale answering_transactor = transactor tx for tx :: "('p, 'a) transactor" +
  assumes committing: "alone w \<Longrightarrow> \<not> over ctx (w_clock w) \<Longrightarrow> fst (run_state body (begun w)) = (None, a) \<Longrightarrow>
      fst (run_state (tx ctx body) w) = (None, Some a)"
    and failing: "alone w \<Longrightarrow> \<not> over ctx (w_clock w) \<Longrightarrow> fst (run_state body (begun w)) = (Some err, a) \<Longrightarrow>
      \<exists>e. fst (run_state (tx ctx body) w) = (Some e, Some a) \<and> (\<forall>s. err_is s e = err_is s err)"
begin

lemma committed_alone:
  assumes "alone w" and "\<not> over ctx (w_clock w)"
    and "run_state body (begun w) = ((None, a), w2)" and "run_state (tx ctx body) w = (res, w')"
  shows "res = (None, Some a) \<and> (\<exists>d. w' = elapse d (w2\<lparr>w_tx := None\<rparr>))"
proof -
  have res: "res = (None, Some a)" using committing [OF assms(1,2), of body a] assms(3,4) by simp
  from outcome [OF aloneD(2) [OF assms(1)] assms(4)] show ?thesis
    using assms(3) res by cases auto
qed

lemma failed_alone:
  assumes "alone w" and "\<not> over ctx (w_clock w)"
    and "run_state body (begun w) = ((Some err, a), w2)" and "run_state (tx ctx body) w = (res, w')"
  shows "\<exists>e d. res = (Some e, Some a) \<and> (\<forall>s. err_is s e = err_is s err) \<and> w' = elapse d (rolled_back w w2)"
proof -
  from failing [OF assms(1,2), of body err a] assms(3,4) obtain e where
    e: "res = (Some e, Some a)" "\<forall>s. err_is s e = err_is s err" by auto
  from outcome [OF aloneD(2) [OF assms(1)] assms(4)] show ?thesis
    using assms(3) e by cases auto
qed

end

text \<open>
  A provider that answers, or fails to, within the connector's time and leaves this service's tables alone:
  one read for a \<open>Get\<close>, two for a \<open>Cancel\<close> that reads what it found over.
\<close>

definition prompt :: "duration \<Rightarrow> ('p, goerr + 'a) process \<Rightarrow> bool" where
  "prompt d m \<longleftrightarrow>
     (\<forall>w r w'. run_state m w = (r, w') \<longrightarrow> alone w \<longrightarrow>
        alone w' \<and> w_db w' = w_db w \<and> w_clock w' \<le> w_clock w + d)"

lemma promptD:
  "prompt d m \<Longrightarrow> run_state m w = (r, w') \<Longrightarrow> alone w \<Longrightarrow>
     alone w' \<and> w_db w' = w_db w \<and> w_clock w' \<le> w_clock w + d"
  unfolding prompt_def by blast

lemma prompt_return: "0 \<le> d \<Longrightarrow> prompt d (State_Monad.return r)"
  by (simp add: prompt_def)

lemma prompt_bind:
  assumes "prompt d m" and "\<And>a. prompt e (f a)"
  shows "prompt (d + e) (Monad_Syntax.bind m f)"
  unfolding prompt_def
proof (intro allI impI)
  fix w r w'
  assume "run_state (Monad_Syntax.bind m f) w = (r, w')" and "alone w"
  then obtain a w1 where "run_state m w = (a, w1)" "run_state (f a) w1 = (r, w')"
    by (metis run_state_bindE)
  with promptD [OF assms(1)] promptD [OF assms(2)] \<open>alone w\<close>
  show "alone w' \<and> w_db w' = w_db w \<and> w_clock w' \<le> w_clock w + (d + e)" by fastforce
qed

locale prompt_provider = async_provider connector for connector :: "('p, 'r) async" +
  assumes get_prompt: "prompt readTimeout (as_get connector ctx i)"
    and cancel_prompt: "prompt (2 * readTimeout) (as_cancel connector ctx i)"
begin

lemma Get_prompt: "prompt readTimeout (connector_Get connector ctx i)"
  unfolding prompt_def connector_Get_def act_def
  by (auto dest!: promptD [OF get_prompt] simp: alone_def)

lemma Cancel_prompt: "prompt (2 * readTimeout) (connector_Cancel connector ctx i)"
  unfolding prompt_def connector_Cancel_def act_def
  by (auto dest!: promptD [OF cancel_prompt] simp: alone_def)

text \<open>A look at a call takes three reads at most: a stuck streamed call whose stop finds it finished.\<close>

lemma ask_alone:
  assumes "run_state (check_ask ctx connector g start i) w = (r, w')" and "alone w"
  shows "alone w' \<and> w_db w' = w_db w \<and> w_clock w' \<le> w_clock w + 3 * readTimeout"
proof -
  have pos: "0 \<le> readTimeout" by (simp add: readTimeout_def)
  have stop: "alone v' \<and> w_db v' = w_db v \<and> w_clock v' \<le> w_clock v + 2 * readTimeout"
    if "run_state (ask_stop ctx connector i since) v = (a, v')" "alone v" for since v a v'
    using that by (auto simp: ask_stop_def split: prod.splits dest: promptD [OF Cancel_prompt])
  show ?thesis
  proof (cases "stop_wanted g start")
    case (Some since)
    with assms(1) have "run_state (ask_stop ctx connector i since) w = (r, w')" by (simp add: check_ask_def)
    from stop [OF this assms(2)] pos show ?thesis by simp
  next
    case None
    obtain res w1 where get: "run_state (connector_Get connector ctx i) w = (res, w1)" by fastforce
    note got = promptD [OF Get_prompt get assms(2)]
    show ?thesis
    proof (cases "r = (res, None) \<and> w' = w1")
      case True
      with got pos show ?thesis by simp
    next
      case False
      with None get assms(1) have "run_state (ask_stop ctx connector i (start + streamQueuedCeiling)) w1 = (r, w')"
        by (auto simp: check_ask_def split: sum.splits if_splits)
      with stop [OF this] got show ?thesis by simp
    qed
  qed
qed

end

text \<open>A request the transport sends ends by its context's deadline: the connector's reads are prompt.\<close>

locale deadline_transport = openai_transport client for client :: "'p openai" +
  assumes send_ends: "alone w \<Longrightarrow> run_state (oa_send client (Some t) rq) w = (r, w') \<Longrightarrow>
      w_clock w' \<le> max (w_clock w) t"
begin

lemma read_prompt: "prompt readTimeout (send_read client ctx rq)"
  unfolding prompt_def
proof (intro allI impI)
  fix w r w'
  assume run: "run_state (send_read client ctx rq) w = (r, w')" and alone: "alone w"
  obtain t where t: "with_timeout ctx (w_clock w) readTimeout = Some t" "t \<le> w_clock w + readTimeout"
    by (auto simp: with_timeout_def split: option.splits)
  with run obtain a where "run_state (oa_send client (Some t) rq) w = (a, w')"
    by (auto simp: send_read_def time_Now_def split: prod.splits)
  from send_ends [OF alone this] state_io_relD [OF read_outside run] alone t(2)
  show "alone w' \<and> w_db w' = w_db w \<and> w_clock w' \<le> w_clock w + readTimeout"
    by (auto simp: outside_def untouched_def world_run_def alone_def readTimeout_def)
qed

lemma Get_prompt: "prompt readTimeout (OpenAI_Get client ctx i)"
  using prompt_bind [OF read_prompt prompt_return [of 0]] by (simp add: OpenAI_Get_def)

lemma Cancel_prompt: "prompt (2 * readTimeout) (OpenAI_Cancel client ctx i)"
proof -
  have "0 \<le> readTimeout" by (simp add: readTimeout_def)
  then have "prompt (readTimeout + readTimeout) (OpenAI_Cancel client ctx i)"
    unfolding OpenAI_Cancel_def
    by (intro prompt_bind read_prompt)
       (auto intro: prompt_return Get_prompt split: sum.split option.split)
  then show ?thesis by simp
qed

end

sublocale deadline_transport < prompts: prompt_provider "OpenAI_async client"
  by unfold_locales (simp_all add: Get_prompt Cancel_prompt)

context deadline_transport
begin

lemma prompt_contract: "prompt_provider (OpenAI_async client :: ('p, 'r) async)"
  by (rule prompts.prompt_provider_axioms)

end

definition prompt_registry :: "('p, 'r) registry \<Rightarrow> bool" where
  "prompt_registry registry \<longleftrightarrow>
     (\<forall>p c a. registry p = Some c \<longrightarrow> con_async c = Some a \<longrightarrow> prompt_provider a)"

lemma prompt_lawful: "prompt_registry registry \<Longrightarrow> lawful registry"
  unfolding prompt_registry_def lawful_def by (blast intro: prompt_provider.axioms(1))

lemma prompt_Async: "prompt_registry registry \<Longrightarrow> registry_Async registry p = Inr a \<Longrightarrow> prompt_provider a"
  by (auto simp: prompt_registry_def registry_Async_def modeOf_def split: option.splits)


lemma verdict_message: "verdict_of g res since = Fail message failure reason \<Longrightarrow> message \<noteq> []"
  by (auto simp: verdict_of_def Let_def check_messages split: sum.splits if_splits)

text \<open>
  A generation past its time: it never started, or its call ran for its ceiling and stops were tried for
  their whole window.
\<close>

definition overdue :: "generation \<Rightarrow> time \<Rightarrow> bool" where
  "overdue g now \<longleftrightarrow>
     (case gen_start_requested_at g of None \<Rightarrow> True | Some start \<Rightarrow> runCeiling + stopRetryWindow \<le> now - start)"

locale undisturbed_check =
  fixes service :: "'p generation_check"
  assumes providers: "prompt_registry (gc_registry service)"
    and transactions: "answering_transactor (gc_transactor service)"

sublocale undisturbed_check < check_service service
  by (rule check_service.intro [OF prompt_lawful [OF providers] answering_transactor.axioms(1) [OF transactions]])

context undisturbed_check
begin

text \<open>A commit settles the row it was given, unless the database refuses what the provider answered.\<close>

lemma commit_alone:
  assumes "alone w" and "\<not> over ctx (w_clock w)" and "db_inv (w_db w)"
    and "find_row (w_db w) (gen_id g) = Some row" and "follows g row"
    and "terminal_status status" and "message \<noteq> Some []" and "failure \<noteq> None \<longrightarrow> status = Failed"
  shows "\<exists>res w'. run_state (check_commit service ctx g status message failure call) w = (res, w') \<and> alone w' \<and>
           ((\<exists>h. res = Inr h) \<or>
            (\<exists>e. res = Inl e \<and> err_is ErrRefused e \<and> w_db w' = w_db w \<and>
               (call_response call \<noteq> None \<or> call_usage call \<noteq> None)))"
proof -
  let ?body = "commit_body ctx (commit_request (gc_retention service) g status message failure) g call"
  have sched: "w_sched w = []" using assms(1) by (simp add: alone_def)
  have begun: "begun w = w\<lparr>w_tx := Some (w_db_clock w)\<rparr>" by (rule begun_alone [OF sched])
  obtain c s w2 where body: "run_state ?body (begun w) = ((c, Some s), w2)" and sched2: "w_sched w2 = []"
    and why: "\<And>err. c = Some err \<Longrightarrow> err_is ErrRefused err \<and> (call_response call \<noteq> None \<or> call_usage call \<noteq> None)"
    using commit_body_alone [of "begun w" ctx g row status message failure "gc_retention service" call] assms sched
    unfolding begun by auto
  obtain a w' where tx: "run_state (gc_transactor service ctx ?body) w = (a, w')" by fastforce
  have run: "run_state (check_commit service ctx g status message failure call) w =
      (case a of (Some err, _) \<Rightarrow> Inl err | (None, Some (Some settled)) \<Rightarrow> Inr settled
       | (None, _) \<Rightarrow> Inl (Panic ''no settled generation''), w')"
    by (simp add: check_commit_def tx)
  show ?thesis
  proof (cases c)
    case None
    with answering_transactor.committed_alone [OF transactions assms(1,2) _ tx] body sched2 run show ?thesis
      by (auto simp: alone_def elapse_def)
  next
    case (Some err)
    with answering_transactor.failed_alone [OF transactions assms(1,2) _ tx] body obtain e d where
      "a = (Some e, Some (Some s))" "\<forall>s. err_is s e = err_is s err" "w' = elapse d (rolled_back w w2)" by blast
    with run sched2 why [OF Some] show ?thesis
      by (auto simp: alone_def elapse_def rolled_back_def begun)
  qed
qed

lemma settleFailure_alone:
  assumes "alone w" and "db_inv (w_db w)" and "find_row (w_db w) (gen_id g) = Some row" and "follows g row"
    and "message \<noteq> []"
  shows "\<exists>h w'. run_state (check_settleFailure service ctx g message failure cause None) w = (Inr h, w') \<and> alone w'"
proof -
  let ?w = "w\<lparr>w_log := w_log w @ [failureLog g cause]\<rparr>"
  have "\<not> over (with_timeout None (w_clock w) persistenceTimeout) (w_clock ?w)"
    by (simp add: fresh_timeout persistenceTimeout_def)
  from commit_alone [OF _ this, of g row Failed "Some message" "Some failure" "zero_call\<lparr>call_response := None\<rparr>"]
    assms
  show ?thesis
    by (auto simp: check_settleFailure_def logger_Err_def time_Now_def alone_def zero_call_def live_status_def)
qed

lemma settle_call_alone:
  assumes "alone w" and "\<not> over ctx (w_clock w)" and "db_inv (w_db w)"
    and "find_row (w_db w) (gen_id g) = Some row" and "follows g row"
  shows "\<exists>res w'. run_state (check_settle service ctx g call) w = (res, w') \<and> alone w' \<and>
           ((\<exists>h. res = Inr h) \<or>
            (\<exists>e. res = Inl e \<and> err_is ErrRefused e \<and> w_db w' = w_db w \<and>
               (call_response call \<noteq> None \<or> call_usage call \<noteq> None)))"
proof -
  obtain status message where outcome: "settleOutcomeOf g call = (status, message)" by fastforce
  note terminal = settleOutcomeOf_terminal [OF outcome]
  show ?thesis
  proof (cases "status = Failed")
    case True
    let ?w = "w\<lparr>w_log := w_log w @ [failureLog g
               (if call_state call = CallFailed then call_reason call
                else (case message of None \<Rightarrow> [] | Some m \<Rightarrow> m))]\<rparr>"
    from commit_alone [of ?w ctx g row status message "Some ProviderFailed" call] assms terminal True
    show ?thesis
      by (simp add: check_settle_def outcome logger_Err_def alone_def)
  next
    case False
    from commit_alone [OF assms, of status message None call] terminal
    show ?thesis by (simp add: check_settle_def outcome False)
  qed
qed

lemma get_alone:
  assumes "alone w" and "\<not> over ctx (w_clock w)" and "db_inv (w_db w)"
    and "find_row (w_db w) i = Some row" and "gen_owner_id row = owner"
  shows "run_state (PgGenerationGet_Exec ctx i owner) w = (Inr (row\<lparr>gen_read_at := w_db_clock w\<rparr>), w)"
proof -
  have row: "row \<in> set (generations (w_db w))" "gen_id row = i" using find_row_in [OF assms(4)] by simp_all
  have "List.find (\<lambda>g. gen_id g = i \<and> gen_owner_id g = owner) (generations (w_db w)) = Some row"
    by (rule find_unique [where f = gen_id, OF db_inv_distinct [OF assms(3)] row(1)]) (use row(2) assms(5) in auto)
  with assms(1,2) show ?thesis
    by (simp add: PgGenerationGet_Exec_def statement_alone alone_def sql_get_def Let_def)
qed

text \<open>What the database refuses of an answer, past the call's ceiling, is settled as not recorded.\<close>

lemma observe_settle_alone:
  assumes "alone w" and "\<not> over ctx (w_clock w)" and "db_inv (w_db w)"
    and "find_row (w_db w) (gen_id g) = Some row" and "follows g row" and "gen_owner_id row = gen_owner_id g"
    and "runCeiling + stopRetryWindow \<le> gen_read_at g - start"
  shows "\<exists>h w'. run_state (observe_settle service ctx g start call since) w = (Inr h, w') \<and> alone w'"
proof -
  have settled: "\<exists>r w'. run_state (do {
         settled \<leftarrow> check_settle service ctx h call;
         case settled of
           Inl err \<Rightarrow>
             if err_is ErrRefused err \<and> gen_read_at h - start \<ge> runCeiling + stopRetryWindow
             then check_settleFailure service ctx h failureNotRecorded ProviderFailed (err_text err) None
             else State_Monad.return (Inl err)
         | Inr settled \<Rightarrow> State_Monad.return (Inr settled)
       }) w = (Inr r, w') \<and> alone w'"
    if h: "gen_id h = gen_id g" "follows h row" "gen_read_at h = gen_read_at g" for h
  proof -
    have row: "find_row (w_db w) (gen_id h) = Some row" using assms(4) h(1) by simp
    from settle_call_alone [OF assms(1,2,3) row h(2), of call] obtain res w1 where
      s: "run_state (check_settle service ctx h call) w = (res, w1)" "alone w1"
      and res: "(\<exists>h. res = Inr h) \<or> (\<exists>e. res = Inl e \<and> err_is ErrRefused e \<and> w_db w1 = w_db w)" by blast
    show ?thesis
    proof (cases res)
      case (Inr r)
      with s show ?thesis by simp
    next
      case (Inl e)
      with res have e: "err_is ErrRefused e" "w_db w1 = w_db w" by auto
      from settleFailure_alone [OF s(2), where g = h and message = failureNotRecorded and failure = ProviderFailed
          and cause = "err_text e" and ctx = ctx] assms(3) row h(2) e(2)
      have "\<exists>r w'. run_state (check_settleFailure service ctx h failureNotRecorded ProviderFailed (err_text e) None) w1 =
          (Inr r, w') \<and> alone w'" by (simp add: failureNotRecorded_def)
      with s Inl e(1) h(3) assms(7) show ?thesis by simp
    qed
  qed
  show ?thesis
  proof (cases "call_state call = CallCancelled \<and> gen_cancel_requested_at g = None \<and> since = None")
    case True
    let ?h = "g\<lparr>gen_cancel_requested_at := gen_cancel_requested_at row\<rparr>"
    have "follows ?h row" using assms(5) by (simp add: follows_def)
    from settled [OF _ this] True get_alone [OF assms(1-4,6)] show ?thesis
      by (simp add: observe_settle_def cong: sum.case_cong prod.case_cong)
  next
    case False
    with settled [of g] assms(5) show ?thesis
      unfolding observe_settle_def if_not_P [OF False] by simp
  qed
qed

text \<open>Once the call is past its ceiling and its stop window, every verdict settles.\<close>

lemma observe_alone:
  assumes "alone w" and "ctx = with_timeout None (w_clock w) checkTimeout" and "db_inv (w_db w)"
    and "find_row (w_db w) (gen_id g) = Some row" and "follows g row" and "gen_owner_id row = gen_owner_id g"
    and "gen_start_requested_at g = Some start" and "gen_provider_call_id g = Some i"
    and "runCeiling + stopRetryWindow \<le> gen_read_at g - start"
  shows "\<exists>h w'. run_state (check_observe service ctx g) w = (Inr h, w') \<and> alone w'"
proof (cases "registry_Async (gc_registry service) (gen_provider g)")
  case (Inl err)
  with settleFailure_alone [OF assms(1,3,4,5), where message = failureProviderUnavailable and failure = OutcomeUnknown
      and cause = "err_text err" and ctx = ctx]
  show ?thesis by (simp add: check_observe_def failureProviderUnavailable_def)
next
  case (Inr connector)
  note provider = prompt_Async [OF providers Inr]
  obtain res since w1 where ask: "run_state (check_ask ctx connector g start i) w = ((res, since), w1)"
    by (metis surj_pair)
  from prompt_provider.ask_alone [OF provider ask assms(1)]
  have w1: "alone w1" "w_db w1 = w_db w" "w_clock w1 \<le> w_clock w + 3 * readTimeout" by simp_all
  then have open1: "\<not> over ctx (w_clock w1)"
    unfolding assms(2) by (simp add: over_def with_timeout_def checkTimeout_def readTimeout_def)
  have inv1: "db_inv (w_db w1)" and row1: "find_row (w_db w1) (gen_id g) = Some row" using assms(3,4) w1(2) by simp_all
  have "verdict_of g res since \<noteq> Leave"
    by (rule out_of_time_verdict [OF _ ask]) (use assms(9) in \<open>simp add: out_of_time_def\<close>)
  then consider (settle) call where "verdict_of g res since = Settle call"
    | (fail) message failure reason where "verdict_of g res since = Fail message failure reason"
    by (cases "verdict_of g res since") auto
  then show ?thesis
  proof cases
    case (settle call)
    from observe_settle_alone [OF w1(1) open1 inv1 row1 assms(5,6,9), of call since] settle ask Inr assms(7,8)
    show ?thesis by (simp add: check_observe_def)
  next
    case (fail message failure reason)
    then have "message \<noteq> []" by (rule verdict_message)
    from settleFailure_alone [OF w1(1) inv1 row1 assms(5) this, where failure = failure and cause = reason and ctx = ctx] fail ask Inr assms(7,8)
    show ?thesis by (simp add: check_observe_def)
  qed
qed

text \<open>A check of a generation read past its time: it settles it, through whichever branch it takes.\<close>

lemma transition_alone:
  assumes "alone w" and "ctx = with_timeout None (w_clock w) checkTimeout" and "db_inv (w_db w)"
    and "find_row (w_db w) (gen_id row) = Some row" and "live_status (gen_status row)" and "overdue row t"
    and "g = row\<lparr>gen_read_at := t\<rparr>"
  shows "\<exists>h w'. run_state (check_transition service ctx \<lparr>cr_generation = g, cr_start = None\<rparr>) w = (Inr h, w') \<and>
           alone w'"
proof -
  have fresh: "\<not> over ctx (w_clock w)" unfolding assms(2) by (simp add: fresh_timeout checkTimeout_def)
  have row: "find_row (w_db w) (gen_id g) = Some row" "follows g row" "gen_owner_id row = gen_owner_id g"
    using assms(4,5,7) by (simp_all add: follows_def)
  have fails: "\<exists>h w'. run_state (check_settleFailure service ctx g message failure cause None) w = (Inr h, w') \<and> alone w'"
    if "message \<noteq> []" for message failure cause
    by (rule settleFailure_alone [OF assms(1,3) row(1,2) that])
  show ?thesis
  proof (cases "gen_provider_call_id g")
    case (Some i)
    with db_inv_row [OF assms(3,4)] assms(7) obtain start where start: "gen_start_requested_at g = Some start"
      by (auto simp: row_inv_def)
    with assms(6,7) have "runCeiling + stopRetryWindow \<le> gen_read_at g - start" by (simp add: overdue_def)
    from observe_alone [OF assms(1-3) row start Some this] Some show ?thesis
      by (simp add: check_transition_def)
  next
    case None
    show ?thesis
    proof (cases "gen_start_requested_at g")
      case (Some start)
      with assms(6,7) have "startOutcomeUnknownAfter \<le> gen_read_at g - start"
        by (simp add: overdue_def check_constants)
      with fails [of failureOutcomeUnknown OutcomeUnknown] None Some show ?thesis
        by (simp add: check_transition_def check_resolveStart_def failureOutcomeUnknown_def)
    next
      case unstarted: None
      let ?call = "zero_call\<lparr>call_state := CallCancelled\<rparr>"
      have "\<exists>h w'. run_state (check_settle service ctx g ?call) w = (Inr h, w') \<and> alone w'"
        using settle_call_alone [OF assms(1) fresh assms(3) row(1,2), of ?call] by (auto simp: zero_call_def)
      with fails [of failureStartFailed NotStarted] None unstarted show ?thesis
        by (simp add: check_transition_def failureStartFailed_def)
    qed
  qed
qed

lemma transition_settles:
  assumes "row_inv row" and "overdue row t" and "g = row\<lparr>gen_read_at := t\<rparr>"
  shows "settles (check_transition service ctx \<lparr>cr_generation = g, cr_start = None\<rparr>)"
proof (cases "gen_provider_call_id g")
  case (Some i)
  with assms(1,3) obtain start where start: "gen_start_requested_at g = Some start"
    by (auto simp: row_inv_def)
  with assms(2,3) have "out_of_time g start" by (simp add: overdue_def out_of_time_def)
  with observe_settles [OF start Some] have "settles (check_observe service ctx g)"
    by (blast dest: out_of_time_verdict)
  with Some show ?thesis by (simp add: check_transition_def)
next
  case None
  show ?thesis
  proof (cases "gen_start_requested_at g")
    case (Some start)
    with assms(2,3) have "startOutcomeUnknownAfter \<le> gen_read_at g - start"
      by (simp add: overdue_def check_constants)
    with None Some settleFailure_settles show ?thesis
      by (simp add: check_transition_def check_resolveStart_def)
  next
    case unstarted: None
    with None settleFailure_settles settle_settles show ?thesis by (simp add: check_transition_def)
  qed
qed

lemma exec_alone:
  assumes "alone w" and "db_inv (w_db w)" and "find_row (w_db w) i = Some row"
    and "live_status (gen_status row)" and "overdue row t"
  shows "\<exists>h w' settled. run_state (GenerationCheck_Exec service
             \<lparr>cr_generation = row\<lparr>gen_read_at := t\<rparr>, cr_start = None\<rparr>) w = (Inr h, w') \<and> alone w' \<and>
           find_row (w_db w') i = Some settled \<and> \<not> live_status (gen_status settled) \<and>
           h = settled\<lparr>gen_read_at := 0\<rparr>"
proof -
  let ?g = "row\<lparr>gen_read_at := t\<rparr>"
  let ?request = "\<lparr>cr_generation = ?g, cr_start = None\<rparr>"
  let ?ctx = "with_timeout None (w_clock w) checkTimeout"
  have row: "find_row (w_db w) (gen_id row) = Some row" "gen_id row = i" using assms(3) find_row_in [OF assms(3)] by simp_all
  have inv: "row_inv row" by (rule db_inv_row [OF assms(2,3)])
  from transition_alone [OF assms(1) HOL.refl assms(2) row(1) assms(4,5) HOL.refl] obtain h w' where
    run: "run_state (check_transition service ?ctx ?request) w = (Inr h, w')" "alone w'" by blast
  have open_row: "gen_settled_at ?g = None" using inv assms(4) by (simp add: row_inv_def)
  with run have exec: "run_state (GenerationCheck_Exec service ?request) w = (Inr h, w')"
    by (simp add: GenerationCheck_Exec_def time_Now_def Let_def)
  from settlesD [OF transition_settles [OF inv assms(5) HOL.refl] run(1)] assms(1,2) obtain settled where
    "find_row (w_db w') (gen_id h) = Some settled" "\<not> live_status (gen_status settled)"
    "h = settled\<lparr>gen_read_at := 0\<rparr>" by (auto simp: alone_def)
  moreover have "gen_id h = i"
    using answersD [OF exec_answers exec] assms(1,2) row(2) by (simp add: alone_def)
  ultimately show ?thesis using exec run(2) by blast
qed

end

section \<open>Instances\<close>

lemma pg_answers:
  assumes "alone w"
  shows "fst (run_state body (begun w)) = (None, a) \<Longrightarrow> fst (run_state (pg_transactor ctx body) w) = (None, Some a)"
    and "fst (run_state body (begun w)) = (Some err, a) \<Longrightarrow>
      fst (run_state (pg_transactor ctx body) w) = (Some (Wrap ''run transaction'' err), Some a)"
proof -
  have slot: "fst (run_state next_slot w) = quiet_slot" using assms by (simp add: next_slot_alone alone_def)
  show "fst (run_state body (begun w)) = (None, a) \<Longrightarrow> fst (run_state (pg_transactor ctx body) w) = (None, Some a)"
    and "fst (run_state body (begun w)) = (Some err, a) \<Longrightarrow>
      fst (run_state (pg_transactor ctx body) w) = (Some (Wrap ''run transaction'' err), Some a)"
    by (cases "run_state body (begun w)"; simp add: pg_transactor_def slot quiet_slot_def)+
qed

interpretation answering_pg: answering_transactor pg_transactor
  by unfold_locales (simp_all add: pg_answers)

interpretation prompt_openai: deadline_transport "sample_openai sends opens" for sends opens
  by (rule deadline_transport.intro [OF sample_transport], unfold_locales) (auto simp: sample_openai_def)

lemma canned_prompt:
  assumes "\<And>x. s = Inr x \<Longrightarrow> call_id x \<noteq> []"
  shows "prompt_provider (canned_async s g c)"
  by (rule prompt_provider.intro [OF canned_provider [OF assms]], assumption, unfold_locales)
     (simp_all add: canned_async_def prompt_return readTimeout_def)

lemma sample_prompt: "prompt_registry (gc_registry sample_service)"
  unfolding prompt_registry_def
proof (intro allI impI)
  fix p c a
  assume "gc_registry sample_service p = Some c" and "con_async c = Some a"
  then have "c = sample_connector" by (cases "p = ''openai''") (simp_all add: sample_registry)
  with \<open>con_async c = Some a\<close> have
    "a = canned_async (Inr (zero_call\<lparr>call_id := ''resp_1''\<rparr>)) (Inr sample_call) (Inr sample_call)"
    by (simp add: sample_mode)
  then show "prompt_provider a" by (auto intro!: canned_prompt)
qed

lemma sample_answering: "answering_transactor (gc_transactor sample_service)"
  using answering_pg.answering_transactor_axioms by (simp add: sample_service_def)

interpretation sample_undisturbed: undisturbed_check sample_service
  by (rule undisturbed_check.intro [OF sample_prompt sample_answering])

section \<open>Properties\<close>

text \<open>C9: No generation stays live past its time. Whatever the provider answers or fails to, and whatever
  of its answer the database refuses, an undisturbed check of a generation that never started, or whose
  call ran for its ceiling and the window of its stops, answers and has settled it. The connector's three
  reads and the settle fit the time of one check.\<close>

theorem overdue_check_settles:
  assumes "prompt_registry (gc_registry service)" and "answering_transactor (gc_transactor service)"
    and "w_sched w = []" and "w_tx w = None" and "db_inv (w_db w)"
    and "find_row (w_db w) i = Some row" and "live_status (gen_status row)" and "overdue row now"
  shows "\<exists>h w' settled. run_state (GenerationCheck_Exec service
             \<lparr>cr_generation = row\<lparr>gen_read_at := now\<rparr>, cr_start = None\<rparr>) w = (Inr h, w') \<and>
           find_row (w_db w') i = Some settled \<and> \<not> live_status (gen_status settled) \<and>
           h = settled\<lparr>gen_read_at := 0\<rparr>"
proof -
  have "undisturbed_check service" using assms(1,2) by (rule undisturbed_check.intro)
  moreover have "alone w" using assms(3,4) by (simp add: alone_def)
  ultimately show ?thesis using undisturbed_check.exec_alone assms(5-8) by blast
qed

text \<open>The provider's answer is no JSON the database takes: past its ceiling, the call is settled without it.\<close>

definition sample_refusing_db :: database where
  "sample_refusing_db = sample_running_db\<lparr>json_ok := \<lambda>_. False\<rparr>"

theorem overdue_check_settles_witness:
  "\<exists>h w' settled. run_state (GenerationCheck_Exec sample_service
       \<lparr>cr_generation = sample_running\<lparr>gen_read_at := 3 * hour\<rparr>, cr_start = None\<rparr>)
       (sample_world sample_refusing_db) = (Inr h, w') \<and>
     find_row (w_db w') 1 = Some settled \<and> \<not> live_status (gen_status settled) \<and> h = settled\<lparr>gen_read_at := 0\<rparr>"
proof (rule overdue_check_settles [OF sample_prompt sample_answering])
  show "w_sched (sample_world sample_refusing_db) = []" "w_tx (sample_world sample_refusing_db) = None"
    by (simp_all add: sample_world_def)
  show "db_inv (w_db (sample_world sample_refusing_db))"
    using sample_running_inv by (simp add: sample_world_def sample_refusing_db_def db_inv_def)
  show "find_row (w_db (sample_world sample_refusing_db)) 1 = Some sample_running"
    by (simp add: sample_world_def sample_refusing_db_def sample_running_db_def find_row_def sample_running_def
        new_row_def sample_request_def)
  show "live_status (gen_status sample_running)" by (simp add: sample_running_def live_status_def)
  show "overdue sample_running (3 * hour)"
    by (simp add: overdue_def sample_running_def new_row_def check_constants)
qed

section \<open>Disturbed\<close>

text \<open>
  Disturbed, a check may outlast \<open>checkTimeout\<close>, by the write of a failure: a commit that waits fifty-five
  seconds for a connection, and whose answer the database then refuses, is followed by one with a timeout of
  its own.
\<close>

definition slow_world :: "unit world" where
  "slow_world = (sample_world sample_refusing_db)
     \<lparr>w_sched := [quiet_slot\<lparr>sl_delay := 55000000000\<rparr>, quiet_slot\<lparr>sl_elapsed := 3000000000\<rparr>, quiet_slot, quiet_slot,
        quiet_slot\<lparr>sl_elapsed := 3000000000\<rparr>]\<rparr>"

theorem check_may_outlast_its_timeout:
  "\<exists>h w'. run_state (GenerationCheck_Exec sample_service
     \<lparr>cr_generation = sample_running\<lparr>gen_read_at := 3 * hour\<rparr>, cr_start = None\<rparr>) slow_world = (Inr h, w') \<and>
     w_clock slow_world + checkTimeout < w_clock w'"
  by (simp add: slow_world_def sample_world_def GenerationCheck_Exec_def check_transition_def check_observe_def
    time_Now_def Let_def sample_running_def new_row_def sample_request_def sample_service_def
    registry_Async_def modeOf_def sample_connector_def check_ask_def stop_wanted_def check_constants ask_stop_def connector_Cancel_def
    canned_async_def act_def verdict_of_def sample_call_def zero_call_def Terminal_def observe_settle_def
    check_settle_def settleOutcomeOf_def check_commit_def pg_transactor_def next_slot_def quiet_slot_def arrive_def begun_def
    commit_body_def PgGenerationSettle_Exec_def statement_def run_statement_def with_timeout_def over_def elapse_def time_left_def
    cut_short_def sql_settle_def update_generation_def sample_refusing_db_def sample_running_db_def sample_db_def settle_match_def
    commit_request_def settle_row_def live_status_def generation_row_check_def check_recordAttempt_def
    PgGenerationAttemptInsert_Exec_def sql_attempt_insert_def refused_def refusedClasses_def rolled_back_def
    check_settleFailure_def logger_Err_def check_recordUsage_def failureNotRecorded_def)

end
