(* ===== verification/Sweep_Properties.thy ===== *)
theory Sweep_Properties
  imports Sweep Services_Properties
begin

text \<open>
  What a sweep is proved to do: it starts no call, misses no generation that stays unsettled,
  reads none twice, leads alone, and always hands the leader role back.
\<close>

section \<open>Guarantees of a sweep\<close>

context check_service
begin

lemma check_unstarted: "state_io_rel top_quiet (GenerationCheck_Exec service \<lparr>cr_generation = g, cr_start = None\<rparr>)"
  by (rule calm.unstarted) (simp add: sends_start_def)

end

lemma calm_primitives: "state_io_rel top_quiet next_slot" "state_io_rel top_quiet time_Now"
  by (simp_all add: top_quiet_mono run_primitives quiet_primitives)

locale sweep_service =
  fixes service :: "'p generation_sweep"
  assumes check: "check_service (gw_check service)"
begin

lemma dispatch_calm: "state_io_rel top_quiet (sweep_dispatch service ctx lastStart gens)"
proof (induction gens)
  case (Cons g gens)
  then show ?case
    unfolding sweep_dispatch.simps checkOne_def
    by (intro calms.guarantee_constructs calm_primitives check_service.check_unstarted [OF check])
qed (simp add: calms.guarantee_return)

lemma batch_calm: "state_io_rel top_quiet (sweepBatch service ctx lastStart after)"
  unfolding sweepBatch_def
  by (intro calms.guarantee_constructs calm_primitives dispatch_calm top_quiet_mono dsweep.run dsweep.quiet)

lemma pages_calm: "sweep_pages service ctx lastStart after read w = (res, w') \<Longrightarrow> top_quiet w w'"
proof (induction "2 ^ 128 - unat after :: nat" arbitrary: after read w rule: less_induct)
  case less
  from less.prems show ?case
  proof (cases rule: sweep_pages_cases)
    case ended
    then show ?thesis by (simp add: calms.refl)
  next
    case (more gens w1)
    from less.hyps [OF sweep_cursor [OF more(1,3)] more(4)] state_io_relD [OF batch_calm more(1)]
    show ?thesis by (rule calms.trans [rotated])
  qed (auto intro: state_io_relD [OF batch_calm])
qed

lemma exec_calm: "state_io_rel top_quiet (GenerationSweep_Exec service deadline ctx session)"
proof -
  have pages: "state_io_rel top_quiet (State (sweep_pages service c l a read))" for c l a read
    using pages_calm [OF prod.collapse [symmetric]] by (simp add: state_io_rel_def)
  show ?thesis
    unfolding GenerationSweep_Exec_def Let_def
    by (intro calms.guarantee_constructs calm_primitives pages top_quiet_mono run_sweep_lock quiet_sweep_lock
          run_sweep_unlock quiet_sweep_unlock)
qed

text \<open>The identifiers of the pages go up, from the cursor on.\<close>

lemma page_sorted:
  assumes "run_state (sweepBatch service ctx lastStart after) w = (Inr gens, w')"
    and "w_tx w = None" and "db_inv (w_db w)"
  shows "sorted_wrt (<) (map gen_id gens)"
  using assms(1)
proof (cases rule: sweepBatch_answer)
  case (stopped e w1)
  then show ?thesis by simp
next
  case (paged w1)
  from paged(1) show ?thesis
  proof (cases rule: sweep_page)
    case (1 sl v d)
    let ?live = "filter (\<lambda>g. live_status (gen_status g) \<and> after < gen_id g) (generations (w_db v))"
    have "distinct (map gen_id (generations (w_db v)))"
      using db_inv_distinct slot_inv [OF 1(1) assms(2,3)] by blast
    then have "distinct (map gen_id (sort_key gen_id ?live))"
      by (simp add: distinct_map inj_on_def)
    then have "sorted_wrt (<) (map gen_id (sort_key gen_id ?live))"
      by (simp add: strict_sorted_iff)
    then have "sorted_wrt (<) (map gen_id (take (gw_batch_size service) (sort_key gen_id ?live)))"
      by (simp only: take_map [symmetric] sorted_wrt_take)
    with 1(3) show ?thesis by (simp add: comp_def)
  qed
qed

lemma batch_kept:
  assumes "run_state (sweepBatch service ctx lastStart after) w = (page, w1)"
    and "w_tx w = None" and "db_inv (w_db w)"
  shows "world_run w w1 \<and> w_tx w1 = None \<and> db_inv (w_db w1)"
proof -
  have "top_quiet w w1" by (rule state_io_relD [OF batch_calm assms(1)])
  with assms(2) have "world_run w w1" by (simp add: top_quiet_def)
  with world_run_inv [OF this assms(2,3)] show ?thesis by simp
qed

lemma pages_sorted:
  "sweep_pages service ctx lastStart after read w = (Inr out, w') \<Longrightarrow> w_tx w = None \<Longrightarrow> db_inv (w_db w) \<Longrightarrow>
   \<exists>more. out = read @ more \<and> sorted_wrt (<) (map gen_id more) \<and> (\<forall>g \<in> set more. after < gen_id g)"
proof (induction "2 ^ 128 - unat after :: nat" arbitrary: after read w rule: less_induct)
  case less
  from less.prems(1) show ?case
  proof (cases rule: sweep_pages_cases)
    case (last gens)
    with page_sorted [OF last(1) less.prems(2,3)] sweepBatch_after [OF last(1)] show ?thesis by auto
  next
    case (more gens w1)
    have kept: "w_tx w1 = None" "db_inv (w_db w1)"
      using batch_kept [OF more(1) less.prems(2,3)] by simp_all
    obtain rest :: "generation list" where rest: "out = (read @ gens) @ rest" "sorted_wrt (<) (map gen_id rest)"
      "\<forall>g \<in> set rest. gen_id (last gens) < gen_id g"
      using less.hyps [OF sweep_cursor [OF more(1,3)] more(4) kept] by (elim exE conjE)
    have page: "sorted_wrt (<) (map gen_id gens)" by (rule page_sorted [OF more(1) less.prems(2,3)])
    have upto: "gen_id g \<le> gen_id (last gens)" if "g \<in> set gens" for g
    proof -
      from page have "sorted (map gen_id gens)" using strict_sorted_iff by blast
      with that more(3) show ?thesis
        by (cases gens rule: rev_cases) (auto simp: sorted_append)
    qed
    with page rest have "sorted_wrt (<) (map gen_id (gens @ rest))"
      by (auto simp: sorted_wrt_append intro: le_less_trans)
    moreover have "\<forall>g \<in> set (gens @ rest). after < gen_id g"
      using rest(3) sweepBatch_after [OF more(1)] last_in_set [OF more(3)] by (auto intro: less_trans)
    ultimately show ?thesis using rest(1) by (intro exI [of _ "gens @ rest"]) simp
  qed auto
qed

text \<open>A page reads every live row past its cursor, or the rows it leaves out come after its last.\<close>

lemma page_covers:
  assumes "run_state (sweepBatch service ctx lastStart after) w = (Inr gens, w1)"
    and "w_tx w = None" and "db_inv (w_db w)" and "find_row (w_db w) i = Some g" and "after < i"
  obtains (read) "i \<in> gen_id ` set gens"
  | (settled) g' where "row_run (w_db_clock w) g (w_db_clock w1) g'" and "\<not> live_status (gen_status g')"
  | (cut) "over ctx (w_clock w1)"
  | (later) h where "length gens = gw_batch_size service" and "gens \<noteq> [] \<Longrightarrow> gen_id (last gens) < i"
      and "row_run (w_db_clock w) g (w_db_clock w1) h" and "find_row (w_db w1) i = Some h"
proof -
  note kept = batch_kept [OF assms(1-3)]
  from kept world_tracks [OF _ assms(2-4)] obtain h where h: "row_run (w_db_clock w) g (w_db_clock w1) h"
    "row_inv h" "find_row (w_db w1) i = Some h \<or> expired (w_db_clock w1) h" by blast
  show thesis
  proof (cases "expired (w_db_clock w1) h \<or> i \<in> gen_id ` set gens \<or> over ctx (w_clock w1)")
    case True
    with h expired_settled [OF h(2)] settled [OF h(1)] read cut show thesis by blast
  next
    case False
    with h(3) have found: "find_row (w_db w1) i = Some h" by blast
    from False have unread: "i \<notin> gen_id ` set gens" by blast
    from assms(1) show thesis
    proof (cases rule: sweepBatch_answer)
      case (stopped e w2)
      with False show thesis by simp
    next
      case (paged w2)
      from paged(1) show thesis
      proof (cases rule: sweep_page)
        case (1 sl v d)
        let ?live = "filter (\<lambda>g. live_status (gen_status g) \<and> after < gen_id g) (generations (w_db v))"
        let ?n = "gw_batch_size service" and ?page = "sort_key gen_id ?live"
        have v: "world_run w v" by (rule state_io_relD [OF run_next_slot 1(1)])
        have "w_db_clock w2 \<le> w_db_clock w1"
        proof -
          have "top_quiet w2 w1" by (rule state_io_relD [OF dispatch_calm paged(2)])
          moreover have "w_tx w2 = None" using world_run_inv [OF v assms(2,3)] by (simp add: 1(2) elapse_def)
          ultimately show ?thesis by (simp add: top_quiet_def world_run_def)
        qed
        then have clock: "w_db_clock v \<le> w_db_clock w1" by (simp add: 1(2) elapse_def)
        from world_tracks [OF v assms(2-4)] obtain k where k: "row_run (w_db_clock w) g (w_db_clock v) k" "row_inv k"
          "find_row (w_db v) i = Some k \<or> expired (w_db_clock v) k" by blast
        show thesis
        proof (cases "live_status (gen_status k)")
          case False
          then show thesis using settled [OF row_run_later [OF k(1) clock]] by blast
        next
          case True
          with k expired_settled have "find_row (w_db v) i = Some k" by blast
          from find_row_in [OF this] True assms(5) have k_in: "k \<in> set ?page" "gen_id k = i" by auto
          have out: "k \<notin> set (take ?n ?page)"
          proof
            assume "k \<in> set (take ?n ?page)"
            then have "i \<in> gen_id ` set gens" using 1(3) k_in(2) by (force simp: image_iff)
            with unread show False by blast
          qed
          have past: "k \<in> set (drop ?n ?page)"
          proof -
            have "k \<in> set (take ?n ?page @ drop ?n ?page)" using k_in(1) by (simp only: append_take_drop_id)
            with out show ?thesis unfolding set_append by blast
          qed
          then have full: "length gens = ?n"
            using 1(3) by (cases "length ?page \<le> ?n") (simp_all add: min_def)
          have "gen_id (last gens) < i" if some: "gens \<noteq> []"
          proof -
            from some 1(3) obtain x where x: "x \<in> set (take ?n ?page)" "gen_id x = gen_id (last gens)"
              using last_in_set [OF some] by auto
            have "sorted (map gen_id (take ?n ?page @ drop ?n ?page))" by simp
            then have "\<forall>a \<in> set (map gen_id (take ?n ?page)). \<forall>b \<in> set (map gen_id (drop ?n ?page)). a \<le> b"
              unfolding map_append sorted_append by blast
            then have "gen_id x \<le> gen_id k" using x(1) past unfolding set_map by blast
            moreover have "gen_id (last gens) \<noteq> i"
              using imageI [OF last_in_set [OF some], of gen_id] unread by metis
            ultimately show ?thesis using x(2) k_in(2) by simp
          qed
          with full later [OF _ _ h(1) found] show thesis by blast
        qed
      qed
    qed
  qed
qed

lemma pages_cover:
  "sweep_pages service ctx lastStart after read w = (Inr out, w') \<Longrightarrow> w_tx w = None \<Longrightarrow> db_inv (w_db w) \<Longrightarrow>
   find_row (w_db w) i = Some g \<Longrightarrow> after < i \<Longrightarrow>
   i \<in> gen_id ` set out \<or>
   (\<exists>g'. row_run (w_db_clock w) g (w_db_clock w') g' \<and> \<not> live_status (gen_status g')) \<or>
   over ctx (w_clock w') \<or> \<not> mayStart lastStart (w_clock w')"
proof (induction "2 ^ 128 - unat after :: nat" arbitrary: after read w g rule: less_induct)
  case less
  from less.prems(1) show ?case
  proof (cases rule: sweep_pages_cases)
    case ended
    then show ?thesis by blast
  next
    case (last gens)
    from last(1) less.prems(2-5) show ?thesis
    proof (cases rule: page_covers)
      case (later h)
      with last(2) show ?thesis by simp
    qed (use last(3) in auto)
  next
    case (more gens w1)
    note kept = batch_kept [OF more(1) less.prems(2,3)]
    have onward: "top_quiet w1 w'" by (rule pages_calm [OF more(4)])
    with kept have world: "world_run w1 w'" by (simp add: top_quiet_def)
    from pages_sorted [OF more(4)] kept have grown: "set gens \<subseteq> set out" by auto
    from more(1) less.prems(2-5) show ?thesis
    proof (cases rule: page_covers)
      case read
      with grown show ?thesis by auto
    next
      case (settled g')
      then have "row_run (w_db_clock w) g (w_db_clock w') g'"
        using row_run_later world by (auto simp: world_run_def)
      with settled(2) show ?thesis by blast
    next
      case cut
      then have "over ctx (w_clock w')" using world by (auto simp: over_def world_run_def split: option.splits)
      then show ?thesis by blast
    next
      case (later h)
      from kept have top: "w_tx w1 = None" "db_inv (w_db w1)" by simp_all
      from less.hyps [OF sweep_cursor [OF more(1,3)] more(4) top later(4) later(2) [OF more(3)]]
      show ?thesis
      proof (elim disjE exE conjE)
        fix g'
        assume "row_run (w_db_clock w1) h (w_db_clock w') g'" and "\<not> live_status (gen_status g')"
        with row_run_trans [OF _ later(3)] show ?thesis by blast
      qed simp_all
    qed
  qed simp_all
qed

end

section \<open>The leader role\<close>

text \<open>Whoever took the leader role hands it back.\<close>

lemma unlock_released:
  assumes "run_state (PgGenerationSweepUnlock_Exec ctx (Some session)) w = (err, w')"
  shows "sweep_leader (w_db w') \<noteq> Some session"
proof -
  obtain res w1 where unlock: "run_state (statement ctx (\<lambda>txn now. sql_sweep_unlock session)) w = (res, w1)" by fastforce
  have freed: "sweep_leader (snd (sql_sweep_unlock session db)) \<noteq> Some session" for db
    by (simp add: sql_sweep_unlock_def)
  show ?thesis
  proof (cases res)
    case (Inl e)
    with assms unlock show ?thesis by (auto simp: PgGenerationSweepUnlock_Exec_def discard_def freed)
  next
    case (Inr unlocked)
    show ?thesis
    proof (cases unlocked)
      case True
      with assms unlock Inr have "w' = w1" by (simp add: PgGenerationSweepUnlock_Exec_def)
      from unlock [unfolded Inr] show ?thesis
      proof (cases rule: statement_cases)
        case (answered sl v d)
        then show ?thesis using \<open>w' = w1\<close> freed by simp
      qed simp
    next
      case False
      with assms unlock Inr show ?thesis by (auto simp: PgGenerationSweepUnlock_Exec_def discard_def freed)
    qed
  qed
qed

lemma lock_session:
  "run_state (PgGenerationSweepLock_Exec ctx session) w = (Inr held, w') \<Longrightarrow> held = session"
  by (auto simp: PgGenerationSweepLock_Exec_def split: if_splits prod.splits fault.splits sum.splits)

lemma locked_by_another:
  assumes "run_state (PgGenerationSweepLock_Exec ctx session) w = (Inl err, w')"
    and "err_is ErrGenerationSweepLocked err"
  shows "sweep_leader (w_db w') \<noteq> Some session"
proof (cases "w_tx w = None")
  case False
  with assms show ?thesis by (auto simp: PgGenerationSweepLock_Exec_def in_transaction_def)
next
  case True
  obtain conn w1 where conn: "run_state next_slot w = (conn, w1)" by fastforce
  obtain res w2 where lock: "run_state (statement ctx (\<lambda>txn now. sql_sweep_lock session)) w1 = (res, w2)" by fastforce
  show ?thesis
  proof (cases "sl_fault conn")
    case Fine
    show ?thesis
    proof (cases res)
      case (Inl e)
      with assms True conn lock Fine have "sweep_leader (w_db w') = sweep_leader (snd (sql_sweep_unlock session (w_db w2)))"
        by (auto simp: PgGenerationSweepLock_Exec_def in_transaction_def discard_def)
      then show ?thesis by (simp add: sql_sweep_unlock_def)
    next
      case (Inr locked)
      with assms True conn lock Fine have "w' = w2" "\<not> locked"
        by (auto simp: PgGenerationSweepLock_Exec_def in_transaction_def split: if_splits)
      from lock [unfolded Inr] show ?thesis
      proof (cases rule: statement_cases)
        case (answered sl v d)
        with \<open>w' = w2\<close> \<open>\<not> locked\<close> show ?thesis by (auto simp: sql_sweep_lock_def split: option.splits)
      qed simp
    qed
  next
    case (Lost t)
    with assms True conn show ?thesis by (auto simp: PgGenerationSweepLock_Exec_def in_transaction_def)
  next
    case (Landed t)
    with assms True conn show ?thesis by (auto simp: PgGenerationSweepLock_Exec_def in_transaction_def)
  qed
qed

section \<open>Properties\<close>

text \<open>C31: A sweep never starts a call, and under every schedule moves the tables only along the
  transactions of the program, keeping their invariant.\<close>

theorem sweep_starts_nothing:
  assumes "lawful (gc_registry (gw_check service))" and "transactor (gc_transactor (gw_check service))"
    and "run_state (GenerationSweep_Exec service deadline ctx session) w = (res, w')"
    and "w_tx w = None" and "db_inv (w_db w)"
  shows "filter is_start (w_trace w') = filter is_start (w_trace w) \<and>
         db_run (w_db_clock w) (w_db w) (w_db_clock w') (w_db w') \<and> db_inv (w_db w')"
proof -
  have service: "sweep_service service" by (rule sweep_service.intro [OF check_service.intro [OF assms(1,2)]])
  have "top_quiet w w'" by (rule state_io_relD [OF sweep_service.exec_calm [OF service] assms(3)])
  with assms(4) have run: "world_run w w'" "no_start w w'" by (simp_all add: top_quiet_def)
  with world_run_inv [OF run(1) assms(4,5)] assms(4) show ?thesis by (simp add: world_run_def no_start_def)
qed

definition sample_sweep :: "unit generation_sweep" where
  "sample_sweep = \<lparr>gw_check = sample_service, gw_batch_size = 2\<rparr>"

lemma sample_sweep_parts:
  "lawful (gc_registry (gw_check sample_sweep))" "transactor (gc_transactor (gw_check sample_sweep))"
  using sample_lawful sample_transactor by (simp_all add: sample_sweep_def)

interpretation sample_sweeps: sweep_service sample_sweep
  by (rule sweep_service.intro [OF check_service.intro [OF sample_sweep_parts]])

lemma sample_at:
  "w_tx (sample_world db) = None" "w_db (sample_world db) = db" "w_sched (sample_world db) = []"
  "w_db_clock (sample_world db) = 20" "w_clock (sample_world db) = 20"
  by (simp_all add: sample_world_def)

theorem sweep_starts_nothing_witness:
  "filter is_start (w_trace (snd (run_state (GenerationSweep_Exec sample_sweep None None 7)
     (sample_world sample_db)))) = []"
  using sweep_starts_nothing [OF sample_sweep_parts prod.collapse [symmetric], where w = "sample_world sample_db"]
    sample_db_inv
  by (simp add: sample_at sample_trace)


lemma sample_swept:
  "case fst (sweep_pages sample_sweep None None 0 [] (sample_world sample_db)) of
     Inl e \<Rightarrow> False | Inr out \<Rightarrow> map gen_id out = [1]"
  by code_simp


text \<open>A sweep reads no generation twice: the identifiers of its pages strictly increase.\<close>

theorem sweep_reads_each_once:
  assumes "lawful (gc_registry (gw_check service))" and "transactor (gc_transactor (gw_check service))"
    and "sweep_pages service ctx lastStart 0 [] w = (Inr out, w')" and "w_tx w = None" and "db_inv (w_db w)"
  shows "sorted_wrt (<) (map gen_id out)"
  using sweep_service.pages_sorted [OF sweep_service.intro [OF check_service.intro [OF assms(1,2)]] assms(3-5)]
  by auto

theorem sweep_reads_each_once_witness:
  "\<exists>out w'. sweep_pages sample_sweep None None 0 [] (sample_world sample_db) = (Inr out, w') \<and>
     sorted_wrt (<) (map gen_id out)"
proof -
  let ?run = "sweep_pages sample_sweep None None 0 [] (sample_world sample_db)"
  from sample_swept obtain out where run: "?run = (Inr out, snd ?run)"
    by (cases "fst ?run") (auto simp: prod_eq_iff)
  from sweep_reads_each_once [OF sample_sweep_parts run, unfolded sample_at, OF HOL.refl sample_db_inv] run
  show ?thesis by blast
qed

text \<open>A sweep that took the leader role has handed it back when it answers, whatever failed in it or
  in the handing back.\<close>

theorem sweep_hands_role_back:
  assumes "run_state (GenerationSweep_Exec service deadline ctx session) w = (res, w')"
    and "res \<noteq> Inl (Sentinel ErrSweepDeadlineTooShort)" and "\<nexists>e. res = Inl (Wrap ''take the leader role'' e)"
  shows "sweep_leader (w_db w') \<noteq> Some session"
proof -
  let ?last = "map_option (\<lambda>t. t - checkTimeout) deadline"
  obtain lock w1 where lock: "run_state (PgGenerationSweepLock_Exec ctx session) w = (lock, w1)" by fastforce
  have started: "mayStart ?last (w_clock w)"
    using assms(1,2) by (auto simp: GenerationSweep_Exec_def Let_def time_Now_def split: if_splits)
  show ?thesis
  proof (cases lock)
    case (Inl err)
    with assms(1,3) started lock have "err_is ErrGenerationSweepLocked err" "w' = w1"
      by (auto simp: GenerationSweep_Exec_def Let_def time_Now_def split: if_splits)
    with locked_by_another lock Inl show ?thesis by blast
  next
    case (Inr held)
    obtain swept w2 where swept: "sweep_pages service ctx ?last 0 [] w1 = (swept, w2)" by fastforce
    obtain err w3 where unlock: "run_state (PgGenerationSweepUnlock_Exec
        (with_timeout None (w_clock w2) persistenceTimeout) (Some held)) w2 = (err, w3)" by fastforce
    have "w' = w3"
      using assms(1) started lock Inr swept unlock by (auto simp: GenerationSweep_Exec_def Let_def time_Now_def)
    moreover have "held = session" using lock Inr lock_session by blast
    ultimately show ?thesis using unlock_released unlock by blast
  qed
qed

theorem sweep_hands_role_back_witness:
  "sweep_leader (w_db (snd (run_state (GenerationSweep_Exec sample_sweep None None 7) (sample_world sample_db)))) \<noteq> Some 7"
proof -
  let ?run = "run_state (GenerationSweep_Exec sample_sweep None None 7) (sample_world sample_db)"
  have "\<not> isl (fst ?run)" by code_simp
  then obtain n where "fst ?run = Inr n" by (cases "fst ?run") auto
  then have run: "?run = (Inr n, snd ?run)" by (simp add: prod_eq_iff)
  show ?thesis by (rule sweep_hands_role_back [OF run]) simp_all
qed

text \<open>One sweep runs at a time: while another session leads, a sweep reads nothing, checks nothing
  and changes nothing.\<close>

theorem led_sweep_skips:
  assumes "sweep_leader (w_db w) = Some leader" and "leader \<noteq> session" and "w_sched w = []" and "w_tx w = None"
    and "mayStart (map_option (\<lambda>t. t - checkTimeout) deadline) (w_clock w)"
  shows "run_state (GenerationSweep_Exec service deadline None session) w = (Inr 0, w)"
  using assms
  by (simp add: GenerationSweep_Exec_def Let_def time_Now_def PgGenerationSweepLock_Exec_def in_transaction_def
      next_slot_def quiet_slot_def statement_def run_statement_def over_def cut_short_def time_left_def
      sql_sweep_lock_def)

theorem led_sweep_skips_witness:
  "run_state (GenerationSweep_Exec sample_sweep None None 7) (sample_world (sample_db\<lparr>sweep_leader := Some 3\<rparr>)) =
     (Inr 0, sample_world (sample_db\<lparr>sweep_leader := Some 3\<rparr>))"
  by (rule led_sweep_skips [where leader = 3]) (simp_all add: sample_at mayStart_def)

end
