(* ===== verification/Sweep_Settles.thy ===== *)
theory Sweep_Settles
  imports Undisturbed Sweep_Properties
begin

text \<open>
  The sweep brings every generation to its end: an undisturbed sweep settles each one past its time. A check
  touches its own row alone, so the checks of a page do not hide each other's rows.
\<close>

section \<open>A check touches its own row\<close>

definition own :: "uuid set \<Rightarrow> 'p world \<Rightarrow> 'p world \<Rightarrow> bool" where
  "own ids w w' \<longleftrightarrow>
     (alone w \<longrightarrow> alone w' \<and> (\<forall>j. j \<notin> ids \<longrightarrow> find_row (w_db w') j = find_row (w_db w) j))"

interpretation owns: guarantee "own ids" for ids
  by unfold_locales (auto simp: own_def)

lemma own_time_Now: "state_io_rel (own ids) time_Now"
  and own_logger_Err: "state_io_rel (own ids) (logger_Err msg)"
  and own_next_slot: "state_io_rel (own ids) next_slot"
  by (auto simp: state_io_rel_def own_def alone_def time_Now_def logger_Err_def next_slot_def)

lemma own_get: "state_io_rel (own ids) (PgGenerationGet_Exec ctx i owner)"
proof -
  have "state_io_rel (own ids) (statement ctx (\<lambda>txn now. sql_get now i owner) :: ('p, goerr + generation) process)"
    by (auto simp: state_io_rel_def statement_def next_slot_def run_statement_def own_def alone_def quiet_slot_def
        sql_get_def elapse_def Let_def split: option.splits if_splits)
  then show ?thesis
    unfolding PgGenerationGet_Exec_def by (intro owns.guarantee_bind owns.guarantee_return)
qed

text \<open>The other statements of a transaction leave the schedule as it is, so a commit does.\<close>

definition unscheduled :: "'p world \<Rightarrow> 'p world \<Rightarrow> bool" where
  "unscheduled w w' \<longleftrightarrow> (w_sched w = [] \<longrightarrow> w_sched w' = [])"

interpretation unschedules: guarantee unscheduled
  by unfold_locales (auto simp: unscheduled_def)

lemma unscheduled_statement: "state_io_rel unscheduled (statement ctx f)"
  by (auto simp: state_io_rel_def statement_def next_slot_def run_statement_def unscheduled_def elapse_def Let_def
      split: list.splits fault.splits if_splits prod.splits)

lemma unscheduled_commit: "state_io_rel unscheduled (commit_body ctx r g call)"
  unfolding commit_body_def check_recordAttempt_def check_recordUsage_def PgGenerationSettle_Exec_def
    PgGenerationAttemptInsert_Exec_def PgGenerationUsageInsert_Exec_def
  by (intro unschedules.guarantee_constructs unscheduled_statement)

lemma settle_transaction_others:
  assumes "settle_transaction t1 t2 t3 r response usage db = (Inr g, db')" and "j \<noteq> set_id r"
  shows "find_row db' j = find_row db j"
  using assms(1)
proof (cases rule: settle_transaction_cases)
  case (1 db1 db2)
  have "generations db' = generations db1"
    using 1(2,3) by (auto dest!: attempt_insert_row usage_insert_row)
  then have "find_row db' j = find_row db1 j" by (rule find_row_same)
  also have "\<dots> = find_row db j"
  proof -
    have "List.find (\<lambda>x. gen_id x = j) (map (\<lambda>x. if settle_match r x then settle_row t1 r x else x) xs) =
        List.find (\<lambda>x. gen_id x = j) xs" for xs
      by (induction xs) (use assms(2) in \<open>auto simp: settle_match_def settle_row_def\<close>)
    with 1(1) show ?thesis
      by (auto simp: find_row_def sql_settle_def update_generation_def split: option.splits if_splits)
  qed
  finally show ?thesis .
qed

context check_service
begin

lemma commit_own:
  assumes "gen_id g \<in> ids"
  shows "state_io_rel (own ids) (check_commit service ctx g status message failure call)"
proof (rule state_io_relI)
  fix res and w w' :: "'p world"
  let ?r = "commit_request (gc_retention service) g status message failure"
  let ?body = "commit_body ctx ?r g call"
  assume run: "run_state (check_commit service ctx g status message failure call) w = (res, w')"
  have "own ids w w'" if "alone w"
  proof -
    have top: "w_tx w = None" and sched: "w_sched w = []" using that by (simp_all add: alone_def)
    have begun: "begun w = w\<lparr>w_tx := Some (w_db_clock w)\<rparr>" by (rule begun_alone [OF sched])
    from run obtain a where "run_state (gc_transactor service ctx ?body) w = (a, w')"
      by (auto simp: check_commit_def split: prod.splits)
    then have "tx_outcome ?body w a w'" by (rule transactor.outcome [OF wired_transactor top])
    moreover have "w_sched w2 = []" if "run_state ?body (begun w) = (x, w2)" for x w2
      using state_io_relD [OF unscheduled_commit that] sched by (simp add: unscheduled_def begun)
    ultimately have alone': "alone w'"
      using sched by cases (auto simp: alone_def elapse_def rolled_back_def begun)
    from run top have "find_row (w_db w') j = find_row (w_db w) j" if "j \<notin> ids" for j
    proof (cases rule: commit_cases)
      case (committed settled t1 t2 t3)
      have "j \<noteq> set_id ?r" using that assms by (auto simp: commit_request_def)
      from settle_transaction_others [OF committed(1) this] show ?thesis by (simp add: begun)
    next
      case nothing
      then show ?thesis by (simp add: begun)
    qed
    with alone' show ?thesis by (simp add: own_def)
  qed
  then show "own ids w w'" by (simp add: own_def)
qed

lemma settleFailure_own:
  "gen_id g \<in> ids \<Longrightarrow> state_io_rel (own ids) (check_settleFailure service ctx g message failure cause response)"
  unfolding check_settleFailure_def by (intro owns.guarantee_bind own_logger_Err own_time_Now commit_own)

lemma settle_own: "gen_id g \<in> ids \<Longrightarrow> state_io_rel (own ids) (check_settle service ctx g call)"
  unfolding check_settle_def Let_def by (intro owns.guarantee_constructs own_logger_Err commit_own)

lemma observe_settle_own:
  assumes "gen_id g \<in> ids"
  shows "state_io_rel (own ids) (observe_settle service ctx g start call since)"
proof -
  have rest: "state_io_rel (own ids) (do {
         settled \<leftarrow> check_settle service ctx h call;
         case settled of
           Inl err \<Rightarrow>
             if err_is ErrRefused err \<and> gen_read_at h - start \<ge> runCeiling + stopRetryWindow
             then check_settleFailure service ctx h failureNotRecorded ProviderFailed (err_text err) None
             else State_Monad.return (Inl err)
         | Inr settled \<Rightarrow> State_Monad.return (Inr settled)
       })" if "gen_id h \<in> ids" for h
    by (intro owns.guarantee_constructs settle_own settleFailure_own that)
  let ?relabel = "(if call_state call = CallCancelled \<and> gen_cancel_requested_at g = None \<and> since = None
        then do {
          res \<leftarrow> PgGenerationGet_Exec ctx (gen_id g) (gen_owner_id g);
          State_Monad.return
            (case res of
               Inl err \<Rightarrow> Inl (Wrap ''re-read generation'' err)
             | Inr current \<Rightarrow>
                 Inr (g\<lparr>gen_cancel_requested_at := gen_cancel_requested_at current\<rparr>))
        }
        else State_Monad.return (Inr g)) :: ('p, goerr + generation) process"
  have named: "gen_id h = gen_id g" if "run_state ?relabel w = (Inr h, w')" for h w w'
    using that by (auto split: if_splits prod.splits sum.splits)
  show ?thesis
    unfolding observe_settle_def
  proof (rule owns.guarantee_bind_answer)
    show "state_io_rel (own ids) ?relabel" by (intro owns.guarantee_constructs own_get)
  next
    fix a w w'
    assume "run_state ?relabel w = (a, w')"
    with named assms have "\<And>h. a = Inr h \<Longrightarrow> gen_id h \<in> ids" by metis
    with rest show "state_io_rel (own ids) (case a of Inl err \<Rightarrow> State_Monad.return (Inl err)
        | Inr g \<Rightarrow> do {
            settled \<leftarrow> check_settle service ctx g call;
            case settled of
              Inl err \<Rightarrow>
                if err_is ErrRefused err \<and> gen_read_at g - start \<ge> runCeiling + stopRetryWindow
                then check_settleFailure service ctx g failureNotRecorded ProviderFailed (err_text err) None
                else State_Monad.return (Inl err)
            | Inr settled \<Rightarrow> State_Monad.return (Inr settled)
          })"
      by (cases a) (simp_all add: owns.guarantee_return)
  qed
qed

end

context undisturbed_check
begin

lemma ask_own:
  assumes "prompt_provider connector"
  shows "state_io_rel (own ids) (check_ask ctx connector g start i)"
  using prompt_provider.ask_alone [OF assms] by (fastforce simp: state_io_rel_def own_def)

lemma observe_own:
  assumes "gen_id g \<in> ids"
  shows "state_io_rel (own ids) (check_observe service ctx g)"
proof (cases "registry_Async (gc_registry service) (gen_provider g)")
  case (Inl err)
  then show ?thesis by (simp add: check_observe_def settleFailure_own [OF assms])
next
  case (Inr connector)
  have verdict: "state_io_rel (own ids) (case v of
      Settle call \<Rightarrow> observe_settle service ctx g start call since
    | Leave \<Rightarrow> State_Monad.return (Inr g)
    | Fail message failure reason \<Rightarrow> check_settleFailure service ctx g message failure reason None)" for v start since
    by (cases v) (simp_all add: observe_settle_own settleFailure_own owns.guarantee_return assms)
  show ?thesis
    unfolding check_observe_def Inr sum.case
    by (intro owns.guarantee_constructs ask_own verdict prompt_Async [OF providers Inr])
qed

lemma unstarted_own:
  assumes "gen_id g \<in> ids"
  shows "state_io_rel (own ids) (GenerationCheck_Exec service \<lparr>cr_generation = g, cr_start = None\<rparr>)"
proof -
  note parts = observe_own [OF assms] settle_own [OF assms] settleFailure_own [OF assms]
  have "state_io_rel (own ids) (check_transition service ctx \<lparr>cr_generation = g, cr_start = None\<rparr>)" for ctx
    unfolding check_transition_def check_resolveStart_def Let_def
    by (auto intro!: owns.guarantee_constructs parts split: option.splits)
  then show ?thesis
    unfolding GenerationCheck_Exec_def Let_def
    by (intro owns.guarantee_constructs own_time_Now own_get)
qed

text \<open>A check without a start keeps the tables' invariant, and the clocks go on.\<close>

lemma unstarted_kept:
  assumes "run_state (GenerationCheck_Exec service request) w = (res, w')" and "alone w" and "db_inv (w_db w)"
  shows "db_inv (w_db w') \<and> w_db_clock w \<le> w_db_clock w'"
proof -
  have "top_run w w'" by (rule state_io_relD [OF check_moves assms(1)])
  with assms(2) have "world_run w w'" by (simp add: top_run_def alone_def)
  with world_run_inv [OF this _ assms(3)] assms(2) show ?thesis by (simp add: world_run_def alone_def)
qed

end

section \<open>A page\<close>

locale undisturbed_sweep =
  fixes service :: "'p generation_sweep"
  assumes checked: "undisturbed_check (gw_check service)" and batch: "0 < gw_batch_size service"

sublocale undisturbed_sweep < checks: undisturbed_check "gw_check service"
  by (rule checked)

sublocale undisturbed_sweep < sweep_service service
  by (rule sweep_service.intro) (rule checks.check_service_axioms)

definition over_with :: "uuid \<Rightarrow> database \<Rightarrow> bool" where
  "over_with i db \<longleftrightarrow> (\<exists>row. find_row db i = Some row \<and> \<not> live_status (gen_status row))"

lemma over_with_same: "find_row db' i = find_row db i \<Longrightarrow> over_with i db' \<longleftrightarrow> over_with i db"
  by (simp add: over_with_def)

context undisturbed_sweep
begin

lemma dispatch_kept:
  assumes "run_state (sweep_dispatch service ctx lastStart gens) w = (r, w')" and "alone w" and "db_inv (w_db w)"
  shows "db_inv (w_db w') \<and> w_db_clock w \<le> w_db_clock w'"
proof -
  have "top_quiet w w'" by (rule state_io_relD [OF dispatch_calm assms(1)])
  with assms(2) have "world_run w w'" by (simp add: top_quiet_def alone_def)
  with world_run_inv [OF this _ assms(3)] assms(2) show ?thesis by (simp add: world_run_def alone_def)
qed

lemma dispatch_own: "state_io_rel (own (gen_id ` set gens)) (sweep_dispatch service ctx lastStart gens)"
proof (induction gens)
  case Nil
  then show ?case by (simp add: owns.guarantee_return)
next
  case (Cons g gens)
  have rest: "state_io_rel (own (gen_id ` set (g # gens))) (sweep_dispatch service ctx lastStart gens)"
    using Cons.IH by (fastforce simp: state_io_rel_def own_def)
  show ?case
    unfolding sweep_dispatch.simps checkOne_def
    by (intro owns.guarantee_constructs own_next_slot own_time_Now checks.unstarted_own rest) simp
qed

text \<open>The rows of a page, as it read them, and those of them past their time settled by its checks.\<close>

lemma dispatch_alone:
  assumes "alone w" and "db_inv (w_db w)" and "distinct (map gen_id gens)"
    and "\<forall>g \<in> set gens. \<exists>row. find_row (w_db w) (gen_id g) = Some row \<and> live_status (gen_status row) \<and>
           g = row\<lparr>gen_read_at := t\<rparr>"
    and "run_state (sweep_dispatch service None None gens) w = (r, w')"
    and "g \<in> set gens" and "overdue g t"
  shows "over_with (gen_id g) (w_db w')"
  using assms
proof (induction gens arbitrary: w)
  case Nil
  then show ?case by simp
next
  case (Cons h gens)
  obtain res w1 where check: "run_state (GenerationCheck_Exec (gw_check service)
      \<lparr>cr_generation = h, cr_start = None\<rparr>) w = (res, w1)" by fastforce
  with Cons.prems(1,5) have rest: "run_state (sweep_dispatch service None None gens) w1 = (r, w')"
    by (simp add: next_slot_alone alone_def time_Now_def over_def mayStart_def checkOne_def)
  have own: "own {gen_id h} w w1" by (rule state_io_relD [OF checks.unstarted_own check]) simp
  note kept = checks.unstarted_kept [OF check Cons.prems(1,2)]
  have own': "own (gen_id ` set gens) w1 w'" by (rule state_io_relD [OF dispatch_own rest])
  have w1: "alone w1" "\<And>j. j \<noteq> gen_id h \<Longrightarrow> find_row (w_db w1) j = find_row (w_db w) j"
    using own Cons.prems(1) by (auto simp: own_def)
  show ?case
  proof (cases "g \<in> set gens")
    case True
    have "\<forall>g \<in> set gens. \<exists>row. find_row (w_db w1) (gen_id g) = Some row \<and> live_status (gen_status row) \<and>
        g = row\<lparr>gen_read_at := t\<rparr>"
    proof
      fix x assume x: "x \<in> set gens"
      then have "gen_id x \<noteq> gen_id h" using Cons.prems(3) by (auto simp: rev_image_eqI)
      from w1(2) [OF this] Cons.prems(4) x
      show "\<exists>row. find_row (w_db w1) (gen_id x) = Some row \<and> live_status (gen_status row) \<and>
          x = row\<lparr>gen_read_at := t\<rparr>" by simp
    qed
    from Cons.IH [OF w1(1) _ _ this rest True Cons.prems(7)] kept Cons.prems(3) show ?thesis by simp
  next
    case False
    with Cons.prems(6) have "g = h" by simp
    with Cons.prems(4) obtain row where row: "find_row (w_db w) (gen_id h) = Some row" "live_status (gen_status row)"
      "h = row\<lparr>gen_read_at := t\<rparr>" by auto
    with Cons.prems(7) \<open>g = h\<close> have "overdue row t" by (simp add: overdue_def)
    from checks.exec_alone [OF Cons.prems(1,2) row(1,2) this] check row(3)
    have "over_with (gen_id h) (w_db w1)" by (auto simp: over_with_def)
    moreover have "find_row (w_db w') (gen_id h) = find_row (w_db w1) (gen_id h)"
      using own' w1(1) Cons.prems(3) by (simp add: own_def)
    ultimately show ?thesis using over_with_same \<open>g = h\<close> by blast
  qed
qed

text \<open>A page reads what is live past its cursor, up to its size.\<close>

definition page_of :: "uuid \<Rightarrow> database \<Rightarrow> generation list" where
  "page_of after db = take (gw_batch_size service)
     (sort_key gen_id (filter (\<lambda>g. live_status (gen_status g) \<and> after < gen_id g) (generations db)))"

lemma batch_alone:
  assumes "alone w"
  shows "run_state (sweepBatch service None None after) w =
    (let gens = map (\<lambda>g. g\<lparr>gen_read_at := w_db_clock w\<rparr>) (page_of after (w_db w))
     in (Inr gens, snd (run_state (sweep_dispatch service None None gens) w)))"
  using assms
  by (simp add: sweepBatch_def PgGenerationSweep_Exec_def statement_alone alone_def over_def time_Now_def
      sql_sweep_def page_of_def Let_def split_def)

lemma page_of_row:
  assumes "g \<in> set (page_of after db)" and "db_inv db"
  shows "find_row db (gen_id g) = Some g \<and> live_status (gen_status g) \<and> after < gen_id g"
  using assms find_row_iff [OF db_inv_distinct [OF assms(2)]] by (auto simp: page_of_def dest!: in_set_takeD)

lemma page_of_distinct: "db_inv db \<Longrightarrow> distinct (map gen_id (page_of after db))"
  using db_inv_distinct [of db] by (auto simp: page_of_def distinct_map take_map [symmetric] inj_on_def
      intro!: distinct_take inj_onI dest!: in_set_takeD)

text \<open>What a page leaves out comes after its last.\<close>

lemma page_of_rest:
  assumes "db_inv db" and "find_row db i = Some row" and "live_status (gen_status row)" and "after < i"
    and "i \<notin> gen_id ` set (page_of after db)"
  shows "length (page_of after db) = gw_batch_size service \<and>
    (\<forall>g \<in> set (page_of after db). gen_id g < i)"
proof -
  let ?all = "sort_key gen_id (filter (\<lambda>g. live_status (gen_status g) \<and> after < gen_id g) (generations db))"
  have row: "row \<in> set ?all" "gen_id row = i" using find_row_in [OF assms(2)] assms(3,4) by auto
  with assms(5) have out: "row \<notin> set (take (gw_batch_size service) ?all)" by (auto simp: page_of_def)
  have "gw_batch_size service \<le> length ?all" 
  proof (rule ccontr)
    assume "\<not> ?thesis"
    with row(1) out show False by simp
  qed
  then have "length (page_of after db) = gw_batch_size service" by (simp add: page_of_def)
  moreover have "gen_id g < i" if "g \<in> set (page_of after db)" for g
  proof -
    have "gen_id g \<le> gen_id row"
      by (rule take_sorted_before [OF _ that [unfolded page_of_def] row(1) out]) simp
    moreover have "gen_id g \<noteq> i" using that assms(5) by auto
    ultimately show ?thesis using row(2) by simp
  qed
  ultimately show ?thesis by blast
qed

text \<open>One page settles the rows past their time that it read, and leaves the others as they were.\<close>

lemma batch_settles:
  assumes "alone w" and "db_inv (w_db w)" and "run_state (sweepBatch service None None after) w = (Inr gens, w1)"
  shows "alone w1 \<and> db_inv (w_db w1) \<and> w_db_clock w \<le> w_db_clock w1 \<and>
    gens = map (\<lambda>g. g\<lparr>gen_read_at := w_db_clock w\<rparr>) (page_of after (w_db w)) \<and>
    (\<forall>i. i \<notin> gen_id ` set gens \<longrightarrow> find_row (w_db w1) i = find_row (w_db w) i) \<and>
    (\<forall>g \<in> set gens. overdue g (w_db_clock w) \<longrightarrow> over_with (gen_id g) (w_db w1))"
proof -
  from assms(3) have gens: "gens = map (\<lambda>g. g\<lparr>gen_read_at := w_db_clock w\<rparr>) (page_of after (w_db w))"
    and run: "run_state (sweep_dispatch service None None gens) w = ((), w1)"
    unfolding batch_alone [OF assms(1)] Let_def by (auto simp: prod_eq_iff)
  have ids: "map gen_id gens = map gen_id (page_of after (w_db w))" by (simp add: gens)
  have "distinct (map gen_id gens)" unfolding ids by (rule page_of_distinct [OF assms(2)])
  moreover have "\<forall>g \<in> set gens. \<exists>row. find_row (w_db w) (gen_id g) = Some row \<and> live_status (gen_status row) \<and>
      g = row\<lparr>gen_read_at := w_db_clock w\<rparr>"
    using page_of_row [OF _ assms(2)] by (auto simp: gens)
  ultimately have "\<forall>g \<in> set gens. overdue g (w_db_clock w) \<longrightarrow> over_with (gen_id g) (w_db w1)"
    using dispatch_alone [OF assms(1,2) _ _ run] by blast
  with state_io_relD [OF dispatch_own run] dispatch_kept [OF run assms(1,2)] assms(1) gens
  show ?thesis by (simp add: own_def)
qed

lemma batch_over:
  assumes "alone w" and "db_inv (w_db w)" and "run_state (sweepBatch service None None after) w = (Inr gens, w1)"
    and "over_with i (w_db w)"
  shows "over_with i (w_db w1)"
proof -
  from batch_settles [OF assms(1-3)] have gens: "gens = map (\<lambda>g. g\<lparr>gen_read_at := w_db_clock w\<rparr>) (page_of after (w_db w))"
    and kept: "\<forall>i. i \<notin> gen_id ` set gens \<longrightarrow> find_row (w_db w1) i = find_row (w_db w) i" by simp_all
  have "i \<notin> gen_id ` set gens"
    using assms(4) page_of_row [OF _ assms(2)] by (auto simp: gens over_with_def)
  with kept assms(4) over_with_same [of "w_db w1" i "w_db w"] show ?thesis by blast
qed

lemma batch_overdue:
  assumes "alone w" and "db_inv (w_db w)" and "run_state (sweepBatch service None None after) w = (Inr gens, w1)"
    and "find_row (w_db w) i = Some row" and "overdue row (w_db_clock w)" and "after < i"
  obtains (settled) "over_with i (w_db w1)"
  | (left) "find_row (w_db w1) i = Some row" and "length gens = gw_batch_size service"
      and "\<forall>g \<in> set gens. gen_id g < i"
proof (cases "live_status (gen_status row)")
  case False
  then have "over_with i (w_db w)" using assms(4) by (simp add: over_with_def)
  from batch_over [OF assms(1-3) this] show thesis by (rule settled)
next
  case live: True
  from batch_settles [OF assms(1-3)] have gens: "gens = map (\<lambda>g. g\<lparr>gen_read_at := w_db_clock w\<rparr>) (page_of after (w_db w))"
    and kept: "\<forall>i. i \<notin> gen_id ` set gens \<longrightarrow> find_row (w_db w1) i = find_row (w_db w) i"
    and did: "\<forall>g \<in> set gens. overdue g (w_db_clock w) \<longrightarrow> over_with (gen_id g) (w_db w1)" by simp_all
  have ids: "gen_id ` set gens = gen_id ` set (page_of after (w_db w))" by (simp add: gens image_image)
  show thesis
  proof (cases "i \<in> gen_id ` set gens")
    case True
    with ids obtain h where h: "h \<in> set (page_of after (w_db w))" "gen_id h = i" by auto
    with page_of_row [OF h(1) assms(2)] assms(4) have "h = row" by simp
    with h gens assms(5) have "h\<lparr>gen_read_at := w_db_clock w\<rparr> \<in> set gens"
      "overdue (h\<lparr>gen_read_at := w_db_clock w\<rparr>) (w_db_clock w)" by (simp_all add: overdue_def)
    with did h(2) have "over_with i (w_db w1)" by fastforce
    then show thesis by (rule settled)
  next
    case False
    with page_of_rest [OF assms(2,4) live assms(6)] ids kept assms(4) show thesis
      by (intro left) (auto simp: gens)
  qed
qed

lemma pages_settle:
  "alone w \<Longrightarrow> db_inv (w_db w) \<Longrightarrow>
   \<exists>out w'. sweep_pages service None None after read w = (Inr out, w') \<and> alone w' \<and> db_inv (w_db w') \<and>
     (\<forall>i. over_with i (w_db w) \<longrightarrow> over_with i (w_db w')) \<and>
     (\<forall>i row. find_row (w_db w) i = Some row \<longrightarrow> overdue row (w_db_clock w) \<longrightarrow> after < i \<longrightarrow>
        over_with i (w_db w'))"
proof (induction "2 ^ 128 - unat after :: nat" arbitrary: after read w rule: less_induct)
  case less
  obtain gens w1 where page: "run_state (sweepBatch service None None after) w = (Inr gens, w1)"
    using batch_alone [OF less.prems(1), of after] by (auto simp: Let_def)
  note settles = batch_settles [OF less.prems page]
  have w1: "alone w1" "db_inv (w_db w1)" "w_db_clock w \<le> w_db_clock w1" using settles by simp_all
  have onward: "sweep_pages service None None after read w =
      (if length gens < gw_batch_size service then (Inr (read @ gens), w1)
       else if gens = [] then (Inl (Panic ''index out of range''), w1)
       else sweep_pages service None None (gen_id (last gens)) (read @ gens) w1)"
    by (subst sweep_pages.simps) (simp add: over_def mayStart_def page)
  show ?case
  proof (cases "length gens < gw_batch_size service")
    case True
    have "over_with i (w_db w1)" if "find_row (w_db w) i = Some row" "overdue row (w_db_clock w)" "after < i" for i row
      by (rule batch_overdue [OF less.prems page that]) (use True in auto)
    with True onward w1 batch_over [OF less.prems page] show ?thesis by auto
  next
    case False
    with batch have some: "gens \<noteq> []" by auto
    from less.hyps [OF sweep_cursor [OF page some] w1(1,2), of "read @ gens"] obtain out w' where
      rest: "sweep_pages service None None (gen_id (last gens)) (read @ gens) w1 = (Inr out, w')"
        "alone w'" "db_inv (w_db w')"
      and stays: "\<And>i. over_with i (w_db w1) \<Longrightarrow> over_with i (w_db w')"
      and later: "\<And>i row. find_row (w_db w1) i = Some row \<Longrightarrow> overdue row (w_db_clock w1) \<Longrightarrow>
         gen_id (last gens) < i \<Longrightarrow> over_with i (w_db w')" by auto
    have "over_with i (w_db w')" if "find_row (w_db w) i = Some row" "overdue row (w_db_clock w)" "after < i" for i row
      using less.prems page that
    proof (cases rule: batch_overdue)
      case settled
      then show ?thesis by (rule stays)
    next
      case left
      have "overdue row (w_db_clock w1)" using that(2) w1(3) by (auto simp: overdue_def split: option.splits)
      with left some show ?thesis by (intro later) auto
    qed
    with False some onward rest stays batch_over [OF less.prems page] show ?thesis by auto
  qed
qed

text \<open>The whole sweep, around its pages: the lock and the unlock move no row.\<close>

lemma exec_settles:
  assumes "alone w" and "db_inv (w_db w)" and "sweep_leader (w_db w) = None"
  shows "\<exists>n w'. run_state (GenerationSweep_Exec service None None session) w = (Inr n, w') \<and> alone w' \<and>
    (\<forall>i row. find_row (w_db w) i = Some row \<longrightarrow> overdue row (w_db_clock w) \<longrightarrow> i \<noteq> 0 \<longrightarrow> over_with i (w_db w'))"
proof -
  let ?w = "w\<lparr>w_db := (w_db w)\<lparr>sweep_leader := Some session\<rparr>\<rparr>"
  have lock: "run_state (PgGenerationSweepLock_Exec None session) w = (Inr session, ?w)"
    using assms(1,3)
    by (simp add: PgGenerationSweepLock_Exec_def in_transaction_def next_slot_alone statement_alone alone_def over_def
        quiet_slot_def sql_sweep_lock_def Let_def)
  have locked: "alone ?w" "db_inv (w_db ?w)" "\<And>i. find_row (w_db ?w) i = find_row (w_db w) i"
    using assms(1,2) by (simp_all add: alone_def db_inv_def find_row_def)
  from pages_settle [OF locked(1,2), of 0 "[]"] obtain out w1 where
    pages: "sweep_pages service None None 0 [] ?w = (Inr out, w1)" and alone1: "alone w1"
    and did: "\<And>i row. find_row (w_db w) i = Some row \<Longrightarrow> overdue row (w_db_clock w) \<Longrightarrow> 0 < i \<Longrightarrow>
        over_with i (w_db w1)" unfolding locked(3) by auto
  obtain r w2 where unlock: "run_state (PgGenerationSweepUnlock_Exec
      (with_timeout None (w_clock w1) persistenceTimeout) (Some session)) w1 = (r, w2)" by fastforce
  have "alone w2 \<and> generations (w_db w2) = generations (w_db w1)"
    using unlock alone1
    by (auto simp: PgGenerationSweepUnlock_Exec_def statement_alone fresh_timeout persistenceTimeout_def alone_def
        sql_sweep_unlock_def discard_def Let_def split: if_splits)
  moreover have "run_state (GenerationSweep_Exec service None None session) w = (Inr (length out), w2)"
    by (simp add: GenerationSweep_Exec_def time_Now_def mayStart_def lock pages unlock)
  ultimately show ?thesis
    using did by (auto simp: over_with_def find_row_def word_neq_0_conv)
qed

end

interpretation sample_sweeping: undisturbed_sweep sample_sweep
  by (rule undisturbed_sweep.intro)
     (simp_all add: sample_sweep_def sample_undisturbed.undisturbed_check_axioms)

end
