(* ===== verification/Wiring_Properties.thy ===== *)
theory Wiring_Properties
  imports Wiring Handlers_Properties Sweep_Settles
begin

text \<open>
  What holds of a server once it has started: its services keep the contracts their theorems
  assume, its gate is closed, and whatever it serves keeps the invariant of the tables.
\<close>

section \<open>The contracts of a started server\<close>

text \<open>What the libraries promise: the transport, and the transactor at both its types.\<close>

locale library_laws =
  fixes lb :: "'p libraries"
  assumes transport: "openai_transport (lb_client lb)"
    and check_transactor: "transactor (lb_transactor lb)"
    and submit_transactor: "transactor (lb_submit_transactor lb)"
begin

lemma wired_registry:
  assumes "wire_registry lb cfg = Inr registry"
  shows "registry = [''openai'' \<mapsto> OpenAI_connector (lb_client lb)]"
    and "lawful registry" and "streams_lawfully registry"
proof -
  show registry: "registry = [''openai'' \<mapsto> OpenAI_connector (lb_client lb)]"
    using assms by (auto simp: wire_registry_def NewRegistry_def NewOpenAI_def split: if_splits)
  have "async_provider (OpenAI_async (lb_client lb) :: ('p, generation) async)"
    "streaming_provider (OpenAI_Stream (lb_client lb))"
    using transport by (rule openai_transport.async_contract openai_transport.streaming_contract)+
  then show "lawful registry" "streams_lawfully registry"
    by (auto simp: registry lawful_def streams_lawfully_def OpenAI_connector_def split: if_splits)
qed

lemma started:
  assumes "grpc_main lb cfg now = Inr server"
  shows "check_service (sv_check server)" and "submit_service (sv_submit server)"
    and "streams_lawfully (sv_registry server)"
proof -
  from assms obtain registry where registry: "wire_registry lb cfg = Inr registry"
    and server: "sv_check server = wire_check cfg registry (lb_transactor lb)"
      "sv_submit server = wire_submit_service lb cfg registry" "sv_registry server = registry"
    by (auto simp: grpc_main_def split: option.splits sum.splits)
  note laws = wired_registry [OF registry]
  have check: "check_service (wire_check cfg registry (lb_transactor lb))"
    using laws(2) check_transactor by (simp add: check_service_def wire_check_def)
  with server submit_transactor laws(3)
  show "check_service (sv_check server)" "submit_service (sv_submit server)" "streams_lawfully (sv_registry server)"
    by (simp_all add: submit_service_def wire_submit_service_def)
qed

lemma swept:
  assumes "sweep_main lb cfg now = Inr service"
  shows "sweep_service service"
proof -
  from assms obtain registry where registry: "wire_registry lb cfg = Inr registry"
    and service: "gw_check service = wire_check cfg registry (lb_transactor lb)"
    by (auto simp: sweep_main_def split: option.splits sum.splits)
  with wired_registry [OF registry] check_transactor show ?thesis
    by (simp add: sweep_service_def check_service_def wire_check_def)
qed

end

section \<open>The library that runs the gRPC server\<close>

text \<open>
  What the documentation of the library promises of a call it lets through: it came outside a planned
  downtime, its message is within the bound, there was room for it, and its service token satisfies
  the verifier of every interceptor of its kind. A downtime lasts once begun.
\<close>

locale grpc_runtime =
  fixes started :: "time option \<Rightarrow> time \<Rightarrow> bool"
    and verifies :: "config_token \<Rightarrow> string option \<Rightarrow> bool"
    and admits :: admission
  assumes started_stays: "started start now \<Longrightarrow> now \<le> later \<Longrightarrow> started start later"
    and refuses_downtime: "admits transport now call \<Longrightarrow> \<not> started (tr_downtime transport) now"
    and refuses_large: "admits transport now call \<Longrightarrow> MaxRecvMsgSize bound \<in> set (tr_options transport) \<Longrightarrow>
      in_bytes call \<le> bound"
    and refuses_excess: "admits transport now call \<Longrightarrow> CallLimit limit \<in> set (tr_options transport) \<Longrightarrow>
      0 < limit \<Longrightarrow> int (in_flight call) < limit"
    and unary_gate: "admits transport now call \<Longrightarrow> ChainUnaryInterceptor verifier \<in> set (tr_options transport) \<Longrightarrow>
      \<not> streaming_rpc (in_rpc call) \<Longrightarrow> verifies verifier (in_token call)"
    and stream_gate: "admits transport now call \<Longrightarrow> ChainStreamInterceptor verifier \<in> set (tr_options transport) \<Longrightarrow>
      streaming_rpc (in_rpc call) \<Longrightarrow> verifies verifier (in_token call)"
begin

text \<open>A call that got through the server built by \<open>newServer\<close> passed its gate, if there is one.\<close>

lemma gate_passed:
  assumes "newServer database cfg limit = Inr transport" and "admits transport now call"
  shows "verifies (app_service_token cfg) (in_token call) \<or>
         ctk_issuer (app_service_token cfg) = [] \<and> app_issuer_optional cfg"
proof (cases "ctk_issuer (app_service_token cfg) = []")
  case True
  with assms(1) show ?thesis by (simp add: newServer_def GrpcServiceToken_def split: if_splits)
next
  case False
  with assms(1) have "ChainUnaryInterceptor (app_service_token cfg) \<in> set (tr_options transport)"
    "ChainStreamInterceptor (app_service_token cfg) \<in> set (tr_options transport)"
    by (auto simp: newServer_def GrpcServiceToken_def)
  with unary_gate [OF assms(2)] stream_gate [OF assms(2)] show ?thesis by blast
qed

lemma bounds_kept:
  assumes "newServer database cfg limit = Inr transport" and "admits transport now call"
  shows "in_bytes call \<le> GrpcMaxReceiveBytes" and "0 < limit \<Longrightarrow> int (in_flight call) < limit"
proof -
  from assms(1) have "MaxRecvMsgSize GrpcMaxReceiveBytes \<in> set (tr_options transport)"
    "CallLimit limit \<in> set (tr_options transport)"
    by (auto simp: newServer_def GrpcServerOptions_def split: sum.splits)
  with refuses_large [OF assms(2)] refuses_excess [OF assms(2)]
  show "in_bytes call \<le> GrpcMaxReceiveBytes" "0 < limit \<Longrightarrow> int (in_flight call) < limit" by blast+
qed

end

text \<open>A library that applies the options in turn, whose tokens are the name of their issuer.\<close>

definition option_started :: "time option \<Rightarrow> time \<Rightarrow> bool" where
  "option_started start now = (case start of None \<Rightarrow> False | Some t \<Rightarrow> t \<le> now)"

definition issuer_verifies :: "config_token \<Rightarrow> string option \<Rightarrow> bool" where
  "issuer_verifies verifier token \<longleftrightarrow> token = Some (ctk_issuer verifier)"

fun option_admits :: "incoming \<Rightarrow> server_option \<Rightarrow> bool" where
  "option_admits call (MaxRecvMsgSize bound) = (in_bytes call \<le> bound)"
| "option_admits call (CallLimit limit) = (0 < limit \<longrightarrow> int (in_flight call) < limit)"
| "option_admits call (WaitForHandlers wait) = True"
| "option_admits call (ChainUnaryInterceptor verifier) =
     (streaming_rpc (in_rpc call) \<or> issuer_verifies verifier (in_token call))"
| "option_admits call (ChainStreamInterceptor verifier) =
     (\<not> streaming_rpc (in_rpc call) \<or> issuer_verifies verifier (in_token call))"

definition options_admit :: admission where
  "options_admit transport now call \<longleftrightarrow>
     \<not> option_started (tr_downtime transport) now \<and> list_all (option_admits call) (tr_options transport)"

lemma options_admitD: "options_admit transport now call \<Longrightarrow> opt \<in> set (tr_options transport) \<Longrightarrow> option_admits call opt"
  by (simp add: options_admit_def list_all_iff)

interpretation option_runtime: grpc_runtime option_started issuer_verifies options_admit
proof
  fix transport now call
  assume admitted: "options_admit transport now call"
  show "\<not> option_started (tr_downtime transport) now" using admitted by (simp add: options_admit_def)
  note opt = options_admitD [OF admitted]
  show "MaxRecvMsgSize bound \<in> set (tr_options transport) \<Longrightarrow> in_bytes call \<le> bound" for bound
    by (drule opt) simp
  show "CallLimit limit \<in> set (tr_options transport) \<Longrightarrow> 0 < limit \<Longrightarrow> int (in_flight call) < limit" for limit
    by (drule opt) simp
  show "ChainUnaryInterceptor verifier \<in> set (tr_options transport) \<Longrightarrow> \<not> streaming_rpc (in_rpc call) \<Longrightarrow>
      issuer_verifies verifier (in_token call)" for verifier
    by (drule opt) simp
  show "ChainStreamInterceptor verifier \<in> set (tr_options transport) \<Longrightarrow> streaming_rpc (in_rpc call) \<Longrightarrow>
      issuer_verifies verifier (in_token call)" for verifier
    by (drule opt) simp
next
  show "option_started start now \<Longrightarrow> now \<le> later \<Longrightarrow> option_started start later" for start now later
    by (auto simp: option_started_def split: option.splits)
qed

definition sample_libraries :: "unit libraries" where
  "sample_libraries =
     \<lparr>lb_client = sample_openai (Inl (External ''reset''), True) (Inr [], True),
      lb_transactor = pg_transactor, lb_submit_transactor = pg_transactor,
      lb_sha256 = (\<lambda>bytes. bytes), lb_json = sample_json, lb_ijson_object = (\<lambda>payload. True),
      lb_started = option_started, lb_otel_Init = (\<lambda>otel. None), lb_NewContext = None, lb_DB = None\<rparr>"

interpretation sample_libs: library_laws sample_libraries
  by (rule library_laws.intro)
     (simp_all add: sample_libraries_def replayed_openai.openai_transport_axioms pg.transactor_axioms)

section \<open>Starting\<close>

text \<open>What a start needs of the libraries: telemetry, and outside a downtime the database.\<close>

definition libraries_start :: "'p libraries \<Rightarrow> config_app \<Rightarrow> time \<Rightarrow> bool" where
  "libraries_start lb cfg now \<longleftrightarrow>
     lb_otel_Init lb (app_otel cfg) = None \<and>
     (lb_started lb (app_downtime_start cfg) now \<or> lb_NewContext lb = None \<and> lb_DB lb = None)"

lemma main_context_answer:
  "main_context lb cfg now = Inr database \<longleftrightarrow>
     app_Validate cfg = None \<and> libraries_start lb cfg now \<and>
     database = (\<not> lb_started lb (app_downtime_start cfg) now)"
  by (auto simp: main_context_def libraries_start_def opens_database_def split: option.splits)

lemma wire_registry_answers:
  "(\<exists>registry. wire_registry lb cfg = Inr registry) \<longleftrightarrow>
     coa_base_url (app_openai cfg) \<noteq> [] \<and> coa_api_key (app_openai cfg) \<noteq> []"
  by (simp add: wire_registry_def NewRegistry_def NewOpenAI_def)

lemma newServer_answers:
  "(\<exists>transport. newServer database cfg limit = Inr transport) \<longleftrightarrow>
     ctk_issuer (app_service_token cfg) \<noteq> [] \<or> app_issuer_optional cfg"
  by (simp add: newServer_def GrpcServiceToken_def)

lemma newServer_fields:
  "newServer database cfg limit = Inr transport \<Longrightarrow>
     tr_downtime transport = app_downtime_start cfg \<and> tr_database transport = database"
  by (auto simp: newServer_def split: sum.splits)

text \<open>A server that started is the one \<open>newServer\<close> built, on the database its start opened.\<close>

lemma grpc_main_answer:
  assumes "grpc_main lb cfg now = Inr server"
  obtains database where "main_context lb cfg now = Inr database"
    and "newServer database cfg (rs_max_calls (app_grpc cfg)) = Inr (sv_transport server)"
  using assms by (auto simp: grpc_main_def split: sum.splits)

lemma grpc_main_starts:
  "(\<exists>server. grpc_main lb cfg now = Inr server) \<longleftrightarrow>
     (\<exists>database. main_context lb cfg now = Inr database) \<and> (\<exists>registry. wire_registry lb cfg = Inr registry) \<and>
     (\<exists>database transport. newServer database cfg (rs_max_calls (app_grpc cfg)) = Inr transport)"
proof (cases "main_context lb cfg now")
  case (Inl err)
  then show ?thesis by (simp add: grpc_main_def)
next
  case (Inr database)
  have any: "(\<exists>database transport. newServer database cfg (rs_max_calls (app_grpc cfg)) = Inr transport) =
      (\<exists>transport. newServer database cfg (rs_max_calls (app_grpc cfg)) = Inr transport)"
    by (simp add: newServer_answers)
  show ?thesis
    unfolding any using Inr
    by (cases "wire_registry lb cfg"; cases "newServer database cfg (rs_max_calls (app_grpc cfg))")
       (simp_all add: grpc_main_def)
qed

lemma serve_reached:
  "run_state (serve admits lib server call) w = (handled, w') \<Longrightarrow>
     handled = admits (sv_transport server) (w_clock w) call \<and> (\<not> handled \<longrightarrow> w' = w)"
  by (auto simp: serve_def time_Now_def split: if_splits prod.splits)

text \<open>C22: A server starts exactly when its settings are in range, what it starts with answers, it has an
  endpoint and a key for the provider, and either a token issuer or the leave to run without one. Started,
  it lets a call through to its handler, unary or streamed, only if the verifier of its configuration takes
  the token of the call, or by that leave; only outside a planned downtime, with the database its start
  opened; and only within its bounds on a message and on the calls that run at once. A call it refuses changes
  nothing: a deployment that forgets its issuer does not run open.\<close>

theorem server_never_starts_open:
  assumes "grpc_runtime (lb_started lb) verifies admits"
    and "run_state (serve admits lib server call) w = (handled, w')" and "now \<le> w_clock w"
  shows "((\<exists>server. grpc_main lb cfg now = Inr server) =
           (app_Validate cfg = None \<and> libraries_start lb cfg now \<and>
            coa_base_url (app_openai cfg) \<noteq> [] \<and> coa_api_key (app_openai cfg) \<noteq> [] \<and>
            (ctk_issuer (app_service_token cfg) \<noteq> [] \<or> app_issuer_optional cfg))) \<and>
         (grpc_main lb cfg now = Inr server \<longrightarrow>
            (if handled then
               (verifies (app_service_token cfg) (in_token call) \<or>
                ctk_issuer (app_service_token cfg) = [] \<and> app_issuer_optional cfg) \<and>
               \<not> lb_started lb (app_downtime_start cfg) (w_clock w) \<and> tr_database (sv_transport server) \<and>
               in_bytes call \<le> GrpcMaxReceiveBytes \<and>
               (0 < rs_max_calls (app_grpc cfg) \<longrightarrow> int (in_flight call) < rs_max_calls (app_grpc cfg))
             else w' = w))"
proof (intro conjI impI)
  show "(\<exists>server. grpc_main lb cfg now = Inr server) =
      (app_Validate cfg = None \<and> libraries_start lb cfg now \<and>
       coa_base_url (app_openai cfg) \<noteq> [] \<and> coa_api_key (app_openai cfg) \<noteq> [] \<and>
       (ctk_issuer (app_service_token cfg) \<noteq> [] \<or> app_issuer_optional cfg))"
    by (simp add: grpc_main_starts main_context_answer wire_registry_answers newServer_answers)
next
  assume "grpc_main lb cfg now = Inr server"
  then obtain database where opened: "main_context lb cfg now = Inr database"
    and built: "newServer database cfg (rs_max_calls (app_grpc cfg)) = Inr (sv_transport server)"
    by (rule grpc_main_answer)
  note served = serve_reached [OF assms(2)]
  from built have transport: "tr_downtime (sv_transport server) = app_downtime_start cfg"
    "tr_database (sv_transport server) = database"
    by (simp_all add: newServer_fields)
  have up: "\<not> lb_started lb (app_downtime_start cfg) (w_clock w)" if "handled"
    using grpc_runtime.refuses_downtime [OF assms(1)] served that transport(1) by metis
  then have "database" if "handled"
    using grpc_runtime.started_stays [OF assms(1) _ assms(3)] that opened by (auto simp: main_context_answer)
  with up served transport grpc_runtime.gate_passed [OF assms(1) built] grpc_runtime.bounds_kept [OF assms(1) built]
  show "if handled then
          (verifies (app_service_token cfg) (in_token call) \<or>
           ctk_issuer (app_service_token cfg) = [] \<and> app_issuer_optional cfg) \<and>
          \<not> lb_started lb (app_downtime_start cfg) (w_clock w) \<and> tr_database (sv_transport server) \<and>
          in_bytes call \<le> GrpcMaxReceiveBytes \<and>
          (0 < rs_max_calls (app_grpc cfg) \<longrightarrow> int (in_flight call) < rs_max_calls (app_grpc cfg))
        else w' = w"
    by (cases handled) simp_all
qed

definition sample_config :: config_app where
  "sample_config = AppPresetDefault (load_environment sample_env_library
     (\<lambda>name. if name = ''OPENAI_API_KEY'' then ''key'' else if name = ''SERVICE_ISSUER_OPTIONAL'' then ''true'' else []))"

lemma sample_settings:
  "app_Validate sample_config = None" "coa_base_url (app_openai sample_config) = OpenAIBaseURLDefault"
  "coa_api_key (app_openai sample_config) = ''key''" "app_issuer_optional sample_config"
  "ctk_issuer (app_service_token sample_config) = []"
  by (simp_all add: sample_config_def app_Validate_def AppPresetDefault_def load_environment_def getEnv_def env_prefix_def
      sample_env_library_def Let_def RetentionDefault_def UnknownOutcomeHold_def SweepIntervalDefault_def
      SweepIntervalCeiling_def SweepBatchSizeDefault_def sweepConcurrency_def sweepConcurrencyCeiling_def
      PostgresMaxOpenConnsDefault_def)

text \<open>A short call, alone and without a token.\<close>

definition sample_incoming :: "rpc \<Rightarrow> incoming" where
  "sample_incoming rpc = \<lparr>in_token = None, in_bytes = 64, in_flight = 0, in_rpc = rpc\<rparr>"

text \<open>A deployment with an issuer, which no leave opens.\<close>

definition sample_gated_config :: config_app where
  "sample_gated_config = sample_config
     \<lparr>app_service_token := (app_service_token sample_config)\<lparr>ctk_issuer := ''issuer''\<rparr>, app_issuer_optional := False\<rparr>"

theorem server_never_starts_open_witness:
  "\<exists>server. grpc_main sample_libraries sample_gated_config 10 = Inr server \<and>
     run_state (serve options_admit sample_library server
       (sample_incoming (RpcStream None ''1'' ''2'' None (\<lambda>n. None)))) (sample_world sample_db) =
       (False, sample_world sample_db)"
proof -
  let ?call = "sample_incoming (RpcStream None ''1'' ''2'' None (\<lambda>n. None))"
  have runtime: "grpc_runtime (lb_started sample_libraries) issuer_verifies options_admit"
    by (simp add: sample_libraries_def option_runtime.grpc_runtime_axioms)
  have clock: "10 \<le> w_clock (sample_world sample_db)" by (simp add: sample_world_def)
  have settings: "app_Validate sample_gated_config = None"
    "coa_base_url (app_openai sample_gated_config) = OpenAIBaseURLDefault"
    "coa_api_key (app_openai sample_gated_config) = ''key''"
    "ctk_issuer (app_service_token sample_gated_config) = ''issuer''" "\<not> app_issuer_optional sample_gated_config"
    using sample_settings by (simp_all add: sample_gated_config_def app_Validate_def)
  have token: "\<not> issuer_verifies (app_service_token sample_gated_config) (in_token ?call)"
    by (simp add: issuer_verifies_def sample_incoming_def)
  have ready: "libraries_start sample_libraries sample_gated_config 10"
    by (simp add: libraries_start_def sample_libraries_def)
  let ?out = "\<lambda>server. run_state (serve options_admit sample_library server ?call) (sample_world sample_db)"
  note law = server_never_starts_open [OF runtime surjective_pairing clock, where cfg = sample_gated_config and call = ?call
      and lib = sample_library]
  have "\<exists>server. grpc_main sample_libraries sample_gated_config 10 = Inr server"
    by (rule iffD2 [OF law [THEN conjunct1]]) (simp add: settings ready OpenAIBaseURLDefault_def)
  then obtain server where server: "grpc_main sample_libraries sample_gated_config 10 = Inr server" by blast
  note out = law [of server, THEN conjunct2, THEN mp, OF server]
  have closed: "\<not> fst (?out server)"
  proof
    assume "fst (?out server)"
    with out have "issuer_verifies (app_service_token sample_gated_config) (in_token ?call) \<or>
        ctk_issuer (app_service_token sample_gated_config) = []" by (simp only: if_True simp_thms) blast
    with token settings(4) show False by simp
  qed
  with out have "snd (?out server) = sample_world sample_db" by (simp only: if_False)
  with closed have "?out server = (False, sample_world sample_db)" by (simp only: prod_eq_iff fst_conv snd_conv simp_thms)
  with server show ?thesis by blast
qed

section \<open>Serving\<close>

text \<open>What a served call may do: run transactions of the program, and start at most \<open>n\<close> calls.\<close>

definition spends :: "nat \<Rightarrow> 'p world \<Rightarrow> 'p world \<Rightarrow> bool" where
  "spends n w w' \<longleftrightarrow>
     (w_tx w = None \<longrightarrow> world_run w w' \<and>
        length (filter is_start (w_trace w')) \<le> length (filter is_start (w_trace w)) + n)"

lemma calm_spends: "top_quiet w w' \<Longrightarrow> spends 0 w w'"
  by (simp add: top_quiet_def spends_def no_start_def)

lemma spends_trans: "spends m u v \<Longrightarrow> spends n v w \<Longrightarrow> spends (m + n) u w"
  using runs.trans [of u v w] by (auto simp: spends_def) (simp_all add: world_run_def)

lemma quiet_cancel_found: "state_io_rel no_start (cancel_found retention ctx request)"
  unfolding cancel_found_def by (intro quiet.guarantee_constructs quiet_dao)

context check_service
begin

lemma get_calm: "state_io_rel top_quiet (GenerationGet_Exec service ctx request)"
  unfolding GenerationGet_Exec_def get_checked_def
  by (intro calms.guarantee_constructs check_unstarted calm_with_attempts top_quiet_mono dget.run dget.quiet)

lemma cancel_calm: "state_io_rel top_quiet (GenerationCancel_Exec service retention ctx request)"
  unfolding GenerationCancel_Exec_def cancel_stop_def
  by (intro calms.guarantee_constructs check_unstarted calm_with_attempts top_quiet_mono run_cancel_found
      quiet_cancel_found)

end

lemma submit_spends:
  assumes "submit_service service"
    and "run_state (GenerationSubmit_Exec service new_id traceparent ctx r) w = (res, w')"
  shows "spends 1 w w'"
  unfolding spends_def
proof
  assume top: "w_tx w = None"
  have "top_run w w'" by (rule state_io_relD [OF submit_service.submit_moves [OF assms(1)] assms(2)])
  with top have moved: "world_run w w'" by (simp add: top_run_def)
  from assms(2) show "world_run w w' \<and>
      length (filter is_start (w_trace w')) \<le> length (filter is_start (w_trace w)) + 1"
  proof (cases rule: submit_exec_cases)
    case (early e)
    with moved show ?thesis by simp
  next
    case (ran key err vars w1)
    have "top_quiet w w1" by (rule state_io_relD [OF submit_service.record_calm [OF assms(1)] ran(3)])
    with top have calm: "filter is_start (w_trace w1) = filter is_start (w_trace w)" "w_tx w1 = None"
      by (simp_all add: top_quiet_def no_start_def world_run_def)
    from ran(4) consider "w' = w1" | result where
      "run_state (submit_send service ctx r (w_clock w) result) w1 = (res, w')" by blast
    then show ?thesis
    proof cases
      case 1
      with calm moved show ?thesis by simp
    next
      case 2
      from submit_service.send_starts [OF assms(1) 2 calm(2)] calm(1) moved show ?thesis by auto
    qed
  qed
qed

text \<open>The calls that start nothing.\<close>

lemma stream_exec_calm: "state_io_rel top_quiet (GenerationStream_Exec registry ctx request)"
  unfolding GenerationStream_Exec_def
  by (intro calms.guarantee_constructs top_quiet_mono dget.run dget.quiet)

lemma stream_events_calm:
  assumes "streams_lawfully registry" and "run_state (GenerationStream_Exec registry ctx request) w = (Inr events, w')"
  shows "state_io_rel top_quiet events"
proof -
  from assms(2) obtain p call stream where stream: "registry_Streaming registry p = Inr stream"
    and events: "events = do { es \<leftarrow> stream ctx call (gsr_starting_after request); State_Monad.return (forwardEvents es) }"
    by (auto simp: GenerationStream_Exec_def split: if_splits prod.splits sum.splits option.splits)
  have provider: "streaming_provider stream" by (rule lawful_Streaming [OF assms(1) stream])
  show ?thesis
    unfolding events
    by (intro calms.guarantee_constructs top_quiet_mono streaming_provider.stream_run [OF provider]
        silent_quiet streaming_provider.stream_silent [OF provider])
qed

lemma stream_calm:
  assumes "streams_lawfully registry"
  shows "state_io_rel top_quiet (grpc_GenerationStream lib registry send ctx generation owner cursor)"
proof -
  have rest: "state_io_rel top_quiet
      (case res of
         Inl err \<Rightarrow> do {
           now \<leftarrow> time_Now;
           State_Monad.return ([], Refused (streamStatus lib (context_error ctx now) err))
         }
       | Inr events \<Rightarrow> do {
           events \<leftarrow> events;
           now \<leftarrow> time_Now;
           State_Monad.return (send_events lib (context_error ctx now) send events 0)
         })"
    if "run_state (GenerationStream_Exec registry ctx request) w = (res, w')" for res request w w'
    using that stream_events_calm [OF assms]
    by (cases res) (auto intro!: calms.guarantee_constructs calm_primitives)
  show ?thesis
    unfolding grpc_GenerationStream_def
    by (intro calms.guarantee_sum_case calms.guarantee_return calms.guarantee_prod_case
        calms.guarantee_bind_answer [OF stream_exec_calm] rest)
qed

lemma summary_calm: "state_io_rel top_quiet (grpc_UsageSummary lib purposes ctx owner purpose windows)"
  unfolding grpc_UsageSummary_def UsageSummary_Exec_def
  by (intro calms.guarantee_constructs top_quiet_mono dcount.run dcount.quiet dsum.run dsum.quiet)

lemma status_calm:
  assumes "state_io_rel top_quiet (hl_health lib ctx)"
  shows "state_io_rel top_quiet (grpc_Status lib ctx)"
  unfolding grpc_Status_def GenerationQueueDepth_Exec_def
  by (intro calms.guarantee_constructs assms top_quiet_mono ddepth.run ddepth.quiet)

text \<open>What one call starts at most.\<close>

fun may_start :: "rpc \<Rightarrow> nat" where
  "may_start (RpcSubmit new_id traceparent ctx request) = 1"
| "may_start call = 0"

lemma handler_spends:
  assumes "check_service (sv_check server)" and "submit_service (sv_submit server)"
    and "streams_lawfully (sv_registry server)" and "\<And>ctx. state_io_rel top_quiet (hl_health lib ctx)"
    and "run_state (rpc_handler lib server call) w = ((), w')"
  shows "spends (may_start call) w w'"
proof (cases call)
  case (RpcSubmit new_id traceparent ctx request)
  with assms(5) consider "w' = w" | r res where
    "run_state (GenerationSubmit_Exec (sv_submit server) new_id traceparent ctx r) w = (res, w')"
    by (auto simp: grpc_GenerationSubmit_def split: prod.splits option.splits)
  then show ?thesis
  proof cases
    case 1
    then show ?thesis by (simp add: spends_def runs.refl)
  next
    case 2
    from submit_spends [OF assms(2) 2] RpcSubmit show ?thesis by simp
  qed
next
  case (RpcGet ctx generation owner)
  have "state_io_rel top_quiet (rpc_handler lib server call)"
    unfolding RpcGet rpc_handler.simps grpc_GenerationGet_def
    by (intro calms.guarantee_constructs check_service.get_calm assms(1))
  with assms(5) RpcGet show ?thesis by (auto dest: state_io_relD intro: calm_spends)
next
  case (RpcCancel ctx generation owner)
  have "state_io_rel top_quiet (rpc_handler lib server call)"
    unfolding RpcCancel rpc_handler.simps grpc_GenerationCancel_def
    by (intro calms.guarantee_constructs check_service.cancel_calm assms(1))
  with assms(5) RpcCancel show ?thesis by (auto dest: state_io_relD intro: calm_spends)
next
  case (RpcStream ctx generation owner cursor send)
  have "state_io_rel top_quiet (rpc_handler lib server call)"
    unfolding RpcStream rpc_handler.simps by (intro calms.guarantee_constructs stream_calm assms(3))
  with assms(5) RpcStream show ?thesis by (auto dest: state_io_relD intro: calm_spends)
next
  case (RpcSummary ctx owner purpose windows)
  have "state_io_rel top_quiet (rpc_handler lib server call)"
    unfolding RpcSummary rpc_handler.simps by (intro calms.guarantee_constructs summary_calm)
  with assms(5) RpcSummary show ?thesis by (auto dest: state_io_relD intro: calm_spends)
next
  case (RpcStatus ctx)
  have "state_io_rel top_quiet (rpc_handler lib server call)"
    unfolding RpcStatus rpc_handler.simps by (intro calms.guarantee_constructs status_calm assms(4))
  with assms(5) RpcStatus show ?thesis by (auto dest: state_io_relD intro: calm_spends)
qed

lemma serve_spends:
  assumes "check_service (sv_check server)" and "submit_service (sv_submit server)"
    and "streams_lawfully (sv_registry server)" and "\<And>ctx. state_io_rel top_quiet (hl_health lib ctx)"
    and "run_state (serve admits lib server call) w = (handled, w')"
  shows "spends (may_start (in_rpc call)) w w'"
proof (cases "admits (sv_transport server) (w_clock w) call")
  case True
  with assms(5) have "run_state (rpc_handler lib server (in_rpc call)) w = ((), w')"
    by (auto simp: serve_def time_Now_def split: prod.splits)
  from handler_spends [OF assms(1-4) this] show ?thesis .
next
  case False
  with serve_reached [OF assms(5)] show ?thesis by (simp add: spends_def runs.refl)
qed

lemma serve_all_spends:
  assumes "check_service (sv_check server)" and "submit_service (sv_submit server)"
    and "streams_lawfully (sv_registry server)" and "\<And>ctx. state_io_rel top_quiet (hl_health lib ctx)"
    and "run_state (serve_all admits lib server calls) w = ((), w')"
  shows "spends (sum_list (map (\<lambda>call. may_start (in_rpc call)) calls)) w w'"
  using assms(5)
proof (induction calls arbitrary: w)
  case Nil
  then show ?case by (simp add: spends_def runs.refl)
next
  case (Cons call calls)
  then obtain handled v where v: "run_state (serve admits lib server call) w = (handled, v)"
    "run_state (serve_all admits lib server calls) v = ((), w')" by (auto split: prod.splits)
  from spends_trans [OF serve_spends [OF assms(1-4) v(1)] Cons.IH [OF v(2)]] show ?case by simp
qed

text \<open>C21: Whatever calls a started server serves, in whatever order, and whatever other processes do
  around it, the tables move only along the transactions of the program and keep their invariant,
  and the provider receives at most one start for each submit served.\<close>

theorem served_calls_keep_invariant:
  assumes "library_laws lb" and "grpc_main lb cfg now = Inr server"
    and "\<And>ctx. state_io_rel top_quiet (hl_health lib ctx)"
    and "run_state (serve_all admits lib server calls) w = ((), w')" and "w_tx w = None" and "db_inv (w_db w)"
  shows "db_run (w_db_clock w) (w_db w) (w_db_clock w') (w_db w') \<and> db_inv (w_db w') \<and>
         length (filter is_start (w_trace w')) \<le>
           length (filter is_start (w_trace w)) + sum_list (map (\<lambda>call. may_start (in_rpc call)) calls)"
proof -
  from serve_all_spends [OF library_laws.started [OF assms(1,2)] assms(3,4)] assms(5)
  have run: "world_run w w'" and starts: "length (filter is_start (w_trace w')) \<le>
      length (filter is_start (w_trace w)) + sum_list (map (\<lambda>call. may_start (in_rpc call)) calls)"
    by (simp_all add: spends_def)
  from world_run_inv [OF run assms(5,6)] run starts assms(5) show ?thesis by (simp add: world_run_def)
qed

lemma sample_started: "\<exists>server. grpc_main sample_libraries sample_config 10 = Inr server"
  using sample_settings
  by (simp add: grpc_main_starts main_context_answer libraries_start_def wire_registry_answers newServer_answers
      sample_libraries_def OpenAIBaseURLDefault_def)

theorem served_calls_keep_invariant_witness:
  "\<exists>server. grpc_main sample_libraries sample_config 10 = Inr server \<and>
     db_inv (w_db (snd (run_state (serve_all options_admit sample_library server
       (map sample_incoming [RpcGet None ''1'' ''2'', RpcCancel None ''1'' ''2'', RpcStatus None])) (sample_world sample_db))))"
proof -
  obtain server where server: "grpc_main sample_libraries sample_config 10 = Inr server"
    using sample_started by blast
  let ?calls = "map sample_incoming [RpcGet None ''1'' ''2'', RpcCancel None ''1'' ''2'', RpcStatus None]"
  have health: "state_io_rel top_quiet (hl_health sample_library ctx)" for ctx
    by (simp add: sample_library_def calms.guarantee_return)
  have run: "run_state (serve_all options_admit sample_library server ?calls) (sample_world sample_db) =
      ((), snd (run_state (serve_all options_admit sample_library server ?calls) (sample_world sample_db)))"
    by (simp add: prod_eq_iff)
  have "w_tx (sample_world sample_db) = None" "db_inv (w_db (sample_world sample_db))"
    using sample_db_inv by (simp_all add: sample_world_def)
  from served_calls_keep_invariant [OF sample_libs.library_laws_axioms server health run this] server
  show ?thesis by blast
qed

text \<open>No route of the sweep server starts a call.\<close>

lemma sweep_serve_calm:
  assumes "library_laws lb" and "sweep_main lb cfg now = Inr service" and "\<And>ctx. state_io_rel top_quiet (hl_health lib ctx)"
  shows "state_io_rel top_quiet (sweep_serve lib service deadline ctx session method path)"
proof -
  note sweep = sweep_service.exec_calm [OF library_laws.swept [OF assms(1,2)], of deadline ctx session]
  have "state_io_rel top_quiet (rest_GenerationSweep service deadline ctx session)"
    "state_io_rel top_quiet (rest_Health lib ctx)"
    unfolding rest_GenerationSweep_def rest_Health_def by (intro calms.guarantee_constructs sweep assms(3))+
  then show ?thesis
    unfolding sweep_serve_def
    by (cases "sweep_routes method path") (simp_all add: calms.guarantee_bind calms.guarantee_return)
qed

section \<open>Settling\<close>

text \<open>The sweep server, on a transport that keeps its deadlines and a transactor that commits.\<close>

lemma sweep_main_undisturbed:
  assumes "sweep_main lb cfg now = Inr service" and "deadline_transport (lb_client lb)"
    and "answering_transactor (lb_transactor lb)"
  shows "undisturbed_sweep service"
proof -
  from assms(1) have valid: "app_Validate cfg = None"
    by (auto simp: sweep_main_def main_context_answer split: sum.splits)
  from assms(1) have size: "gw_batch_size service = nat (csw_batch_size (app_sweep cfg))"
    and check: "gc_registry (gw_check service) = [''openai'' \<mapsto> OpenAI_connector (lb_client lb)]"
      "gc_transactor (gw_check service) = lb_transactor lb"
    by (auto simp: sweep_main_def wire_registry_def wire_check_def NewRegistry_def NewOpenAI_def
        split: option.splits sum.splits if_splits)
  have "prompt_provider (OpenAI_async (lb_client lb) :: ('a, generation) async)"
    by (rule deadline_transport.prompt_contract [OF assms(2)])
  then have "prompt_registry (gc_registry (gw_check service))"
    by (auto simp: check prompt_registry_def OpenAI_connector_def split: if_splits)
  with assms(3) have "undisturbed_check (gw_check service)"
    by (intro undisturbed_check.intro) (simp_all add: check)
  moreover have "0 < gw_batch_size service"
    using valid by (simp add: size app_Validate_def Let_def split: if_splits)
  ultimately show ?thesis by (rule undisturbed_sweep.intro)
qed

text \<open>C7: A run of the sweep server brings every generation past its time to its end. Undisturbed, on a
  transport that keeps its deadlines, it answers no error, and each generation in the tables when it began
  that never started, or whose call had run for its ceiling and the window of its stops, is settled:
  however many pages they take, and whatever the provider answers.\<close>

theorem sweep_server_settles_overdue:
  assumes "sweep_main lb cfg now = Inr service" and "deadline_transport (lb_client lb)"
    and "answering_transactor (lb_transactor lb)" and "\<not> started (app_downtime_start cfg) (w_clock w)"
    and "w_sched w = []" and "w_tx w = None" and "db_inv (w_db w)" and "sweep_leader (w_db w) = None"
  shows "\<exists>w'. run_state (sweepRun started service (app_downtime_start cfg) None None session) w = ((False, None), w') \<and>
    (\<forall>i row. find_row (w_db w) i = Some row \<and> overdue row (w_db_clock w) \<and> i \<noteq> 0 \<longrightarrow>
       (\<exists>settled. find_row (w_db w') i = Some settled \<and> \<not> live_status (gen_status settled)))"
proof -
  have "alone w" using assms(5,6) by (simp add: alone_def)
  from undisturbed_sweep.exec_settles [OF sweep_main_undisturbed [OF assms(1-3)] this assms(7,8), of session]
  obtain n w' where "run_state (GenerationSweep_Exec service None None session) w = (Inr n, w')"
    and "\<And>i row. find_row (w_db w) i = Some row \<Longrightarrow> overdue row (w_db_clock w) \<Longrightarrow> i \<noteq> 0 \<Longrightarrow>
      over_with i (w_db w')" by blast
  then show ?thesis
    using assms(4) by (intro exI [of _ w']) (simp add: sweepRun_def time_Now_def over_with_def)
qed

lemma sample_sweeping: "\<exists>service. sweep_main sample_libraries sample_config 10 = Inr service"
  using sample_settings
  by (simp add: sweep_main_def main_context_def sample_libraries_def opens_database_def wire_registry_def NewRegistry_def
      NewOpenAI_def OpenAIBaseURLDefault_def)

theorem sweep_server_settles_overdue_witness:
  "\<exists>service w' settled. sweep_main sample_libraries sample_config 10 = Inr service \<and>
     run_state (sweepRun (\<lambda>start now. False) service (app_downtime_start sample_config) None None 7)
       ((sample_world sample_refusing_db)\<lparr>w_db_clock := 3 * hour\<rparr>) = ((False, None), w') \<and>
     find_row (w_db w') 1 = Some settled \<and> \<not> live_status (gen_status settled)"
proof -
  let ?w = "(sample_world sample_refusing_db)\<lparr>w_db_clock := 3 * hour\<rparr>"
  obtain service where service: "sweep_main sample_libraries sample_config 10 = Inr service"
    using sample_sweeping by blast
  have libraries: "deadline_transport (lb_client sample_libraries)" "answering_transactor (lb_transactor sample_libraries)"
    by (simp_all add: sample_libraries_def prompt_openai.deadline_transport_axioms
        answering_pg.answering_transactor_axioms)
  have world: "w_sched ?w = []" "w_tx ?w = None" "db_inv (w_db ?w)" "sweep_leader (w_db ?w) = None"
    using sample_running_inv
    by (simp_all add: sample_world_def sample_refusing_db_def sample_running_db_def sample_db_def db_inv_def)
  have row: "find_row (w_db ?w) 1 = Some sample_running" "overdue sample_running (w_db_clock ?w)"
    by (simp_all add: sample_world_def sample_refusing_db_def sample_running_db_def find_row_def sample_running_def
        new_row_def sample_request_def overdue_def check_constants)
  from sweep_server_settles_overdue [OF service libraries _ world, where started = "\<lambda>start now. False" and session = 7]
  obtain w' where run: "run_state (sweepRun (\<lambda>start now. False) service (app_downtime_start sample_config) None None 7) ?w =
      ((False, None), w')"
    and settled: "\<forall>i row. find_row (w_db ?w) i = Some row \<and> overdue row (w_db_clock ?w) \<and> i \<noteq> 0 \<longrightarrow>
       (\<exists>settled. find_row (w_db w') i = Some settled \<and> \<not> live_status (gen_status settled))" by auto
  from settled row have "\<exists>settled. find_row (w_db w') 1 = Some settled \<and> \<not> live_status (gen_status settled)"
    by (metis zero_neq_one)
  with service run show ?thesis by blast
qed

end
