(* ===== verification/Slots.thy ===== *)
theory Slots
  imports Prelude
begin

text \<open>
  The slots of \<^verbatim>\<open>internal/core/generationSweep.go\<close>: the channel \<open>service.slots\<close>, which
  bounds the checks that overlapping calls of one process run at once. \<open>Sweep\<close> follows one call and
  runs its checks in turn; here the calls and their goroutines interleave freely, each a
  \<open>dispatcher\<close>, and a check is only its beginning and its end.

  A step is one communication of \<open>sweepBatch\<close>: the send that takes a slot, the end of the
  context while it waits, the slot handed back when the wait outlasted the sweep, the goroutine
  that begins, and the one that ends and hands its slot back.
\<close>

section \<open>The dispatch as a step relation\<close>

text \<open>
  \<open>dp_todo\<close> holds the generations of the page not dispatched yet, \<open>dp_holding\<close> says that the
  loop took a slot it has not handed over, \<open>dp_running\<close> holds the checks in flight, and
  \<open>dp_launched\<close> those ever begun, in order.
\<close>

record dispatcher =
  dp_todo :: "uuid list"
  dp_holding :: bool
  dp_running :: "uuid list"
  dp_launched :: "uuid list"

definition dispatch :: "uuid list \<Rightarrow> dispatcher" where
  "dispatch page = \<lparr>dp_todo = page, dp_holding = False, dp_running = [], dp_launched = []\<rparr>"

type_synonym slots = "nat \<times> dispatcher list"

inductive slot_step :: "nat \<Rightarrow> slots \<Rightarrow> slots \<Rightarrow> bool" for capacity where
  take_slot:
    "\<lbrakk>i < length ds; dp_todo (ds ! i) \<noteq> []; \<not> dp_holding (ds ! i); used < capacity\<rbrakk>
     \<Longrightarrow> slot_step capacity (used, ds) (Suc used, ds[i := (ds ! i)\<lparr>dp_holding := True\<rparr>])"
| context_done:
    "\<lbrakk>i < length ds; dp_todo (ds ! i) \<noteq> []; \<not> dp_holding (ds ! i)\<rbrakk>
     \<Longrightarrow> slot_step capacity (used, ds) (used, ds[i := (ds ! i)\<lparr>dp_todo := []\<rparr>])"
| hand_back:
    "\<lbrakk>i < length ds; dp_holding (ds ! i)\<rbrakk>
     \<Longrightarrow> slot_step capacity (used, ds)
          (used - 1, ds[i := (ds ! i)\<lparr>dp_holding := False, dp_todo := []\<rparr>])"
| launch:
    "\<lbrakk>i < length ds; dp_holding (ds ! i); dp_todo (ds ! i) = g # gs\<rbrakk>
     \<Longrightarrow> slot_step capacity (used, ds)
          (used, ds[i := (ds ! i)\<lparr>dp_holding := False, dp_todo := gs,
             dp_running := g # dp_running (ds ! i), dp_launched := dp_launched (ds ! i) @ [g]\<rparr>])"
| finish:
    "\<lbrakk>i < length ds; g \<in> set (dp_running (ds ! i))\<rbrakk>
     \<Longrightarrow> slot_step capacity (used, ds)
          (used - 1, ds[i := (ds ! i)\<lparr>dp_running := remove1 g (dp_running (ds ! i))\<rparr>])"

text \<open>The states the calls that sweep \<open>pages\<close> reach, from an empty channel.\<close>

inductive reaches :: "nat \<Rightarrow> uuid list list \<Rightarrow> slots \<Rightarrow> bool" for capacity pages where
  begun: "reaches capacity pages (0, map dispatch pages)"
| stepped: "reaches capacity pages s \<Longrightarrow> slot_step capacity s s' \<Longrightarrow> reaches capacity pages s'"

text \<open>\<open>checks.Wait\<close> returns once a dispatcher is idle.\<close>

definition idle :: "dispatcher \<Rightarrow> bool" where
  "idle d \<longleftrightarrow> dp_todo d = [] \<and> \<not> dp_holding d \<and> dp_running d = []"

section \<open>The invariant\<close>

definition load :: "dispatcher \<Rightarrow> nat" where
  "load d = (if dp_holding d then 1 else 0) + length (dp_running d)"

definition total_load :: "dispatcher list \<Rightarrow> nat" where
  "total_load ds = sum_list (map load ds)"

definition tracks :: "uuid list \<Rightarrow> dispatcher \<Rightarrow> bool" where
  "tracks page d \<longleftrightarrow> prefix (dp_launched d @ dp_todo d) page \<and> set (dp_running d) \<subseteq> set (dp_launched d) \<and>
     (dp_holding d \<longrightarrow> dp_todo d \<noteq> [])"

definition slots_inv :: "nat \<Rightarrow> uuid list list \<Rightarrow> slots \<Rightarrow> bool" where
  "slots_inv capacity pages s \<longleftrightarrow>
     fst s = total_load (snd s) \<and> fst s \<le> capacity \<and> list_all2 tracks pages (snd s)"

lemma total_load_update:
  assumes "i < length ds"
  shows "total_load (ds[i := d]) + load (ds ! i) = total_load ds + load d"
  using assms unfolding total_load_def
proof (induction ds arbitrary: i)
  case Nil
  then show ?case by simp
next
  case (Cons e ds)
  then show ?case by (cases i) auto
qed

lemma load_le_total: "i < length ds \<Longrightarrow> load (ds ! i) \<le> total_load ds"
  using member_le_sum_list [of "load (ds ! i)" "map load ds"] by (simp add: total_load_def)

lemma load_simps [simp]:
  "load (d\<lparr>dp_holding := b\<rparr>) = (if b then 1 else 0) + length (dp_running d)"
  "load (d\<lparr>dp_todo := todo\<rparr>) = load d"
  "load (d\<lparr>dp_launched := l\<rparr>) = load d"
  "load (d\<lparr>dp_running := r\<rparr>) = (if dp_holding d then 1 else 0) + length r"
  by (simp_all add: load_def)

lemma tracks_update:
  assumes "list_all2 tracks pages ds" and "i < length ds" and "tracks (pages ! i) (ds ! i) \<Longrightarrow> tracks (pages ! i) d"
  shows "list_all2 tracks pages (ds[i := d])"
  using assms by (auto simp: list_all2_conv_all_nth nth_list_update)

lemma prefix_shorter: "prefix (xs @ ys) zs \<Longrightarrow> prefix xs zs"
  by (metis append_prefixD)

lemma slot_step_inv:
  assumes "slot_step capacity s s'" and "slots_inv capacity pages s"
  shows "slots_inv capacity pages s'"
  using assms
proof (cases rule: slot_step.cases)
  case (take_slot i ds used)
  with assms(2) total_load_update [of i ds "(ds ! i)\<lparr>dp_holding := True\<rparr>"] show ?thesis
    by (auto simp: slots_inv_def load_def tracks_def intro!: tracks_update)
next
  case (context_done i ds used)
  with assms(2) total_load_update [of i ds "(ds ! i)\<lparr>dp_todo := []\<rparr>"] show ?thesis
    by (auto simp: slots_inv_def tracks_def intro!: tracks_update dest: prefix_shorter)
next
  case (hand_back i ds used)
  with assms(2) total_load_update [of i ds "(ds ! i)\<lparr>dp_holding := False, dp_todo := []\<rparr>"] show ?thesis
    by (auto simp: slots_inv_def load_def tracks_def intro!: tracks_update dest: prefix_shorter)
next
  case (launch i ds g gs used)
  let ?d = "(ds ! i)\<lparr>dp_holding := False, dp_todo := gs, dp_running := g # dp_running (ds ! i),
    dp_launched := dp_launched (ds ! i) @ [g]\<rparr>"
  have "tracks (pages ! i) (ds ! i) \<Longrightarrow> tracks (pages ! i) ?d"
    using launch by (auto simp: tracks_def)
  with assms(2) launch total_load_update [of i ds ?d] show ?thesis
    by (auto simp: slots_inv_def load_def intro!: tracks_update)
next
  case (finish i ds g used)
  let ?d = "(ds ! i)\<lparr>dp_running := remove1 g (dp_running (ds ! i))\<rparr>"
  have "length (remove1 g (dp_running (ds ! i))) + 1 = length (dp_running (ds ! i))"
    using finish by (simp add: length_remove1) (metis One_nat_def Suc_pred length_pos_if_in_set)
  moreover have "tracks (pages ! i) (ds ! i) \<Longrightarrow> tracks (pages ! i) ?d"
    using set_remove1_subset [of g "dp_running (ds ! i)"] by (auto simp: tracks_def)
  ultimately show ?thesis
    using assms(2) finish total_load_update [of i ds ?d]
    by (auto simp: slots_inv_def load_def intro!: tracks_update)
qed

lemma slots_begun: "slots_inv capacity pages (0, map dispatch pages)"
  by (auto simp: slots_inv_def total_load_def load_def dispatch_def tracks_def list_all2_conv_all_nth comp_def)

lemma reaches_inv: "reaches capacity pages s \<Longrightarrow> slots_inv capacity pages s"
  by (induction rule: reaches.induct) (auto intro: slots_begun slot_step_inv)

section \<open>Properties\<close>

text \<open>C20: However many calls of a sweep overlap, and however their goroutines interleave, no more checks
  run at once than the sweep's concurrency, no slot is lost or handed back twice, and a call launches
  the generations of its page in their order, each at its turn.\<close>

theorem slots_bound_checks:
  assumes "reaches capacity pages (used, ds)"
  shows "sum_list (map (\<lambda>d. length (dp_running d)) ds) \<le> capacity \<and> used = total_load ds \<and>
         length ds = length pages \<and>
         (\<forall>i < length ds. prefix (dp_launched (ds ! i)) (pages ! i) \<and>
            set (dp_running (ds ! i)) \<subseteq> set (dp_launched (ds ! i)))"
proof -
  have inv: "used = total_load ds" "used \<le> capacity" "list_all2 tracks pages ds"
    using reaches_inv [OF assms] by (simp_all add: slots_inv_def)
  have "sum_list (map (\<lambda>d. length (dp_running d)) ds) \<le> total_load ds"
    unfolding total_load_def by (rule sum_list_mono) (simp add: load_def)
  with inv show ?thesis
    by (auto simp: list_all2_conv_all_nth tracks_def dest: prefix_shorter)
qed

lemma sample_reaches: "reaches 1 [[7, 8]] (1, [\<lparr>dp_todo = [8], dp_holding = False, dp_running = [7], dp_launched = [7]\<rparr>])"
proof -
  have "reaches 1 [[7, 8]] (1, [\<lparr>dp_todo = [7, 8], dp_holding = True, dp_running = [], dp_launched = []\<rparr>])"
    using slot_step.take_slot [of 0 "map dispatch [[7, 8]]" 0 1] reaches.begun [of 1 "[[7, 8]]"]
    by (auto simp: dispatch_def intro: reaches.stepped)
  then show ?thesis
    using slot_step.launch [of 0 "[\<lparr>dp_todo = [7, 8], dp_holding = True, dp_running = [], dp_launched = []\<rparr>]" 7 "[8]" 1 1]
    by (auto intro: reaches.stepped)
qed

theorem slots_bound_checks_witness: "length [7 :: uuid] \<le> 1 \<and> prefix [7 :: uuid] [7, 8]"
  using slots_bound_checks [OF sample_reaches] by simp

text \<open>The work left: what a dispatcher has still to do, each step of which does some.\<close>

definition work :: "dispatcher \<Rightarrow> nat" where
  "work d = 3 * length (dp_todo d) + length (dp_running d) - (if dp_holding d then 1 else 0)"

definition total_work :: "slots \<Rightarrow> nat" where
  "total_work s = sum_list (map work (snd s))"

lemma total_work_update:
  assumes "i < length ds" and "work d < work (ds ! i)"
  shows "total_work (used', ds[i := d]) < total_work (used, ds)"
  using assms unfolding total_work_def
proof (induction ds arbitrary: i)
  case Nil
  then show ?case by simp
next
  case (Cons e ds)
  then show ?case by (cases i) auto
qed

lemma slot_step_works:
  assumes "slot_step capacity s s'" and "slots_inv capacity pages s"
  shows "total_work s' < total_work s"
  using assms
proof (cases rule: slot_step.cases)
  case (take_slot i ds used)
  then show ?thesis by (auto simp: work_def neq_Nil_conv intro!: total_work_update)
next
  case (context_done i ds used)
  then show ?thesis by (auto simp: work_def neq_Nil_conv intro!: total_work_update)
next
  case (hand_back i ds used)
  with assms(2) have "dp_todo (ds ! i) \<noteq> []"
    by (auto simp: slots_inv_def list_all2_conv_all_nth tracks_def)
  with hand_back show ?thesis by (auto simp: work_def neq_Nil_conv intro!: total_work_update)
next
  case (launch i ds g gs used)
  then show ?thesis by (auto simp: work_def intro!: total_work_update)
next
  case (finish i ds g used)
  then have "length (remove1 g (dp_running (ds ! i))) < length (dp_running (ds ! i))"
    using length_pos_if_in_set [of g "dp_running (ds ! i)"] by (simp add: length_remove1)
  with finish assms(2) show ?thesis
    by (auto simp: work_def slots_inv_def list_all2_conv_all_nth tracks_def neq_Nil_conv intro!: total_work_update)
qed

text \<open>A step that drops no generation: it dispatches one or ends a check.\<close>

definition keeps_all :: "slots \<Rightarrow> slots \<Rightarrow> bool" where
  "keeps_all s s' \<longleftrightarrow> map (\<lambda>d. dp_launched d @ dp_todo d) (snd s') = map (\<lambda>d. dp_launched d @ dp_todo d) (snd s)"

lemma keeps_all_update:
  assumes "dp_launched d @ dp_todo d = dp_launched (ds ! i) @ dp_todo (ds ! i)"
  shows "keeps_all (used, ds) (used', ds[i := d])"
  using assms by (cases "i < length ds") (simp_all add: keeps_all_def map_update list_update_same_conv list_update_beyond)

lemma holder_launches:
  assumes "slots_inv capacity pages (used, ds)" and "i < length ds" and "dp_holding (ds ! i)"
  shows "\<exists>s'. slot_step capacity (used, ds) s' \<and> keeps_all (used, ds) s'"
proof -
  have "dp_todo (ds ! i) \<noteq> []"
    using assms by (auto simp: slots_inv_def list_all2_conv_all_nth tracks_def)
  then obtain g gs where todo: "dp_todo (ds ! i) = g # gs" by (cases "dp_todo (ds ! i)") auto
  show ?thesis
    by (intro exI conjI, rule slot_step.launch [OF assms(2,3) todo], rule keeps_all_update) (simp add: todo)
qed

lemma dispatcher_moves:
  assumes "slots_inv capacity pages (used, ds)" and "1 \<le> capacity" and "i < length ds" and "\<not> idle (ds ! i)"
  shows "\<exists>s'. slot_step capacity (used, ds) s' \<and> keeps_all (used, ds) s'"
proof (cases "\<exists>j < length ds. dp_holding (ds ! j)")
  case True
  with holder_launches [OF assms(1)] show ?thesis by blast
next
  case none: False
  show ?thesis
  proof (cases "\<exists>j < length ds. dp_running (ds ! j) \<noteq> []")
    case True
    then obtain j g where j: "j < length ds" "g \<in> set (dp_running (ds ! j))"
      by (metis list.set_sel(1))
    show ?thesis
      by (intro exI conjI, rule slot_step.finish [OF j], rule keeps_all_update) simp
  next
    case False
    with none have "\<forall>d \<in> set ds. load d = 0" by (auto simp: in_set_conv_nth load_def)
    then have "total_load ds = 0" by (simp add: total_load_def)
    with assms(1,2) have "used < capacity" by (simp add: slots_inv_def)
    moreover have "dp_todo (ds ! i) \<noteq> []" "\<not> dp_holding (ds ! i)"
      using assms(3,4) none False by (auto simp: idle_def)
    ultimately show ?thesis
      using slot_step.take_slot [OF assms(3)] keeps_all_update [of "(ds ! i)\<lparr>dp_holding := True\<rparr>" ds i]
      by fastforce
  qed
qed

text \<open>A sweep never waits for ever on its slots. While a call is not idle some check can begin or
  end, without waiting for a context to end, and every step leaves less to do: every call reaches
  the end of its wait after a bounded number of steps, and once all have, no slot is taken.\<close>

theorem slots_never_deadlock:
  assumes "reaches capacity pages s" and "1 \<le> capacity"
  shows "(\<forall>s'. slot_step capacity s s' \<longrightarrow> total_work s' < total_work s) \<and>
         ((\<exists>d \<in> set (snd s). \<not> idle d) \<longrightarrow> (\<exists>s'. slot_step capacity s s' \<and> keeps_all s s')) \<and>
         ((\<forall>d \<in> set (snd s). idle d) \<longrightarrow> fst s = 0)"
proof -
  obtain used ds where s: "s = (used, ds)" by fastforce
  note inv = reaches_inv [OF assms(1)]
  have "fst s = 0" if "\<forall>d \<in> set (snd s). idle d"
    using that inv by (auto simp: slots_inv_def total_load_def load_def idle_def)
  moreover have "\<exists>s'. slot_step capacity s s' \<and> keeps_all s s'" if "\<exists>d \<in> set (snd s). \<not> idle d"
    using that dispatcher_moves [OF inv [unfolded s] assms(2)] unfolding s by (auto simp: in_set_conv_nth)
  ultimately show ?thesis using slot_step_works [OF _ inv] by blast
qed

theorem slots_never_deadlock_witness:
  "\<exists>s'. slot_step 1 (1, [\<lparr>dp_todo = [8], dp_holding = False, dp_running = [7], dp_launched = [7]\<rparr>]) s'"
  using slots_never_deadlock [OF sample_reaches] by (auto simp: idle_def)

end
