(* ===== verification/Ledger.thy ===== *)
theory Ledger
  imports Lifecycle
begin

text \<open>
  What the service promises of its generations, said without its tables: a ledger of promises, and
  the few things that may happen to one. \<open>ledger_of\<close> reads the ledger off the tables, and every
  history of the tables is a history of the ledger: the statements of \<^verbatim>\<open>internal/dao\<close> implement it.
\<close>

section \<open>The specification\<close>

text \<open>
  \<open>pr_call\<close> is the name the provider gave the call, \<open>pr_stop\<close> says that the owner asked to stop it,
  and \<open>pr_outcome\<close> is how it ended, with the instant it may be forgotten from.
\<close>

record promise =
  pr_owner :: uuid
  pr_key :: "byte list"
  pr_call :: "string option"
  pr_stop :: bool
  pr_outcome :: "(generation_status \<times> time) option"

type_synonym ledger = "uuid \<rightharpoonup> promise"

text \<open>A promise stands for its request while it may still succeed, and once it has.\<close>

definition serving :: "promise \<Rightarrow> bool" where
  "serving p \<longleftrightarrow> (case pr_outcome p of None \<Rightarrow> True | Some (status, _) \<Rightarrow> status = Succeeded)"

definition fresh_promise :: "uuid \<Rightarrow> byte list \<Rightarrow> promise" where
  "fresh_promise owner key =
     \<lparr>pr_owner = owner, pr_key = key, pr_call = None, pr_stop = False, pr_outcome = None\<rparr>"

inductive promise_step :: "promise \<Rightarrow> promise \<Rightarrow> bool" where
  named: "\<lbrakk>pr_outcome p = None; pr_call p = None\<rbrakk> \<Longrightarrow> promise_step p (p\<lparr>pr_call := Some call\<rparr>)"
| stopped: "pr_outcome p = None \<Longrightarrow> promise_step p (p\<lparr>pr_stop := True\<rparr>)"
| ended: "\<lbrakk>pr_outcome p = None; terminal_status status\<rbrakk> \<Longrightarrow>
     promise_step p (p\<lparr>pr_outcome := Some (status, until)\<rparr>)"

inductive ledger_step :: "time \<Rightarrow> ledger \<Rightarrow> ledger \<Rightarrow> bool" for now where
  promised: "\<lbrakk>l i = None; \<And>p. p \<in> ran l \<Longrightarrow> serving p \<Longrightarrow> pr_key p \<noteq> key\<rbrakk> \<Longrightarrow>
     ledger_step now l (l(i \<mapsto> fresh_promise owner key))"
| moved: "\<lbrakk>l i = Some p; promise_step p p'\<rbrakk> \<Longrightarrow> ledger_step now l (l(i \<mapsto> p'))"
| forgotten: "(\<And>i. i \<in> gone \<Longrightarrow> \<exists>p status until. l i = Some p \<and> pr_outcome p = Some (status, until) \<and> until < now) \<Longrightarrow>
     ledger_step now l (l |` (- gone))"

inductive ledger_run :: "time \<Rightarrow> ledger \<Rightarrow> time \<Rightarrow> ledger \<Rightarrow> bool" for s l0 where
  ledger_idle: "s \<le> t \<Longrightarrow> ledger_run s l0 t l0"
| ledger_moves: "\<lbrakk>ledger_run s l0 t l; ledger_step now l l'; t \<le> now; now \<le> u\<rbrakk> \<Longrightarrow> ledger_run s l0 u l'"

inductive_cases promise_stepE: "promise_step p p'"

lemma ledger_run_later: "ledger_run s l t l' \<Longrightarrow> t \<le> u \<Longrightarrow> ledger_run s l u l'"
proof (induction rule: ledger_run.induct)
  case (ledger_idle t)
  then show ?case by (auto intro: ledger_run.ledger_idle)
next
  case (ledger_moves t l now l' v)
  from ledger_moves.hyps ledger_moves.prems show ?case by (auto intro: ledger_run.ledger_moves)
qed

section \<open>What the specification gives\<close>

text \<open>A ledger never holds two promises that serve one request.\<close>

definition one_serving :: "ledger \<Rightarrow> bool" where
  "one_serving l \<longleftrightarrow>
     (\<forall>i j p q. l i = Some p \<longrightarrow> l j = Some q \<longrightarrow> serving p \<longrightarrow> serving q \<longrightarrow> pr_key p = pr_key q \<longrightarrow> i = j)"

lemma promise_step_keeps:
  "promise_step p p' \<Longrightarrow> pr_key p' = pr_key p \<and> pr_owner p' = pr_owner p \<and> pr_outcome p = None"
  by (erule promise_stepE) simp_all

lemma promise_step_serving: "promise_step p p' \<Longrightarrow> serving p"
  by (erule promise_stepE) (simp_all add: serving_def)

lemma ledger_step_one_serving:
  assumes "ledger_step now l l'" and "one_serving l"
  shows "one_serving l'"
  using assms
proof (cases rule: ledger_step.cases)
  case (promised i key owner)
  then show ?thesis
    using assms(2) by (auto simp: one_serving_def fresh_promise_def ran_def)
next
  case (moved i p p')
  then show ?thesis
    using assms(2) promise_step_keeps [OF moved(3)] promise_step_serving [OF moved(3)]
    by (auto simp: one_serving_def split: if_splits)
next
  case (forgotten gone)
  then show ?thesis using assms(2) by (auto simp: one_serving_def restrict_map_def split: if_splits)
qed

lemma ledger_run_one_serving: "ledger_run s l t l' \<Longrightarrow> one_serving l \<Longrightarrow> one_serving l'"
  by (induction rule: ledger_run.induct) (auto intro: ledger_step_one_serving)

section \<open>The ledger of the tables\<close>

definition promise_of :: "generation \<Rightarrow> promise" where
  "promise_of g =
     \<lparr>pr_owner = gen_owner_id g, pr_key = gen_request_key g, pr_call = gen_provider_call_id g,
      pr_stop = (gen_cancel_requested_at g \<noteq> None),
      pr_outcome = map_option (Pair (gen_status g)) (gen_expires_at g)\<rparr>"

definition ledger_of :: "database \<Rightarrow> ledger" where
  "ledger_of db = (\<lambda>i. map_option promise_of (find_row db i))"

lemma promise_live: "row_inv g \<Longrightarrow> (pr_outcome (promise_of g) = None) = live_status (gen_status g)"
  by (cases "gen_status g") (auto simp: row_inv_def promise_of_def live_status_def)

lemma promise_serving: "row_inv g \<Longrightarrow> serving (promise_of g) = keyed g"
  by (cases "gen_status g") (auto simp: serving_def keyed_def promise_of_def row_inv_def live_status_def)

lemma ledger_of_same: "generations db' = generations db \<Longrightarrow> ledger_of db' = ledger_of db"
  unfolding ledger_of_def by (simp add: find_row_same [of db' db])

lemma ledger_of_put_row:
  assumes "find_row db i = Some x" and "gen_id x' = gen_id x"
  shows "ledger_of (put_row x' db) = (ledger_of db)(i \<mapsto> promise_of x')"
  using assms find_row_in [OF assms(1)] by (auto simp: ledger_of_def find_row_put_row fun_eq_iff)

lemma ledger_of_submitted:
  assumes "gen_id g \<notin> gen_id ` set (generations db)"
  shows "ledger_of (db\<lparr>generations := generations db @ [g]\<rparr>) = (ledger_of db)(gen_id g \<mapsto> promise_of g)"
proof
  fix j
  have "List.find (\<lambda>h. gen_id h = j) (xs @ [g]) =
      (if j = gen_id g then Some g else List.find (\<lambda>h. gen_id h = j) xs)"
    if "gen_id g \<notin> gen_id ` set xs" for xs
    using that by (induction xs) auto
  from this [OF assms] show "ledger_of (db\<lparr>generations := generations db @ [g]\<rparr>) j = ((ledger_of db)(gen_id g \<mapsto> promise_of g)) j"
    by (simp add: ledger_of_def find_row_def)
qed

lemma ledger_of_purged:
  assumes "db_inv db"
  shows "\<exists>gone. ledger_of (sql_purge now chosen db) = (ledger_of db) |` (- gone) \<and>
           (\<forall>i \<in> gone. \<exists>g. find_row db i = Some g \<and> expired now g)"
proof (rule exI, rule conjI)
  let ?gone = "{i. \<exists>g. find_row db i = Some g \<and> find_row (sql_purge now chosen db) i = None}"
  have absent: "find_row (sql_purge now chosen db) i = None" if "find_row db i = None" for i
    using that by (auto simp: find_row_None sql_purge_def Let_def)
  show "ledger_of (sql_purge now chosen db) = (ledger_of db) |` (- ?gone)"
  proof
    fix i
    show "ledger_of (sql_purge now chosen db) i = ((ledger_of db) |` (- ?gone)) i"
    proof (cases "find_row db i")
      case None
      with absent show ?thesis by (simp add: ledger_of_def restrict_map_def)
    next
      case (Some g)
      with find_row_purge [OF assms Some, of now chosen] show ?thesis
        by (auto simp: ledger_of_def restrict_map_def)
    qed
  qed
  show "\<forall>i \<in> ?gone. \<exists>g. find_row db i = Some g \<and> expired now g"
    using find_row_purge [OF assms, of _ _ now chosen] by fastforce
qed

lemma row_step_promise:
  assumes "row_step now x x'" and "row_inv x" and "row_inv x'"
  shows "promise_step (promise_of x) (promise_of x') \<or>
         (\<exists>p. promise_step (promise_of x) p \<and> promise_step p (promise_of x'))"
  using assms(1)
proof cases
  case (accept call)
  have "promise_of x' = (promise_of x)\<lparr>pr_call := Some call\<rparr>"
    using accept assms(2) by (simp add: promise_of_def row_inv_def live_status_def)
  moreover have "pr_outcome (promise_of x) = None" "pr_call (promise_of x) = None"
    using accept assms(2) by (auto simp: promise_of_def row_inv_def generation_row_check_def live_status_def)
  ultimately show ?thesis using promise_step.named by metis
next
  case (cancel r)
  have out: "pr_outcome (promise_of x) = None" using cancel(2) promise_live [OF assms(2)] by simp
  show ?thesis
  proof (cases "gen_start_requested_at x = None")
    case True
    then have eq: "promise_of x' = (promise_of x)\<lparr>pr_stop := True, pr_outcome := Some (Cancelled, now + can_retention r)\<rparr>"
      by (simp add: cancel(1) promise_of_def cancel_row_def Let_def split: option.split)
    have "promise_step ((promise_of x)\<lparr>pr_stop := True\<rparr>) (promise_of x')"
      unfolding eq using promise_step.ended [of "(promise_of x)\<lparr>pr_stop := True\<rparr>" Cancelled] out
      by (simp add: live_status_def)
    then show ?thesis using promise_step.stopped [OF out] by blast
  next
    case False
    then have "promise_of x' = (promise_of x)\<lparr>pr_stop := True\<rparr>"
      using cancel(2) assms(2)
      by (simp add: cancel(1) promise_of_def cancel_row_def Let_def row_inv_def split: option.split)
    then show ?thesis using promise_step.stopped [OF out] by simp
  qed
next
  case (settle r)
  have out: "pr_outcome (promise_of x) = None" using settle(2) promise_live [OF assms(2)] by simp
  have "promise_of x' = (promise_of x)\<lparr>pr_outcome := Some (set_status r, now + set_retention r)\<rparr>"
    by (simp add: settle(1) promise_of_def settle_row_def)
  moreover have "terminal_status (set_status r)"
    using assms(3) by (simp add: settle(1) row_inv_def generation_row_check_def settle_row_def)
  ultimately show ?thesis using promise_step.ended [OF out] by simp
qed

lemma ledger_step_run: "\<lbrakk>ledger_step now l l'; s \<le> now; now \<le> t\<rbrakk> \<Longrightarrow> ledger_run s l t l'"
  by (rule ledger_run.ledger_moves [OF ledger_run.ledger_idle]) simp_all

lemma row_step_ledger:
  assumes "find_row db i = Some x" and "row_step now x x'" and "db_inv db" and "db_inv (put_row x' db)"
    and "ledger_run s l t (ledger_of db)" and "t \<le> now"
  shows "ledger_run s l now (ledger_of (put_row x' db))"
proof -
  have id: "gen_id x' = gen_id x" and at: "gen_id x = i"
    using row_step_id [OF assms(2)] find_row_in [OF assms(1)] by simp_all
  have there: "ledger_of db i = Some (promise_of x)" using assms(1) by (simp add: ledger_of_def)
  have "find_row (put_row x' db) i = Some x'"
    using assms(1) id at by (simp add: find_row_put_row)
  with assms(3,4) have inv: "row_inv x" "row_inv x'" using assms(1) db_inv_row by blast+
  note after = ledger_of_put_row [OF assms(1) id]
  from row_step_promise [OF assms(2) inv] show ?thesis
  proof (elim disjE exE conjE)
    assume "promise_step (promise_of x) (promise_of x')"
    from ledger_step.moved [of "ledger_of db", OF there this] assms(5,6) show ?thesis
      unfolding after by (auto intro: ledger_run.ledger_moves)
  next
    fix p assume p: "promise_step (promise_of x) p" "promise_step p (promise_of x')"
    have "ledger_run s l now ((ledger_of db)(i \<mapsto> p))"
      using ledger_step.moved [of "ledger_of db", OF there p(1)] assms(5,6)
      by (auto intro: ledger_run.ledger_moves)
    moreover have "ledger_step now ((ledger_of db)(i \<mapsto> p)) ((ledger_of db)(i \<mapsto> promise_of x'))"
      using ledger_step.moved [of "(ledger_of db)(i \<mapsto> p)" i p, OF _ p(2)] by simp
    ultimately show ?thesis
      unfolding after by (auto intro: ledger_run.ledger_moves)
  qed
qed

lemma db_step_ledger:
  assumes "db_step now db db'" and "db_inv db" and "ledger_run s l t (ledger_of db)" and "t \<le> now"
  shows "ledger_run s l now (ledger_of db')"
proof -
  note idle = ledger_run_later [OF assms(3,4)]
  note inv = db_step_inv [OF assms(1,2)]
  from assms(1) show ?thesis
  proof cases
    case (submitted r h)
    then show ?thesis
    proof (cases rule: submit_cases)
      case replayed
      with idle show ?thesis by simp
    next
      case created
      have id: "gen_id (new_row now r) = sub_id r" by simp
      have "ledger_of db (sub_id r) = None"
        using created(3) by (simp add: ledger_of_def find_row_None)
      moreover have "pr_key p \<noteq> sub_request_key r" if "p \<in> ran (ledger_of db)" "serving p" for p
      proof -
        from that(1) obtain j x where x: "find_row db j = Some x" "p = promise_of x"
          by (auto simp: ledger_of_def ran_def)
        with that(2) promise_serving [OF db_inv_row [OF assms(2) x(1)]] have "keyed x" by simp
        with created(4) find_row_in [OF x(1)] x(2) show ?thesis by (simp add: promise_of_def)
      qed
      ultimately have "ledger_step now (ledger_of db)
          ((ledger_of db)(sub_id r \<mapsto> fresh_promise (sub_owner_id r) (sub_request_key r)))"
        by (rule ledger_step.promised)
      moreover have "promise_of (new_row now r) = fresh_promise (sub_owner_id r) (sub_request_key r)"
        by (simp add: promise_of_def fresh_promise_def new_row_def)
      ultimately show ?thesis
        using assms(3,4) ledger_of_submitted [of "new_row now r" db] created(3,5)
        by (auto intro: ledger_run.ledger_moves)
    qed
  next
    case (recorded i call h)
    from record_row(2) [OF this assms(2)] row_step_ledger [OF _ _ assms(2) _ assms(3,4)] inv
    show ?thesis by blast
  next
    case (cancel_requested r h)
    from request_cancel_row(2) [OF this assms(2)] row_step_ledger [OF _ _ assms(2) _ assms(3,4)] inv
    show ?thesis by blast
  next
    case (settled ta tu r response usage h)
    from settled obtain db1 where one: "sql_settle now r db = (Inr h, db1)" "generations db' = generations db1"
      by (rule settle_transaction_generations)
    from settle_row_found [OF one(1) assms(2)] row_step_ledger [OF _ _ assms(2) _ assms(3,4)]
    have "ledger_run s l now (ledger_of db1)" by blast
    with ledger_of_same [OF one(2)] show ?thesis by simp
  next
    case (metered u v)
    from usage_insert_row [OF this] have "generations db' = generations db" by simp
    from ledger_of_same [OF this] idle show ?thesis by simp
  next
    case (purged chosen)
    obtain gone where gone: "ledger_of db' = (ledger_of db) |` (- gone)"
      "\<forall>i \<in> gone. \<exists>g. find_row db i = Some g \<and> expired now g"
      using ledger_of_purged [OF assms(2)] purged by blast
    have "ledger_step now (ledger_of db) ((ledger_of db) |` (- gone))"
    proof (rule ledger_step.forgotten)
      fix i assume "i \<in> gone"
      with gone(2) show "\<exists>p status until. ledger_of db i = Some p \<and> pr_outcome p = Some (status, until) \<and> until < now"
        by (fastforce simp: ledger_of_def promise_of_def expired_def split: option.splits)
    qed
    with gone(1) assms(3,4) show ?thesis by (auto intro: ledger_run.ledger_moves)
  next
    case (locked x b)
    then have "generations db' = generations db" by (auto simp: sql_sweep_lock_def split: option.splits)
    from ledger_of_same [OF this] idle show ?thesis by simp
  next
    case (unlocked x b)
    then have "generations db' = generations db" by (auto simp: sql_sweep_unlock_def split: if_splits)
    from ledger_of_same [OF this] idle show ?thesis by simp
  qed
qed

lemma db_run_ledger: "db_run s db t db' \<Longrightarrow> db_inv db \<Longrightarrow> ledger_run s (ledger_of db) t (ledger_of db')"
proof (induction rule: db_run.induct)
  case (idle t)
  then show ?case by (simp add: ledger_run.ledger_idle)
next
  case (step t db1 now db2 u)
  from db_step_ledger [OF step.hyps(2) db_run_inv [OF step.hyps(1) step.prems] step.IH [OF step.prems] step.hyps(3)]
    step.hyps(4)
  show ?case by (rule ledger_run_later)
qed

lemma ledger_of_one_serving:
  assumes "db_inv db"
  shows "one_serving (ledger_of db)"
proof -
  have "i = j" if "find_row db i = Some g" "find_row db j = Some h" "serving (promise_of g)"
    "serving (promise_of h)" "gen_request_key g = gen_request_key h" for i j g h
  proof -
    have "keyed g" "keyed h"
      using that promise_serving db_inv_row [OF assms] by blast+
    from keyed_unique [OF assms _ _ this that(5)] that(1,2) find_row_in show ?thesis by metis
  qed
  then show ?thesis by (auto simp: one_serving_def ledger_of_def promise_of_def)
qed

section \<open>Property\<close>

text \<open>C14: The tables implement the ledger: every history of committed transactions, of every process, is a
  history of promises that are made once for a request, named once, stopped on demand, ended once,
  and forgotten only once their time is up.\<close>

theorem history_refines_ledger:
  assumes "db_run s db t db'" and "db_inv db"
  shows "ledger_run s (ledger_of db) t (ledger_of db') \<and> one_serving (ledger_of db')"
  using db_run_ledger [OF assms] ledger_of_one_serving [OF db_run_inv [OF assms]] by blast

theorem history_refines_ledger_witness:
  "ledger_run 0 (ledger_of sample_db) 30
     (ledger_of (put_row (settle_row 20 sample_settle (new_row 10 sample_request)) sample_db))"
  using history_refines_ledger [of 0 sample_db 30, OF db_run_single [OF sample_settled_step] sample_db_inv]
  by simp

end
