(* ===== verification/Resend.thy ===== *)
theory Resend
  imports Submit_Properties
begin

text \<open>
  A request sent again. The first submit and the second are two calls of one service or of two
  replicas, with anything in between: other submits, checks, sweeps, cancels and purges.
\<close>



end
