(* ===== verification/Key_Properties.thy ===== *)
theory Key_Properties
  imports Submit_Properties
begin

text \<open>
  Which requests share a key: those that ask for the same thing, however their payloads are written.
  \<open>RequestKey\<close> shows that the framing of the digested fields is injective; here the payload's members
  take the place of its canonical bytes.
\<close>

section \<open>The members a key reads\<close>

definition canonical_members :: "payload_json \<Rightarrow> raw \<Rightarrow> goerr + (string \<rightharpoonup> raw)" where
  "canonical_members json payload =
     (case pj_members json payload of
        Inl err \<Rightarrow> Inl err
      | Inr members \<Rightarrow> format_members json members (map_of members))"

lemma canonicalPayload_members:
  "canonicalPayload json payload = Inr canonical \<longleftrightarrow>
     (\<exists>members. canonical_members json payload = Inr members \<and> pj_encode json members = Inr canonical)"
  by (auto simp: canonicalPayload_def canonical_members_def split: sum.splits)

lemma format_members_other:
  "format_members json ms m = Inr m' \<Longrightarrow> name \<notin> fst ` set ms \<Longrightarrow> m' name = m name"
  by (induction ms arbitrary: m) (auto split: sum.splits)

lemma format_members_each:
  assumes "format_members json ms m = Inr m'" and "distinct (map fst ms)" and "(name, shown) \<in> set ms"
  shows "\<exists>v. pj_format json shown = Inr v \<and> m' name = Some v"
  using assms
proof (induction ms arbitrary: m)
  case Nil
  then show ?case by simp
next
  case (Cons p ms)
  obtain n u where p: "p = (n, u)" by fastforce
  from Cons.prems(1) p obtain v where v: "pj_format json u = Inr v" "format_members json ms (m(n \<mapsto> v)) = Inr m'"
    by (auto split: sum.splits)
  show ?case
  proof (cases "(name, shown) \<in> set ms")
    case True
    with Cons.IH [OF v(2)] Cons.prems(2) show ?thesis by simp
  next
    case False
    with Cons.prems(3) p have "name = n" "shown = u" by simp_all
    moreover have "m' n = (m(n \<mapsto> v)) n"
      by (rule format_members_other [OF v(2)]) (use Cons.prems(2) p in auto)
    ultimately show ?thesis using v(1) by simp
  qed
qed

text \<open>The same members: each name is in both payloads or in neither, with values that format alike.\<close>

definition same_members :: "payload_json \<Rightarrow> raw \<Rightarrow> raw \<Rightarrow> bool" where
  "same_members json p p' \<longleftrightarrow>
     (\<exists>ms ms'. pj_members json p = Inr ms \<and> pj_members json p' = Inr ms' \<and>
        (\<forall>name. map_option (pj_format json) (map_of ms name) = map_option (pj_format json) (map_of ms' name)))"

text \<open>
  A decoded object names each member once, and the text of an object determines its members, for the
  objects the code encodes: those of a payload, with their values formatted.
\<close>

locale json_laws =
  fixes json :: payload_json
  assumes named_once: "pj_members json payload = Inr ms \<Longrightarrow> distinct (map fst ms)"
    and encode_determines:
      "\<lbrakk>canonical_members json p = Inr m; canonical_members json p' = Inr m';
        pj_encode json m = Inr text; pj_encode json m' = Inr text\<rbrakk> \<Longrightarrow> m = m'"
begin

lemma canonical_read:
  assumes "canonical_members json p = Inr m" and "pj_members json p = Inr ms"
  shows "map_option Inr (m name) = map_option (pj_format json) (map_of ms name)"
proof (cases "map_of ms name")
  case None
  then have "name \<notin> fst ` set ms" by (simp add: map_of_eq_None_iff)
  with format_members_other [of json ms "map_of ms" m name] assms None show ?thesis
    by (simp add: canonical_members_def)
next
  case (Some shown)
  from format_members_each [of json ms "map_of ms" m name shown] assms named_once [OF assms(2)] map_of_SomeD [OF Some]
  show ?thesis using Some by (auto simp: canonical_members_def)
qed

lemma same_canonical:
  assumes "canonical_members json p = Inr m" and "canonical_members json p' = Inr m'"
  shows "same_members json p p' \<longleftrightarrow> m = m'"
proof -
  obtain ms ms' where ms: "pj_members json p = Inr ms" "pj_members json p' = Inr ms'"
    using assms by (auto simp: canonical_members_def split: sum.splits)
  have "m = m' \<longleftrightarrow> (\<forall>name. map_option Inr (m name) = (map_option Inr (m' name) :: (goerr + raw) option))"
    by (auto simp: fun_eq_iff option.map_comp dest: option.inj_map_strong [rotated])
  with canonical_read [OF assms(1) ms(1)] canonical_read [OF assms(2) ms(2)] ms show ?thesis
    by (simp add: same_members_def)
qed

lemma same_canonicalPayload:
  assumes "canonicalPayload json p = Inr c" and "canonicalPayload json p' = Inr c'"
  shows "c = c' \<longleftrightarrow> same_members json p p'"
proof -
  from assms obtain m m' where m: "canonical_members json p = Inr m" "pj_encode json m = Inr c"
    "canonical_members json p' = Inr m'" "pj_encode json m' = Inr c'"
    by (auto simp: canonicalPayload_members)
  have "c = c' \<longleftrightarrow> m = m'" using encode_determines [OF m(1,3)] m(2,4) by auto
  with same_canonical [OF m(1,3)] show ?thesis by simp
qed

end

interpretation sample_json: json_laws sample_json
  by unfold_locales (auto simp: canonical_members_def sample_json_def)

section \<open>Property\<close>

text \<open>The fields a request's key digests, but for its payload, which both sides below compare by members.\<close>

definition key_bytes :: "generation_submission \<Rightarrow> raw \<Rightarrow> byte list" where
  "key_bytes r canonical = key_preimage
     \<lparr>kr_owner_id = sb_owner_id r, kr_purpose = sb_purpose r, kr_provider = sb_provider r,
      kr_stream = sb_stream r, kr_payload = canonical, kr_variant = sb_variant r\<rparr>"

text \<open>C4: Two requests have one key exactly when they ask for the same thing: the same owner, purpose,
  provider, mode and variant, and payloads with the same members, whatever their order and formatting.
  Only a collision of the digest on their two byte strings could say otherwise.\<close>

theorem same_key_iff_same_request:
  assumes "json_laws (gs_json service)"
    and "submit_key service r = Inr key" and "submit_key service r' = Inr key'"
    and "\<And>c c'. \<lbrakk>canonicalPayload (gs_json service) (sb_payload r) = Inr c;
             canonicalPayload (gs_json service) (sb_payload r') = Inr c';
             gs_sha256 service (key_bytes r c) = gs_sha256 service (key_bytes r' c')\<rbrakk> \<Longrightarrow>
           key_bytes r c = key_bytes r' c'"
    and "\<And>s. s \<in> {sb_purpose r, sb_provider r, sb_purpose r', sb_provider r'} \<Longrightarrow> length s < 2 ^ 64"
    and "\<And>p c. p \<in> {sb_payload r, sb_payload r'} \<Longrightarrow> canonicalPayload (gs_json service) p = Inr c \<Longrightarrow>
           length c < 2 ^ 64"
  shows "key = key' \<longleftrightarrow>
           sb_owner_id r = sb_owner_id r' \<and> sb_purpose r = sb_purpose r' \<and> sb_provider r = sb_provider r' \<and>
           sb_stream r = sb_stream r' \<and> sb_variant r = sb_variant r' \<and>
           same_members (gs_json service) (sb_payload r) (sb_payload r')"
proof -
  from assms(2,3) obtain c c' where
    c: "canonicalPayload (gs_json service) (sb_payload r) = Inr c" "key = gs_sha256 service (key_bytes r c)"
    and c': "canonicalPayload (gs_json service) (sb_payload r') = Inr c'" "key' = gs_sha256 service (key_bytes r' c')"
    by (auto simp: submit_key_def key_bytes_def split: sum.splits)
  let ?asks = "\<lambda>r c. \<lparr>kr_owner_id = sb_owner_id r, kr_purpose = sb_purpose r, kr_provider = sb_provider r,
    kr_stream = sb_stream r, kr_payload = c, kr_variant = sb_variant r\<rparr>"
  have short: "\<forall>f \<in> set (key_fields (?asks r c)) \<union> set (key_fields (?asks r' c')). length f < 2 ^ 64"
    using assms(5) assms(6) [OF _ c(1)] assms(6) [OF _ c'(1)]
    by (auto simp: key_fields_def bytes_of_def requestKeyTag_def streamedMode_def asyncMode_def)
  have "key = key' \<longleftrightarrow> key_bytes r c = key_bytes r' c'"
    using assms(4) [OF c(1) c'(1)] c(2) c'(2) by auto
  also have "\<dots> \<longleftrightarrow> ?asks r c = ?asks r' c'"
    using key_preimage_eq [OF _ short] unfolding key_bytes_def by metis
  finally show ?thesis
    using json_laws.same_canonicalPayload [OF assms(1) c(1) c'(1)] by auto
qed

lemma sample_canonical: "canonicalPayload sample_json p = Inr p"
  by (simp add: canonicalPayload_def sample_json_def)

theorem same_key_iff_same_request_witness: "\<not> same_members sample_json ''{}'' ''{ }''"
proof -
  let ?other = "sample_submission\<lparr>sb_payload := ''{ }''\<rparr>"
  have json: "gs_json sample_submit = sample_json" by (simp add: sample_submit_def)
  have laws: "json_laws (gs_json sample_submit)" unfolding json by (rule sample_json.json_laws_axioms)
  have key: "submit_key sample_submit ?other = Inr [122]"
    by (simp add: submit_key_def canonicalPayload_def sample_json_def sample_submission_def sample_asking_def
        sample_submit_def key_preimage_def key_fields_def frame_def bytes_of_def requestKeyTag_def asyncMode_def)
  have fields: "sb_payload sample_submission = ''{}''" "sb_purpose sample_submission = ''chat''"
    "sb_provider sample_submission = ''openai''" "sb_stream sample_submission = False"
    by (simp_all add: sample_submission_def sample_asking_def)
  have "gs_sha256 sample_submit (key_bytes sample_submission ''{}'') \<noteq> gs_sha256 sample_submit (key_bytes ?other ''{ }'')"
    by (simp add: sample_submit_def key_bytes_def key_preimage_def key_fields_def frame_def bytes_of_def
        requestKeyTag_def asyncMode_def fields)
  then have apart: "key_bytes sample_submission c = key_bytes ?other c'"
    if "canonicalPayload (gs_json sample_submit) (sb_payload sample_submission) = Inr c"
      "canonicalPayload (gs_json sample_submit) (sb_payload ?other) = Inr c'"
      "gs_sha256 sample_submit (key_bytes sample_submission c) = gs_sha256 sample_submit (key_bytes ?other c')" for c c'
    using that by (simp add: json sample_canonical fields)
  have short: "length s < 2 ^ 64" if "s \<in> {sb_purpose sample_submission, sb_provider sample_submission,
      sb_purpose ?other, sb_provider ?other}" for s
    using that by (auto simp: fields)
  have sized: "length c < 2 ^ 64" if "p \<in> {sb_payload sample_submission, sb_payload ?other}"
    "canonicalPayload (gs_json sample_submit) p = Inr c" for p c
    using that by (auto simp: json sample_canonical fields)
  have differ: "[121 :: byte] \<noteq> [122]" by simp
  have other: "sb_payload ?other = ''{ }''" "sb_owner_id ?other = sb_owner_id sample_submission"
    "sb_purpose ?other = sb_purpose sample_submission" "sb_provider ?other = sb_provider sample_submission"
    "sb_stream ?other = sb_stream sample_submission" "sb_variant ?other = sb_variant sample_submission"
    by simp_all
  have "([121 :: byte] = [122]) = (sb_owner_id sample_submission = sb_owner_id ?other \<and>
      sb_purpose sample_submission = sb_purpose ?other \<and> sb_provider sample_submission = sb_provider ?other \<and>
      sb_stream sample_submission = sb_stream ?other \<and> sb_variant sample_submission = sb_variant ?other \<and>
      same_members (gs_json sample_submit) (sb_payload sample_submission) (sb_payload ?other))"
    by (rule same_key_iff_same_request [OF laws sample_key(1) key]; (rule apart short sized; assumption))
  with differ show ?thesis unfolding json other fields(1) by blast
qed

end
