(* ===== verification/Purge.thy ===== *)
theory Purge
  imports Lifecycle "HOL-Library.Product_Lexorder"
begin

text \<open>
  The retention purge, \<^verbatim>\<open>purge_settled_generations\<close> of
  \<^verbatim>\<open>internal/models/migrations\<close>, which \<^verbatim>\<open>pg_cron\<close> calls every ten seconds. \<open>Tables\<close> lets a
  purge delete any expired rows (\<open>sql_purge\<close>): here is which ones a call takes, and that its calls
  drain what has expired.

  \<open>bytes\<close> is \<^verbatim>\<open>pg_column_size\<close>, PostgreSQL's own measure of a stored value. Rows that expire at one
  instant come out of the limit in the order of the table, which is PostgreSQL's choice.
\<close>

section \<open>One call\<close>

definition purge_limit :: nat where "purge_limit = 1000"

definition purge_max_bytes :: int where "purge_max_bytes = 67108864"

definition expires_at :: "generation \<Rightarrow> time" where
  "expires_at g = (case gen_expires_at g of None \<Rightarrow> 0 | Some t \<Rightarrow> t)"

definition stored :: "(raw \<Rightarrow> nat) \<Rightarrow> database \<Rightarrow> generation \<Rightarrow> int" where
  "stored bytes db g =
     int (sum_list (map (\<lambda>a. bytes (att_response a)) (filter (\<lambda>a. att_generation_id a = gen_id g) (attempts db))))"

definition purge_expired :: "time \<Rightarrow> database \<Rightarrow> generation list" where
  "purge_expired txn db = take purge_limit (sort_key expires_at (filter (expired txn) (generations db)))"

text \<open>The rows whose predecessors, by expiry then identifier, store less than the budget.\<close>

fun within_budget :: "int \<Rightarrow> int \<Rightarrow> (generation \<Rightarrow> int) \<Rightarrow> generation list \<Rightarrow> generation list" where
  "within_budget max_bytes before bytes [] = []"
| "within_budget max_bytes before bytes (g # gs) =
     (if before < max_bytes then [g] else []) @ within_budget max_bytes (before + bytes g) bytes gs"

definition purge_batch :: "(raw \<Rightarrow> nat) \<Rightarrow> int \<Rightarrow> time \<Rightarrow> database \<Rightarrow> generation list" where
  "purge_batch bytes max_bytes txn db =
     within_budget max_bytes 0 (stored bytes db)
       (sort_key (\<lambda>g. (expires_at g, gen_id g)) (purge_expired txn db))"

definition purge_settled_generations :: "(raw \<Rightarrow> nat) \<Rightarrow> int \<Rightarrow> time \<Rightarrow> database \<Rightarrow> nat \<times> database" where
  "purge_settled_generations bytes max_bytes txn db =
     (let gone = set (map gen_id (purge_batch bytes max_bytes txn db));
          purged = filter (\<lambda>g. gen_id g \<in> gone) (generations db)
      in (length purged,
          db\<lparr>generations := filter (\<lambda>g. gen_id g \<notin> gone) (generations db),
             attempts := filter (\<lambda>a. att_generation_id a \<notin> gone) (attempts db)\<rparr>))"

section \<open>Which rows it takes\<close>

lemma within_budget_subset: "set (within_budget m b bytes gs) \<subseteq> set gs"
  by (induction gs arbitrary: b) auto

text \<open>Sizes are not negative, so the rows within the budget come first.\<close>

lemma within_budget_none:
  assumes "\<forall>g \<in> set gs. 0 \<le> bytes g" and "m \<le> b"
  shows "within_budget m b bytes gs = []"
  using assms by (induction gs arbitrary: b) (auto simp: add_increasing2)

lemma within_budget_prefix:
  assumes "\<forall>g \<in> set gs. 0 \<le> bytes g"
  shows "prefix (within_budget m b bytes gs) gs"
  using assms
proof (induction gs arbitrary: b)
  case Nil
  then show ?case by simp
next
  case (Cons g gs)
  show ?case
  proof (cases "b < m")
    case True
    with Cons show ?thesis by simp
  next
    case False
    have "within_budget m (b + bytes g) bytes gs = []"
      by (rule within_budget_none) (use False Cons.prems in \<open>auto simp: add_increasing2\<close>)
    with False show ?thesis by simp
  qed
qed

text \<open>All but the last of the rows it takes fit the budget.\<close>

lemma within_budget_fits:
  assumes "\<forall>g \<in> set gs. 0 \<le> bytes g"
  shows "within_budget m b bytes gs = [] \<or> b + sum_list (map bytes (butlast (within_budget m b bytes gs))) < m"
  using assms
proof (induction gs arbitrary: b)
  case Nil
  then show ?case by simp
next
  case (Cons g gs)
  show ?case
  proof (cases "b < m")
    case True
    with Cons.IH [of "b + bytes g"] Cons.prems show ?thesis
      by (cases "within_budget m (b + bytes g) bytes gs = []") (simp_all add: add.assoc)
  next
    case False
    have "within_budget m (b + bytes g) bytes gs = []"
      by (rule within_budget_none) (use False Cons.prems in \<open>auto simp: add_increasing2\<close>)
    with False show ?thesis by simp
  qed
qed

lemma stored_pos: "0 \<le> stored bytes db g"
  by (simp add: stored_def)

lemma purge_batch_expired:
  assumes "g \<in> set (purge_batch bytes m txn db)"
  shows "g \<in> set (generations db) \<and> expired txn g"
proof -
  from assms have "g \<in> set (purge_expired txn db)"
    using within_budget_subset by (fastforce simp: purge_batch_def)
  then show ?thesis by (auto simp: purge_expired_def dest: in_set_takeD)
qed

text \<open>A call is a purge of the rows it takes: one transaction of the program.\<close>

lemma purge_is_sql_purge:
  "snd (purge_settled_generations bytes m txn db) = sql_purge txn (gen_id ` set (purge_batch bytes m txn db)) db"
proof -
  have "gen_id ` {g \<in> set (generations db). expired txn g \<and> gen_id g \<in> gen_id ` set (purge_batch bytes m txn db)} =
      gen_id ` set (purge_batch bytes m txn db)"
    using purge_batch_expired by blast
  then show ?thesis by (simp add: purge_settled_generations_def sql_purge_def Let_def)
qed

lemma purge_step: "db_step txn db (snd (purge_settled_generations bytes m txn db))"
  unfolding purge_is_sql_purge by (rule db_step.purged)

lemma purge_limited: "length (purge_batch bytes m txn db) \<le> purge_limit"
proof -
  have "prefix (purge_batch bytes m txn db)
      (sort_key (\<lambda>g. (expires_at g, gen_id g)) (purge_expired txn db))"
    unfolding purge_batch_def by (rule within_budget_prefix) (simp add: stored_pos)
  then have "length (purge_batch bytes m txn db) \<le> length (purge_expired txn db)"
    by (auto dest: prefix_length_le)
  then show ?thesis by (simp add: purge_expired_def)
qed

text \<open>What it leaves for later expires no sooner than what it takes.\<close>

lemma prefix_sorted_before:
  assumes "prefix xs ys" and "sorted (map f ys)" and "x \<in> set xs" and "y \<in> set ys" and "y \<notin> set xs"
  shows "f x \<le> f y"
  using assms by (auto simp: prefix_def sorted_append)

lemma purge_oldest_first:
  assumes "g \<in> set (purge_batch bytes m txn db)" and "h \<in> set (generations db)" and "expired txn h"
    and "h \<notin> set (purge_batch bytes m txn db)"
  shows "expires_at g \<le> expires_at h"
proof -
  let ?all = "sort_key expires_at (filter (expired txn) (generations db))"
  let ?ordered = "sort_key (\<lambda>g. (expires_at g, gen_id g)) (purge_expired txn db)"
  have taken: "prefix (purge_batch bytes m txn db) ?ordered"
    unfolding purge_batch_def by (rule within_budget_prefix) (simp add: stored_pos)
  have gin: "g \<in> set (purge_expired txn db)"
    using assms(1) set_mono_prefix [OF taken] by auto
  show ?thesis
  proof (cases "h \<in> set (purge_expired txn db)")
    case True
    then have "(expires_at g, gen_id g) \<le> (expires_at h, gen_id h)"
      by (intro prefix_sorted_before [OF taken _ assms(1) _ assms(4)]) simp_all
    then show ?thesis by (auto simp: less_eq_prod_def)
  next
    case False
    with gin assms(2,3) show ?thesis
      unfolding purge_expired_def by (intro take_sorted_before [of expires_at ?all]) simp_all
  qed
qed

text \<open>The rows it leaves, and the count it answers.\<close>

lemma purge_batch_distinct:
  assumes "db_inv db"
  shows "distinct (purge_batch bytes m txn db)"
proof -
  have "distinct (generations db)" using db_inv_distinct [OF assms] by (simp add: distinct_map)
  then have "distinct (sort_key (\<lambda>g. (expires_at g, gen_id g)) (purge_expired txn db))"
    by (simp add: purge_expired_def distinct_take)
  moreover have "prefix (purge_batch bytes m txn db) (sort_key (\<lambda>g. (expires_at g, gen_id g)) (purge_expired txn db))"
    unfolding purge_batch_def by (rule within_budget_prefix) (simp add: stored_pos)
  ultimately show ?thesis by (metis distinct_append prefixE)
qed

lemma purge_chosen:
  assumes "db_inv db" and "g \<in> set (generations db)"
  shows "gen_id g \<in> gen_id ` set (purge_batch bytes m txn db) \<longleftrightarrow> g \<in> set (purge_batch bytes m txn db)"
proof
  assume "gen_id g \<in> gen_id ` set (purge_batch bytes m txn db)"
  then obtain h where h: "h \<in> set (purge_batch bytes m txn db)" "gen_id h = gen_id g" by force
  with distinct_map_eq [OF db_inv_distinct [OF assms(1)] _ assms(2)] purge_batch_expired
  show "g \<in> set (purge_batch bytes m txn db)" by metis
qed simp

lemma purge_leaves:
  assumes "db_inv db"
  shows "set (generations (snd (purge_settled_generations bytes m txn db))) =
    set (generations db) - set (purge_batch bytes m txn db)"
proof -
  have "set (generations (snd (purge_settled_generations bytes m txn db))) =
      {g \<in> set (generations db). gen_id g \<notin> gen_id ` set (purge_batch bytes m txn db)}"
    by (simp add: purge_settled_generations_def Let_def)
  with purge_chosen [OF assms] show ?thesis by blast
qed

lemma purge_count:
  assumes "db_inv db"
  shows "fst (purge_settled_generations bytes m txn db) = length (purge_batch bytes m txn db)"
proof -
  have rows: "distinct (generations db)" using db_inv_distinct [OF assms] by (simp add: distinct_map)
  have "fst (purge_settled_generations bytes m txn db) =
      length (filter (\<lambda>g. g \<in> set (purge_batch bytes m txn db)) (generations db))"
    using purge_chosen [OF assms]
    by (simp add: purge_settled_generations_def Let_def cong: filter_cong)
  also have "\<dots> = card (set (filter (\<lambda>g. g \<in> set (purge_batch bytes m txn db)) (generations db)))"
    by (rule sym [OF distinct_card]) (simp add: rows)
  also have "set (filter (\<lambda>g. g \<in> set (purge_batch bytes m txn db)) (generations db)) = set (purge_batch bytes m txn db)"
    using purge_batch_expired by auto
  finally show ?thesis using distinct_card [OF purge_batch_distinct [OF assms]] by simp
qed

section \<open>Draining\<close>

lemma sort_key_empty [simp]: "sort_key f xs = [] \<longleftrightarrow> xs = []"
  by (metis length_0_conv length_sort)

lemma purge_takes_one:
  assumes "0 < m" and "\<exists>g \<in> set (generations db). expired txn g"
  shows "purge_batch bytes m txn db \<noteq> []"
proof -
  from assms(2) have "filter (expired txn) (generations db) \<noteq> []" by (simp add: filter_empty_conv)
  then have "purge_expired txn db \<noteq> []" by (simp add: purge_expired_def purge_limit_def)
  then have "sort_key (\<lambda>g. (expires_at g, gen_id g)) (purge_expired txn db) \<noteq> []" by simp
  then obtain g gs where "sort_key (\<lambda>g. (expires_at g, gen_id g)) (purge_expired txn db) = g # gs"
    by (auto simp only: neq_Nil_conv)
  with assms(1) show ?thesis by (simp add: purge_batch_def)
qed

definition backlog :: "time \<Rightarrow> database \<Rightarrow> nat" where
  "backlog txn db = length (filter (expired txn) (generations db))"

lemma backlog_purged:
  "backlog txn (snd (purge_settled_generations bytes m t db)) =
     length (filter (\<lambda>g. gen_id g \<notin> gen_id ` set (purge_batch bytes m t db)) (filter (expired txn) (generations db)))"
  by (simp add: backlog_def purge_settled_generations_def Let_def filter_filter conj_commute)

text \<open>A call that runs later takes a row that had expired by \<open>txn\<close>: those come first.\<close>

lemma expired_later: "expired txn g \<Longrightarrow> txn \<le> t \<Longrightarrow> expired t g"
  by (auto simp: expired_def split: option.splits)

lemma expired_sooner: "expired t g \<Longrightarrow> expired txn h \<Longrightarrow> expires_at g \<le> expires_at h \<Longrightarrow> expired txn g"
  by (auto simp: expired_def expires_at_def split: option.splits)

lemma purge_works:
  assumes "0 < m" and "txn \<le> t" and "0 < backlog txn db"
  shows "backlog txn (snd (purge_settled_generations bytes m t db)) < backlog txn db"
proof -
  from assms(3) obtain h where h: "h \<in> set (generations db)" "expired txn h"
    by (auto simp: backlog_def filter_empty_conv)
  with assms(2) have late: "expired t h" by (blast intro: expired_later)
  obtain g where g: "g \<in> set (purge_batch bytes m t db)" "expired txn g"
  proof (cases "h \<in> set (purge_batch bytes m t db)")
    case True
    with h that show ?thesis by blast
  next
    case False
    have "purge_batch bytes m t db \<noteq> []" by (rule purge_takes_one [OF assms(1)]) (use h late in blast)
    then obtain g where g: "g \<in> set (purge_batch bytes m t db)" by fastforce
    from purge_oldest_first [OF g h(1) late False] expired_sooner purge_batch_expired [OF g] h(2)
    show ?thesis using that g by blast
  qed
  with purge_batch_expired have "g \<in> set (filter (expired txn) (generations db))" by auto
  then show ?thesis
    unfolding backlog_purged using g(1) unfolding backlog_def by (intro length_filter_less [of g]) simp_all
qed

lemma purge_unexpired:
  assumes "db_inv db" and "find_row db i = Some g" and "\<not> expired txn g"
  shows "find_row (snd (purge_settled_generations bytes m txn db)) i = Some g"
  unfolding purge_is_sql_purge using find_row_purge [OF assms(1,2)] assms(3) by blast

lemma purge_call_inv: "db_inv db \<Longrightarrow> db_inv (snd (purge_settled_generations bytes m txn db))"
  unfolding purge_is_sql_purge by (rule purge_inv)

text \<open>The runs of the schedule, at the times it runs them.\<close>

definition purges :: "(raw \<Rightarrow> nat) \<Rightarrow> int \<Rightarrow> time list \<Rightarrow> database \<Rightarrow> database" where
  "purges bytes max_bytes ts db =
     fold (\<lambda>t db. snd (purge_settled_generations bytes max_bytes t db)) ts db"

lemma purges_drain:
  assumes "0 < m" and "\<forall>t \<in> set ts. txn \<le> t" and "backlog txn db \<le> length ts"
  shows "backlog txn (purges bytes m ts db) = 0"
  using assms(2,3)
proof (induction ts arbitrary: db)
  case Nil
  then show ?case by (simp add: purges_def)
next
  case (Cons t ts)
  let ?db = "snd (purge_settled_generations bytes m t db)"
  have "backlog txn ?db \<le> length ts"
  proof (cases "backlog txn db = 0")
    case True
    then have "backlog txn ?db = 0" unfolding backlog_purged by (simp add: backlog_def)
    then show ?thesis by simp
  next
    case False
    with purge_works [OF assms(1), of txn t db bytes] Cons.prems show ?thesis by simp
  qed
  with Cons have "backlog txn (purges bytes m ts ?db) = 0" by simp
  then show ?case by (simp add: purges_def)
qed

lemma purges_unexpired:
  assumes "db_inv db" and "find_row db i = Some g" and "\<forall>t \<in> set ts. \<not> expired t g"
  shows "find_row (purges bytes m ts db) i = Some g"
  using assms
  by (induction ts arbitrary: db) (simp_all add: purges_def purge_unexpired purge_call_inv)

section \<open>The properties\<close>

text \<open>C17: One call of the purge is one transaction of the program, and is bounded: it deletes at most a
  thousand generations, each expired, and all but the last it takes store less than the budget, so
  one statement never deletes without limit. It takes the oldest: no row it leaves expired sooner
  than one it took. It keeps every Usage Record.\<close>

theorem purge_takes_oldest_within_budget:
  assumes "db_inv db" and "purge_settled_generations bytes max_bytes txn db = (n, db')"
  shows "db_step txn db db' \<and> usages db' = usages db \<and> n \<le> 1000 \<and>
    (\<exists>batch. length batch = n \<and> distinct batch \<and>
       set batch = set (generations db) - set (generations db') \<and>
       (batch = [] \<or> sum_list (map (stored bytes db) (butlast batch)) < max_bytes) \<and>
       (\<forall>g \<in> set batch. expired txn g \<and>
          (\<forall>h \<in> set (generations db'). expired txn h \<longrightarrow> expires_at g \<le> expires_at h)))"
proof -
  let ?batch = "purge_batch bytes max_bytes txn db"
  have db': "db' = snd (purge_settled_generations bytes max_bytes txn db)" using assms(2) by simp
  have left: "set (generations db') = set (generations db) - set ?batch"
    and took: "set ?batch = set (generations db) - set (generations db')"
    using purge_leaves [OF assms(1)] purge_batch_expired unfolding db' by blast+
  have "n = length ?batch" using purge_count [OF assms(1), of bytes max_bytes txn] assms(2) by simp
  moreover have "n \<le> 1000" using purge_limited [of bytes max_bytes txn db] calculation by (simp add: purge_limit_def)
  moreover have "usages db' = usages db" unfolding db' by (simp add: purge_settled_generations_def Let_def)
  moreover have "?batch = [] \<or> sum_list (map (stored bytes db) (butlast ?batch)) < max_bytes"
    using within_budget_fits [of "sort_key (\<lambda>g. (expires_at g, gen_id g)) (purge_expired txn db)"
        "stored bytes db" max_bytes 0] stored_pos
    by (simp add: purge_batch_def)
  moreover have "\<forall>g \<in> set ?batch. expired txn g \<and>
      (\<forall>h \<in> set (generations db'). expired txn h \<longrightarrow> expires_at g \<le> expires_at h)"
    using purge_batch_expired purge_oldest_first unfolding left by blast
  moreover have "db_step txn db db'" unfolding db' by (rule purge_step)
  moreover have "distinct ?batch" by (rule purge_batch_distinct [OF assms(1)])
  ultimately show ?thesis using took by blast
qed

definition sample_expired :: "uuid \<Rightarrow> time \<Rightarrow> generation" where
  "sample_expired i t =
     (new_row 10 sample_request)\<lparr>gen_id := i, gen_request_key := [ucast i], gen_status := Succeeded,
       gen_settled_at := Some 20, gen_expires_at := Some t\<rparr>"

definition sample_backlog :: database where
  "sample_backlog =
     sample_db\<lparr>generations := [sample_expired 1 50, sample_expired 2 30, sample_expired 3 40, sample_expired 4 90],
       attempts := map (\<lambda>i. \<lparr>att_generation_id = i, att_attempt = 1, att_response = ''answer'', att_created_at = 20\<rparr>) [1, 2, 3, 4]\<rparr>"

lemma sample_backlog_inv: "db_inv sample_backlog"
  by (simp add: db_inv_def sample_backlog_def sample_expired_def sample_db_def row_inv_def generation_row_check_def
      new_row_def sample_request_def keyed_def live_status_def terminal_status_def)

theorem purge_takes_oldest_within_budget_witness:
  "let (n, db') = purge_settled_generations length 7 60 sample_backlog in
   n = 2 \<and> map gen_id (generations db') = [1, 4] \<and> db_step 60 sample_backlog db' \<and> usages db' = []"
proof -
  have run: "fst (purge_settled_generations length 7 60 sample_backlog) = 2"
    "map gen_id (generations (snd (purge_settled_generations length 7 60 sample_backlog))) = [1, 4]"
    "usages sample_backlog = []"
    by code_simp+
  from run purge_takes_oldest_within_budget [where bytes = length and max_bytes = 7 and txn = 60, OF sample_backlog_inv surjective_pairing]
  show ?thesis by (simp add: split_def)
qed

text \<open>C18: The purge drains what has expired. However large the backlog is, and whatever its rows
  store, as many calls as it has rows, at any times after it expired, leave none of it, while a row
  that expires after the last of them is left as it was.\<close>

theorem purges_drain_backlog:
  assumes "0 < max_bytes" and "db_inv db" and "\<forall>t \<in> set ts. txn \<le> t" and "backlog txn db \<le> length ts"
  shows "(\<forall>g \<in> set (generations (purges bytes max_bytes ts db)). \<not> expired txn g) \<and>
    (\<forall>i g. find_row db i = Some g \<and> (\<forall>t \<in> set ts. \<not> expired t g) \<longrightarrow>
       find_row (purges bytes max_bytes ts db) i = Some g)"
  using purges_drain [OF assms(1,3,4), of bytes] purges_unexpired [OF assms(2)]
  by (auto simp: backlog_def filter_empty_conv)

theorem purges_drain_backlog_witness:
  "filter (expired 60) (generations (purges length 7 [60, 70, 80] sample_backlog)) = [] \<and>
   find_row (purges length 7 [60, 70, 80] sample_backlog) 4 = Some (sample_expired 4 90)"
proof -
  have "backlog 60 sample_backlog = 3" and "find_row sample_backlog 4 = Some (sample_expired 4 90)"
    and "\<not> expired 60 (sample_expired 4 90)" "\<not> expired 70 (sample_expired 4 90)" "\<not> expired 80 (sample_expired 4 90)"
    by (simp_all add: backlog_def sample_backlog_def sample_expired_def expired_def find_row_def)
  with purges_drain_backlog [of 7 sample_backlog "[60, 70, 80]" 60 length] sample_backlog_inv
  show ?thesis by (simp add: filter_empty_conv)
qed

end
