(* ===== verification/Client.thy ===== *)
theory Client
  imports OpenAI Handlers
begin

text \<open>
  \<^verbatim>\<open>pkg/go\<close>: the client other services import. Its methods are the generated code's, and the dial is
  gRPC's, an argument here: what the package decides is the options it dials with, before the caller's own, and
  the names it gives the statuses and the failure classes a caller reads.
\<close>

section \<open>The connection\<close>

definition maxReceiveBytes :: nat where "maxReceiveBytes = push_bit 20 64"

datatype call_option = MaxCallRecvMsgSize nat | MaxRetryRPCBufferSize nat

datatype 'o dial_option =
    WithDefaultCallOptions "call_option list"
  | WithClientTracing
  | GivenOption 'o

definition client_defaults :: "'o dial_option list" where
  "client_defaults =
     [WithDefaultCallOptions [MaxCallRecvMsgSize maxReceiveBytes, MaxRetryRPCBufferSize maxReceiveBytes],
      WithClientTracing]"

text \<open>The client is its connection, which the generated clients of the seven services share.\<close>

definition NewClient ::
  "(string \<Rightarrow> 'o dial_option list \<Rightarrow> goerr + 'conn) \<Rightarrow> string \<Rightarrow> 'o list \<Rightarrow> goerr + 'conn" where
  "NewClient grpc_NewClient addr opts =
     (case grpc_NewClient addr (client_defaults @ map GivenOption opts) of
        Inl err \<Rightarrow> Inl (Wrap ''new grpc client'' err)
      | Inr conn \<Rightarrow> Inr conn)"

text \<open>
  A generation holds the raw answer of one call, or two since an earlier release: both reach the client
  at the connector's ceiling, with sixteen mebibytes left for the rest of the message.
\<close>

lemma client_admits_answers: "2 * ResponseSizeCeiling + 16 * 1048576 = maxReceiveBytes"
  by (simp add: ResponseSizeCeiling_def maxReceiveBytes_def push_bit_eq_mult)

lemma client_refuses_dial:
  "NewClient dial addr opts = Inl err \<longleftrightarrow>
     (\<exists>e. dial addr (client_defaults @ map GivenOption opts) = Inl e \<and> err = Wrap ''new grpc client'' e)"
  by (auto simp: NewClient_def split: sum.splits)

section \<open>What a caller reads\<close>

text \<open>
  A status or a failure class travels as its number in the service's definitions, and the package re-exports
  the numbers under its own names. Proto3 keeps a number it has no name for, so a client reads any number.
\<close>

fun status_number :: "wire_status \<Rightarrow> int" where
  "status_number StatusUnspecified = 0"
| "status_number StatusPending = 1"
| "status_number StatusRunning = 2"
| "status_number StatusSucceeded = 3"
| "status_number StatusFailed = 4"
| "status_number StatusCancelled = 6"

fun failure_number :: "wire_failure \<Rightarrow> int" where
  "failure_number FailureUnspecified = 0"
| "failure_number FailureRejected = 1"
| "failure_number FailureProviderFailed = 2"
| "failure_number FailureNotStarted = 3"
| "failure_number FailureOutcomeUnknown = 4"

definition GenerationStatusUnspecified :: int where "GenerationStatusUnspecified = status_number StatusUnspecified"
definition GenerationStatusPending :: int where "GenerationStatusPending = status_number StatusPending"
definition GenerationStatusRunning :: int where "GenerationStatusRunning = status_number StatusRunning"
definition GenerationStatusSucceeded :: int where "GenerationStatusSucceeded = status_number StatusSucceeded"
definition GenerationStatusFailed :: int where "GenerationStatusFailed = status_number StatusFailed"
definition GenerationStatusCancelled :: int where "GenerationStatusCancelled = status_number StatusCancelled"

definition GenerationFailureUnspecified :: int where
  "GenerationFailureUnspecified = failure_number FailureUnspecified"
definition GenerationFailureRejected :: int where
  "GenerationFailureRejected = failure_number FailureRejected"
definition GenerationFailureProviderFailed :: int where
  "GenerationFailureProviderFailed = failure_number FailureProviderFailed"
definition GenerationFailureNotStarted :: int where
  "GenerationFailureNotStarted = failure_number FailureNotStarted"
definition GenerationFailureOutcomeUnknown :: int where
  "GenerationFailureOutcomeUnknown = failure_number FailureOutcomeUnknown"

lemmas client_constants =
  GenerationStatusUnspecified_def GenerationStatusPending_def GenerationStatusRunning_def
  GenerationStatusSucceeded_def GenerationStatusFailed_def GenerationStatusCancelled_def
  GenerationFailureUnspecified_def GenerationFailureRejected_def GenerationFailureProviderFailed_def
  GenerationFailureNotStarted_def GenerationFailureOutcomeUnknown_def

text \<open>The number tells the status apart from every other, and is never that of an unset one.\<close>

lemma status_number_inject [simp]:
  "status_number (generationStatuses s) = status_number (generationStatuses t) \<longleftrightarrow> s = t"
  by (cases s; cases t) simp_all

lemma failure_number_inject [simp]:
  "failure_number (generationFailures f) = failure_number (generationFailures g) \<longleftrightarrow> f = g"
  by (cases f rule: generationFailures.cases; cases g rule: generationFailures.cases) simp_all

text \<open>A caller stops waiting on three of the statuses: exactly when the generation is settled.\<close>

lemma client_terminal:
  "status_number (wg_status (NewGrpcGeneration g))
     \<in> {GenerationStatusSucceeded, GenerationStatusFailed, GenerationStatusCancelled} \<longleftrightarrow>
   terminal_status (gv_status g)"
  by (cases "gv_status g") (simp_all add: NewGrpcGeneration_def client_constants live_status_def)

lemma client_never_unspecified: "status_number (wg_status (NewGrpcGeneration g)) \<noteq> GenerationStatusUnspecified"
  by (cases "gv_status g") (simp_all add: NewGrpcGeneration_def client_constants)

end
