(* ===== verification/Poll.thy ===== *)
theory Poll
  imports Services_Properties Undisturbed
begin

text \<open>
  The way a request goes when nothing disturbs it: a poll of a generation whose call is over answers what the
  provider answered, when the tables take it.
\<close>

section \<open>A commit the tables take\<close>

definition storable :: "database \<Rightarrow> generation \<Rightarrow> call \<Rightarrow> bool" where
  "storable db g call \<longleftrightarrow>
     (case call_response call of None \<Rightarrow> True | Some bytes \<Rightarrow> json_ok db bytes) \<and>
     (case call_usage call of None \<Rightarrow> True | Some u \<Rightarrow> usage_check ((usage_of g call u)\<lparr>usg_attempt := 1\<rparr>))"

text \<open>What the tables ask of a call's answer and of its usage, whatever the generation.\<close>

definition call_fits :: "database \<Rightarrow> call \<Rightarrow> bool" where
  "call_fits db call \<longleftrightarrow>
     (case call_response call of None \<Rightarrow> True | Some bytes \<Rightarrow> json_ok db bytes) \<and>
     (case call_usage call of
        None \<Rightarrow> True
      | Some u \<Rightarrow>
          call_model call \<noteq> [] \<and> call_class call \<noteq> [] \<and>
          0 \<le> use_cached_input_tokens u \<and> use_cached_input_tokens u \<le> use_input_tokens u \<and>
          0 \<le> use_cache_write_tokens u \<and>
          0 \<le> use_reasoning_tokens u \<and> use_reasoning_tokens u \<le> use_output_tokens u)"

lemma call_fits_storable: "row_inv g \<Longrightarrow> call_fits db call \<Longrightarrow> storable db g call"
  by (auto simp: row_inv_def generation_row_check_def call_fits_def storable_def usage_of_def usage_check_def
      split: option.splits)

text \<open>The one answer of a settled call.\<close>

definition answer_rows :: "uuid \<Rightarrow> time \<Rightarrow> raw option \<Rightarrow> generation_attempt list" where
  "answer_rows i now response =
     (case response of
        None \<Rightarrow> []
      | Some bytes \<Rightarrow>
          [\<lparr>att_generation_id = i, att_attempt = 1, att_response = bytes, att_created_at = now\<rparr>])"

lemma recordAttempt_stored:
  assumes "w_sched w = []" and "\<not> over ctx (w_clock w)" and "gen_id g \<in> gen_id ` set (generations (w_db w))"
    and "\<forall>a \<in> set (attempts (w_db w)). att_generation_id a \<noteq> gen_id g"
    and "case response of None \<Rightarrow> True | Some bytes \<Rightarrow> json_ok (w_db w) bytes"
  shows "run_state (check_recordAttempt ctx g response) w =
    (None, w\<lparr>w_db := (w_db w)\<lparr>attempts := attempts (w_db w) @ answer_rows (gen_id g) (w_db_clock w) response\<rparr>\<rparr>)"
proof -
  have fresh: "(gen_id g, 1) \<notin> (\<lambda>a. (att_generation_id a, att_attempt a)) ` set (attempts (w_db w))"
    using assms(4) by force
  with assms(1-3,5) show ?thesis
    by (cases response)
       (simp_all add: check_recordAttempt_def PgGenerationAttemptInsert_Exec_def statement_alone sql_attempt_insert_def
         answer_rows_def Let_def)
qed

lemma recordUsage_stored:
  assumes "w_sched w = []" and "\<not> over ctx (w_clock w)"
    and "case call_usage call of None \<Rightarrow> True | Some u \<Rightarrow> usage_check ((usage_of g call u)\<lparr>usg_attempt := 1\<rparr>)"
  shows "\<exists>us. run_state (check_recordUsage ctx g call) w = (None, w\<lparr>w_db := (w_db w)\<lparr>usages := us\<rparr>\<rparr>)"
proof (cases "call_usage call")
  case None
  then show ?thesis by (intro exI [of _ "usages (w_db w)"]) (simp add: check_recordUsage_def)
next
  case (Some u)
  let ?row = "(usage_of g call u)\<lparr>usg_attempt := 1, usg_created_at := w_db_clock w\<rparr>"
  have "usage_check ?row" using assms(3) Some by (simp add: usage_check_def)
  then have "sql_usage_insert (w_db_clock w) (usage_of g call u) (w_db w) = (Inl (Sentinel ErrNoRows), w_db w) \<or>
      sql_usage_insert (w_db_clock w) (usage_of g call u) (w_db w) =
        (Inr ?row, (w_db w)\<lparr>usages := usages (w_db w) @ [?row]\<rparr>)"
    by (simp add: sql_usage_insert_def Let_def)
  then show ?thesis
  proof
    assume "sql_usage_insert (w_db_clock w) (usage_of g call u) (w_db w) = (Inl (Sentinel ErrNoRows), w_db w)"
    with Some assms(1,2) show ?thesis
      by (intro exI [of _ "usages (w_db w)"])
         (simp add: check_recordUsage_def PgGenerationUsageInsert_Exec_def statement_alone no_rows_def err_is_refused
            Let_def)
  next
    assume "sql_usage_insert (w_db_clock w) (usage_of g call u) (w_db w) =
        (Inr ?row, (w_db w)\<lparr>usages := usages (w_db w) @ [?row]\<rparr>)"
    with Some assms(1,2) show ?thesis
      by (intro exI [of _ "usages (w_db w) @ [?row]"])
         (simp add: check_recordUsage_def PgGenerationUsageInsert_Exec_def statement_alone Let_def)
  qed
qed

lemma commit_body_stored:
  assumes "w_sched w = []" and "\<not> over ctx (w_clock w)" and "db_inv (w_db w)"
    and "find_row (w_db w) (gen_id g) = Some row" and "follows g row"
    and "terminal_status status" and "message \<noteq> Some []" and "failure \<noteq> None \<longrightarrow> status = Failed"
    and "storable (w_db w) g call"
    and "r = commit_request retention g status message failure" and "settled = settle_row (w_db_clock w) r row"
  shows "\<exists>us. run_state (commit_body ctx r g call) w =
    ((None, Some (settled\<lparr>gen_read_at := 0\<rparr>)),
     w\<lparr>w_db := (put_row settled (w_db w))
       \<lparr>attempts := attempts (w_db w) @ answer_rows (gen_id g) (w_db_clock w) (call_response call), usages := us\<rparr>\<rparr>)"
proof -
  let ?v = "w\<lparr>w_db := put_row settled (w_db w)\<rparr>"
  note settle = commit_settle_alone [OF assms(1-8,10,11)]
  have kept: "attempts (put_row settled (w_db w)) = attempts (w_db w)" "json_ok (put_row settled (w_db w)) = json_ok (w_db w)"
    by (simp_all add: put_row_def)
  have attempt: "run_state (check_recordAttempt ctx g (call_response call)) ?v =
      (None, ?v\<lparr>w_db := (w_db ?v)\<lparr>attempts := attempts (w_db ?v) @
         answer_rows (gen_id g) (w_db_clock ?v) (call_response call)\<rparr>\<rparr>)"
    by (rule recordAttempt_stored) (use assms(1,2,9) settle(2,3) kept in \<open>auto simp: storable_def split: option.splits\<close>)
  obtain us where "run_state (check_recordUsage ctx g call) (?v\<lparr>w_db := (w_db ?v)\<lparr>attempts := attempts (w_db ?v) @
         answer_rows (gen_id g) (w_db_clock ?v) (call_response call)\<rparr>\<rparr>) =
      (None, ?v\<lparr>w_db := (w_db ?v)\<lparr>attempts := attempts (w_db ?v) @
         answer_rows (gen_id g) (w_db_clock ?v) (call_response call), usages := us\<rparr>\<rparr>)"
    using recordUsage_stored [of "?v\<lparr>w_db := (w_db ?v)\<lparr>attempts := attempts (w_db ?v) @
         answer_rows (gen_id g) (w_db_clock ?v) (call_response call)\<rparr>\<rparr>" ctx g call] assms(1,2,9)
    by (auto simp: storable_def)
  with attempt settle(1) kept show ?thesis by (simp add: commit_body_def) blast
qed

text \<open>What a generation is once its call settled it, and the answers kept of it.\<close>

definition outcome_row :: "duration \<Rightarrow> time \<Rightarrow> generation \<Rightarrow> call \<Rightarrow> generation" where
  "outcome_row retention now g call =
     (let (status, message) = settleOutcomeOf g call in
      g\<lparr>gen_status := status, gen_error := message,
        gen_failure := (if status = Failed then Some ProviderFailed else None),
        gen_settled_at := Some now, gen_expires_at := Some (now + retention), gen_outcome_unknown_at := None,
        gen_updated_at := now\<rparr>)"

definition settled_with :: "duration \<Rightarrow> generation \<Rightarrow> call \<Rightarrow> generation \<Rightarrow> 'p world \<Rightarrow> bool" where
  "settled_with retention row call h w \<longleftrightarrow>
     alone w \<and>
     (\<exists>now. find_row (w_db w) (gen_id row) = Some (outcome_row retention now row call) \<and>
        h = (outcome_row retention now row call)\<lparr>gen_read_at := 0\<rparr> \<and>
        filter (\<lambda>a. att_generation_id a = gen_id row) (attempts (w_db w)) =
          answer_rows (gen_id row) now (call_response call))"

text \<open>In its state, the provider says that the call is over, and how it ended, to whom still has time.\<close>

definition reports :: "('p, 'r) async \<Rightarrow> string \<Rightarrow> call \<Rightarrow> 'p \<Rightarrow> bool" where
  "reports connector i call p \<longleftrightarrow>
     Terminal (call_state call) \<and>
     (\<forall>ctx w. alone w \<and> w_prov w = p \<and> \<not> over ctx (w_clock w) \<longrightarrow>
        fst (run_state (as_get connector ctx i) w) = Inr call \<and>
        fst (run_state (as_cancel connector ctx i) w) = Inr call)"

lemma reports_act:
  assumes "reports connector i call (w_prov w)" and "alone w" and "\<not> over ctx (w_clock w)"
  shows "\<exists>w'. run_state (connector_Get connector ctx i) w = (Inr call, w')"
    and "\<exists>w'. run_state (connector_Cancel connector ctx i) w = (Inr call, w')"
proof -
  let ?w = "\<lambda>a. w\<lparr>w_trace := w_trace w @ [a]\<rparr>"
  have "fst (run_state (as_get connector ctx i) (?w a)) = Inr call \<and>
      fst (run_state (as_cancel connector ctx i) (?w a)) = Inr call" for a
    using assms by (simp add: reports_def alone_def)
  then show "\<exists>w'. run_state (connector_Get connector ctx i) w = (Inr call, w')"
    and "\<exists>w'. run_state (connector_Cancel connector ctx i) w = (Inr call, w')"
    by (simp_all add: connector_Get_def connector_Cancel_def act_def prod_eq_iff)
qed

text \<open>Asked about a call that is over, a check hears so, whether it reads or stops the call.\<close>

lemma ask_finished:
  assumes "reports connector i call (w_prov w)" and "alone w" and "\<not> over ctx (w_clock w)"
  shows "\<exists>since w'. run_state (check_ask ctx connector g start i) w = ((Inr call, since), w')"
proof (cases "stop_wanted g start")
  case None
  from reports_act(1) [OF assms] obtain w' where
    "run_state (connector_Get connector ctx i) w = (Inr call, w')" by blast
  moreover have "call_state call \<noteq> CallQueued" using assms(1) by (auto simp: reports_def Terminal_def)
  ultimately show ?thesis using None by (simp add: check_ask_def)
next
  case (Some since)
  from reports_act(2) [OF assms] obtain w' where
    "run_state (connector_Cancel connector ctx i) w = (Inr call, w')" by blast
  then show ?thesis using Some by (simp add: check_ask_def ask_stop_def)
qed

context undisturbed_check
begin

lemma commit_stored:
  assumes "alone w" and "\<not> over ctx (w_clock w)" and "db_inv (w_db w)"
    and "find_row (w_db w) (gen_id g) = Some row" and "follows g row"
    and "terminal_status status" and "message \<noteq> Some []" and "failure \<noteq> None \<longrightarrow> status = Failed"
    and "storable (w_db w) g call"
    and "r = commit_request (gc_retention service) g status message failure"
    and "settled = settle_row (w_db_clock w) r row"
  shows "\<exists>us d. run_state (check_commit service ctx g status message failure call) w =
    (Inr (settled\<lparr>gen_read_at := 0\<rparr>),
     elapse d (w\<lparr>w_db := (put_row settled (w_db w))
       \<lparr>attempts := attempts (w_db w) @ answer_rows (gen_id g) (w_db_clock w) (call_response call), usages := us\<rparr>\<rparr>))"
proof -
  note sched = aloneD(1) [OF assms(1)]
  note begun = begun_alone [OF sched]
  obtain us where body: "run_state (commit_body ctx r g call) (begun w) =
      ((None, Some (settled\<lparr>gen_read_at := 0\<rparr>)), (begun w)\<lparr>w_db := (put_row settled (w_db w))
       \<lparr>attempts := attempts (w_db w) @ answer_rows (gen_id g) (w_db_clock w) (call_response call), usages := us\<rparr>\<rparr>)"
    using commit_body_stored [of "begun w" ctx g row status message failure call r "gc_retention service" settled] assms sched
    unfolding begun by auto
  obtain a w' where tx: "run_state (gc_transactor service ctx (commit_body ctx r g call)) w = (a, w')" by fastforce
  have closed: "(begun w)\<lparr>w_db := db, w_tx := None\<rparr> = w\<lparr>w_db := db\<rparr>" for db
    using aloneD(2) [OF assms(1)] by (simp add: begun)
  from answering_transactor.committed_alone [OF transactions assms(1,2) body tx] tx show ?thesis
    by (auto simp: check_commit_def assms(10) closed)
qed

lemma settle_stored:
  assumes "alone w" and "\<not> over ctx (w_clock w)" and "db_inv (w_db w)"
    and "find_row (w_db w) (gen_id row) = Some row" and "live_status (gen_status row)"
    and "storable (w_db w) row call" and "g = row\<lparr>gen_read_at := t\<rparr>"
  shows "\<exists>h w'. run_state (check_settle service ctx g call) w = (Inr h, w') \<and>
           settled_with (gc_retention service) row call h w'"
proof -
  obtain status message where out: "settleOutcomeOf g call = (status, message)" by fastforce
  note terminal = settleOutcomeOf_terminal [OF out]
  obtain failure where failure: "failure = (if status = Failed then Some ProviderFailed else None)" by simp
  let ?r = "commit_request (gc_retention service) g status message failure"
  obtain l where w: "run_state (check_settle service ctx g call) w =
      run_state (check_commit service ctx g status message failure call) (w\<lparr>w_log := l\<rparr>)"
  proof (cases "status = Failed")
    case True
    then show thesis by (intro that) (simp add: check_settle_def out logger_Err_def failure)
  next
    case False
    then show thesis by (intro that [of "w_log w"]) (simp add: check_settle_def out failure)
  qed
  have same: "settleOutcomeOf row call = (status, message)"
    using out by (cases "call_state call") (simp_all add: assms(7) settleOutcomeOf_def)
  let ?settled = "outcome_row (gc_retention service) (w_db_clock w) row call"
  have settled: "?settled = settle_row (w_db_clock w) ?r row"
    by (simp add: outcome_row_def same settle_row_def commit_request_def failure)
  have id: "gen_id ?settled = gen_id row" by (simp add: outcome_row_def split: prod.split)
  have g: "gen_id g = gen_id row" "follows g row" using assms(5) by (simp_all add: assms(7) follows_def)
  have "usage_of g = usage_of row" by (simp add: fun_eq_iff usage_of_def assms(7))
  then have fits: "storable (w_db (w\<lparr>w_log := l\<rparr>)) g call" using assms(6) by (simp add: storable_def) metis
  have "\<exists>us d. run_state (check_commit service ctx g status message failure call) (w\<lparr>w_log := l\<rparr>) =
      (Inr (?settled\<lparr>gen_read_at := 0\<rparr>), elapse d ((w\<lparr>w_log := l\<rparr>)\<lparr>w_db := (put_row ?settled (w_db (w\<lparr>w_log := l\<rparr>)))
         \<lparr>attempts := attempts (w_db (w\<lparr>w_log := l\<rparr>)) @
            answer_rows (gen_id g) (w_db_clock (w\<lparr>w_log := l\<rparr>)) (call_response call), usages := us\<rparr>\<rparr>))"
    by (rule commit_stored [OF _ _ _ _ g(2) _ _ _ fits refl])
       (use assms(1-4) terminal settled g(1) failure in \<open>simp_all add: alone_def\<close>)
  then obtain us d where run: "run_state (check_settle service ctx g call) w =
      (Inr (?settled\<lparr>gen_read_at := 0\<rparr>), elapse d (w\<lparr>w_log := l, w_db := (put_row ?settled (w_db w))
         \<lparr>attempts := attempts (w_db w) @ answer_rows (gen_id row) (w_db_clock w) (call_response call), usages := us\<rparr>\<rparr>))"
    unfolding w g(1) by auto
  have "filter (\<lambda>a. att_generation_id a = gen_id row) (attempts (w_db w)) = []"
    using live_unanswered [OF assms(3-5)] by (simp add: filter_empty_conv)
  moreover have "filter (\<lambda>a. att_generation_id a = gen_id row) (answer_rows (gen_id row) now response) =
      answer_rows (gen_id row) now response" for now response
    by (simp add: answer_rows_def split: option.split)
  ultimately show ?thesis
    using run assms(1,4) find_row_put_row [of ?settled "w_db w"]
    by (auto simp: settled_with_def alone_def elapse_def id find_row_def)
qed

lemma observe_finished:
  assumes "alone w" and "ctx = with_timeout None (w_clock w) checkTimeout" and "db_inv (w_db w)"
    and "find_row (w_db w) (gen_id row) = Some row" and "live_status (gen_status row)"
    and "storable (w_db w) row call" and "g = row\<lparr>gen_read_at := t\<rparr>"
    and "gen_start_requested_at row = Some start" and "gen_provider_call_id row = Some i"
    and "registry_Async (gc_registry service) (gen_provider row) = Inr connector" and "reports connector i call (w_prov w)"
  shows "\<exists>h w'. run_state (check_observe service ctx g) w = (Inr h, w') \<and>
           settled_with (gc_retention service) row call h w'"
proof -
  note provider = prompt_Async [OF providers assms(10)]
  have "\<not> over ctx (w_clock w)" unfolding assms(2) by (simp add: fresh_timeout checkTimeout_def)
  then obtain since w1 where ask: "run_state (check_ask ctx connector g start i) w = ((Inr call, since), w1)"
    using ask_finished [OF assms(11,1)] by blast
  from prompt_provider.ask_alone [OF provider ask assms(1)]
  have w1: "alone w1" "w_db w1 = w_db w" "w_clock w1 \<le> w_clock w + 3 * readTimeout" by simp_all
  then have open1: "\<not> over ctx (w_clock w1)"
    unfolding assms(2) by (simp add: over_def with_timeout_def checkTimeout_def readTimeout_def)
  have verdict: "verdict_of g (Inr call) since = Settle call"
    using assms(11) by (simp add: verdict_of_def reports_def)
  have at1: "db_inv (w_db w1)" "find_row (w_db w1) (gen_id row) = Some row" "storable (w_db w1) row call"
    using assms(3,4,6) w1(2) by simp_all
  from settle_stored [OF w1(1) open1 at1(1,2) assms(5) at1(3) assms(7)] obtain h w' where
    settle: "run_state (check_settle service ctx g call) w1 = (Inr h, w')"
      "settled_with (gc_retention service) row call h w'" by blast
  have label: "g\<lparr>gen_cancel_requested_at := gen_cancel_requested_at (row\<lparr>gen_read_at := now\<rparr>)\<rparr> = g" for now
    by (simp add: assms(7))
  have read: "run_state (PgGenerationGet_Exec ctx (gen_id g) (gen_owner_id g)) w1 =
      (Inr (row\<lparr>gen_read_at := w_db_clock w1\<rparr>), w1)"
    by (rule get_alone [OF w1(1) open1 at1(1)]) (use at1(2) in \<open>simp_all add: assms(7)\<close>)
  have "run_state (observe_settle service ctx g start call since) w1 = (Inr h, w')"
    by (cases "call_state call = CallCancelled \<and> gen_cancel_requested_at g = None \<and> since = None")
       (simp_all only: observe_settle_def if_True if_False, simp_all add: read settle(1) label [simplified])
  moreover have "gen_start_requested_at g = Some start" "gen_provider_call_id g = Some i" "gen_provider g = gen_provider row"
    using assms(7-9) by simp_all
  ultimately show ?thesis using ask verdict settle(2) assms(10) by (simp add: check_observe_def)
qed

lemma exec_finished:
  assumes "alone w" and "db_inv (w_db w)"
    and "find_row (w_db w) (gen_id row) = Some row" and "live_status (gen_status row)"
    and "storable (w_db w) row call" and "gen_provider_call_id row = Some i"
    and "registry_Async (gc_registry service) (gen_provider row) = Inr connector" and "reports connector i call (w_prov w)"
  shows "\<exists>h w'. run_state (GenerationCheck_Exec service
             \<lparr>cr_generation = row\<lparr>gen_read_at := t\<rparr>, cr_start = None\<rparr>) w = (Inr h, w') \<and>
           settled_with (gc_retention service) row call h w'"
proof -
  have inv: "row_inv row" by (rule db_inv_row [OF assms(2,3)])
  with assms(6) obtain start where start: "gen_start_requested_at row = Some start" by (auto simp: row_inv_def)
  have "gen_settled_at row = None" using inv assms(4) by (simp add: row_inv_def)
  moreover obtain h w' where "run_state (check_observe service (with_timeout None (w_clock w) checkTimeout)
      (row\<lparr>gen_read_at := t\<rparr>)) w = (Inr h, w')" "settled_with (gc_retention service) row call h w'"
    using observe_finished [OF assms(1) refl assms(2-5) refl start assms(6-8)] by blast
  ultimately show ?thesis
    by (simp add: GenerationCheck_Exec_def time_Now_def Let_def check_transition_def assms(6))
qed

lemma get_finished:
  assumes "alone w" and "db_inv (w_db w)"
    and "find_row (w_db w) (gen_id row) = Some row" and "live_status (gen_status row)"
    and "storable (w_db w) row call" and "gen_provider_call_id row = Some i"
    and "registry_Async (gc_registry service) (gen_provider row) = Inr connector" and "reports connector i call (w_prov w)"
    and "gen_id row \<noteq> 0" and "gen_owner_id row \<noteq> 0"
  shows "\<exists>now w'. alone w' \<and>
           find_row (w_db w') (gen_id row) = Some (outcome_row (gc_retention service) now row call) \<and>
           run_state (GenerationGet_Exec service None
             \<lparr>ggr_id = gen_id row, ggr_owner_id = gen_owner_id row\<rparr>) w =
           (Inr (newGeneration (outcome_row (gc_retention service) now row call)
              (answer_rows (gen_id row) now (call_response call))), w')"
proof -
  have unsettled: "gen_settled_at row = None" using db_inv_row [OF assms(2,3)] assms(4) by (simp add: row_inv_def)
  have read: "run_state (PgGenerationGet_Exec None (gen_id row) (gen_owner_id row)) w =
      (Inr (row\<lparr>gen_read_at := w_db_clock w\<rparr>), w)"
    by (rule get_alone [OF assms(1) _ assms(2,3)]) (simp_all add: over_def)
  from exec_finished [OF assms(1-8)] obtain h w' where
    check: "run_state (GenerationCheck_Exec service
        \<lparr>cr_generation = row\<lparr>gen_read_at := w_db_clock w\<rparr>, cr_start = None\<rparr>) w = (Inr h, w')"
      "settled_with (gc_retention service) row call h w'" by blast
  then obtain now where left: "alone w'"
    "find_row (w_db w') (gen_id row) = Some (outcome_row (gc_retention service) now row call)"
    "h = (outcome_row (gc_retention service) now row call)\<lparr>gen_read_at := 0\<rparr>"
    "filter (\<lambda>a. att_generation_id a = gen_id row) (attempts (w_db w')) =
       answer_rows (gen_id row) now (call_response call)"
    by (auto simp: settled_with_def)
  have h: "gen_id h = gen_id row" "gen_settled_at h = Some now" unfolding left(3)
    by (simp_all add: outcome_row_def split: prod.split)
  have one: "take 100 (sort_key att_attempt (answer_rows (gen_id row) now response)) = answer_rows (gen_id row) now response"
    for response by (simp add: answer_rows_def split: option.split)
  have "run_state (with_attempts None h) w' =
      (Inr (newGeneration h (answer_rows (gen_id row) now (call_response call))), w')"
    using left(1) h by (simp add: with_attempts_def mayHaveAttempts_def PgGenerationAttemptList_Exec_def
        statement_alone over_def sql_attempt_list_def alone_def left(4) one Let_def)
  moreover have "newGeneration h as = newGeneration (outcome_row (gc_retention service) now row call) as" for as
    by (simp add: left(3) newGeneration_def)
  ultimately show ?thesis
    using read check(1) unsettled left(1,2) assms(9,10)
    by (auto simp: GenerationGet_Exec_def get_checked_def)
qed

end

section \<open>Properties\<close>

text \<open>C8: A poll answers what the provider answered: once the call of a generation is over, an undisturbed
  read by its owner asks the provider, settles the generation in the outcome the provider reported, and answers
  that outcome, with the provider's response as its only answer, when the tables take the response and its
  usage.\<close>

theorem finished_poll_returns_result:
  assumes "prompt_registry (gc_registry service)" and "answering_transactor (gc_transactor service)"
    and "w_sched w = []" and "w_tx w = None" and "db_inv (w_db w)"
    and "find_row (w_db w) i = Some row" and "live_status (gen_status row)" and "gen_provider_call_id row = Some c"
    and "registry_Async (gc_registry service) (gen_provider row) = Inr connector" and "reports connector c call (w_prov w)"
    and "call_fits (w_db w) call" and "i \<noteq> 0" and "gen_owner_id row \<noteq> 0"
  shows "\<exists>view w'. run_state (GenerationGet_Exec service None
             \<lparr>ggr_id = i, ggr_owner_id = gen_owner_id row\<rparr>) w = (Inr view, w') \<and>
           gv_id view = i \<and> (gv_status view, gv_error view) = settleOutcomeOf row call \<and>
           gv_settled_at view \<noteq> None \<and>
           map av_response (gv_attempts view) =
             (case call_response call of None \<Rightarrow> [] | Some bytes \<Rightarrow> [bytes])"
proof -
  have "undisturbed_check service" using assms(1,2) by (rule undisturbed_check.intro)
  moreover have "alone w" using assms(3,4) by (simp add: alone_def)
  moreover have "gen_id row = i" using find_row_in [OF assms(6)] by simp
  moreover have "storable (w_db w) row call"
    by (rule call_fits_storable [OF db_inv_row [OF assms(5,6)] assms(11)])
  ultimately obtain now w' where "run_state (GenerationGet_Exec service None
        \<lparr>ggr_id = i, ggr_owner_id = gen_owner_id row\<rparr>) w =
      (Inr (newGeneration (outcome_row (gc_retention service) now row call)
         (answer_rows i now (call_response call))), w')"
    using undisturbed_check.get_finished [of service w row call c connector] assms(5-10,12,13) by auto
  then show ?thesis
    using \<open>gen_id row = i\<close>
    by (auto simp: newGeneration_def outcome_row_def answer_rows_def split: prod.split option.split)
qed

lemma sample_async:
  "registry_Async (gc_registry sample_service) ''openai'' =
     Inr (canned_async (Inr (zero_call\<lparr>call_id := ''resp_1''\<rparr>)) (Inr sample_call) (Inr sample_call))"
  by (simp add: registry_Async_def modeOf_def sample_registry sample_mode)

theorem finished_poll_returns_result_witness:
  "\<exists>view w'. run_state (GenerationGet_Exec sample_service None \<lparr>ggr_id = 1, ggr_owner_id = 2\<rparr>)
     (sample_world sample_running_db) = (Inr view, w') \<and> gv_status view = Succeeded \<and>
     map av_response (gv_attempts view) = [''{}'']"
proof -
  have at: "w_sched (sample_world sample_running_db) = []" "w_tx (sample_world sample_running_db) = None"
    "w_db (sample_world sample_running_db) = sample_running_db"
    by (simp_all add: sample_world_def)
  have row: "find_row sample_running_db 1 = Some sample_running" "live_status (gen_status sample_running)"
    "gen_provider_call_id sample_running = Some ''resp_1''" "gen_provider sample_running = ''openai''"
    "gen_owner_id sample_running = 2"
    by (simp_all add: sample_running_db_def find_row_def sample_running_def new_row_def sample_request_def live_status_def)
  have async: "registry_Async (gc_registry sample_service) (gen_provider sample_running) =
      Inr (canned_async (Inr (zero_call\<lparr>call_id := ''resp_1''\<rparr>)) (Inr sample_call) (Inr sample_call))"
    by (simp add: row(4) sample_async)
  have over: "reports (canned_async (Inr (zero_call\<lparr>call_id := ''resp_1''\<rparr>)) (Inr sample_call) (Inr sample_call)
      :: (unit, generation) async) ''resp_1'' sample_call (w_prov (sample_world sample_running_db))"
    by (simp add: reports_def canned_async_def sample_call_def Terminal_def)
  have fits: "call_fits sample_running_db sample_call"
    by (simp add: call_fits_def sample_call_def sample_running_db_def sample_db_def)
  have "settleOutcomeOf sample_running sample_call = (Succeeded, None)" "call_response sample_call = Some ''{}''"
    by (simp_all add: settleOutcomeOf_def sample_call_def)
  with finished_poll_returns_result [OF sample_prompt sample_answering at(1,2), unfolded at(3),
      OF sample_running_inv row(1-3) async over fits] row(5)
  show ?thesis by auto
qed

end
