(* ===== verification/Answered.thy ===== *)
theory Answered
  imports Submit_Properties Poll
begin

text \<open>
  A request from its submit to its answer, when nothing disturbs it: a new request within its caps is recorded,
  its call goes out once, and once the call is over a poll answers what the provider answered.
\<close>

section \<open>The transaction of a submit\<close>

definition recorded_in :: "database \<Rightarrow> time \<Rightarrow> submit_request \<Rightarrow> database" where
  "recorded_in db now row = db\<lparr>generations := generations db @ [new_row now row]\<rparr>"

text \<open>A request no keyed row stands for, under a fresh identifier.\<close>

definition fresh_request :: "database \<Rightarrow> submit_request \<Rightarrow> bool" where
  "fresh_request db row \<longleftrightarrow>
     filter (\<lambda>g. keyed g \<and> gen_request_key g = sub_request_key row) (generations db) = [] \<and>
     sub_id row \<notin> gen_id ` set (generations db)"

lemma sql_submit_fresh:
  assumes "fresh_request db row" and "sub_purpose row \<noteq> []" and "sub_provider row \<noteq> []"
  shows "sql_submit now row db = (Inr (new_row now row), recorded_in db now row)"
proof -
  have "List.find (\<lambda>g. keyed g \<and> gen_request_key g = sub_request_key row) (generations db) = None"
    using assms(1) by (auto simp: fresh_request_def find_None_iff filter_empty_conv)
  moreover have "generation_row_check (new_row now row)"
    using assms(2,3) by (simp add: generation_row_check_def new_row_def live_status_def)
  ultimately show ?thesis
    using assms(1) by (simp add: sql_submit_def recorded_in_def fresh_request_def)
qed

text \<open>The caps leave room, and no window's sum passes the range of a \<open>bigint\<close>.\<close>

definition admits :: "time \<Rightarrow> generation_submission \<Rightarrow> database \<Rightarrow> bool" where
  "admits txn r db \<longleftrightarrow>
     within_caps txn r db \<and> list_all (\<lambda>win. totals_fit (usage_in txn r db win)) (caps_windows (submit_caps r))"

lemma admit_alone:
  assumes "w_sched w = []" and "w_tx w = Some txn" and "\<not> over ctx (w_clock w)" and "admits txn r (w_db w)"
  shows "run_state (submit_admit ctx r) w = (None, w)"
proof -
  have concurrency: "run_state (admit_concurrency ctx r) w = (None, w)"
    using assms
    by (auto simp: admit_concurrency_def PgGenerationCountLive_Exec_def statement_alone sql_count_live_def admits_def
        within_caps_def Let_def not_less split: option.split)
  let ?wins = "sort_key win_duration (caps_windows (submit_caps r))"
  let ?used = "map (usage_in txn r (w_db w)) ?wins"
  have fit: "\<forall>t \<in> set ?used. totals_fit t" using assms(4) by (simp add: admits_def list_all_iff)
  have sum: "run_state (PgGenerationUsageSum_Exec ctx (sb_owner_id r) (sb_purpose r) (map win_duration ?wins)) w =
      (Inr ?used, w)"
    using assms(1-3) fit
    by (simp add: PgGenerationUsageSum_Exec_def statement_alone sql_usage_sum_def usage_in_def [abs_def] comp_def Let_def)
  obtain answer w' where refuse: "run_state (refuse_windows (submit_scope r) ?wins ?used) w = (answer, w')" by fastforce
  have "window_open (?wins ! i) (?used ! i)" if "i < length ?wins" for i
    using assms(4) that nth_mem [OF that] by (simp add: admits_def within_caps_def)
  with refuse_windows_answer [OF refuse] have "answer = None \<and> w' = w"
    by (cases answer) (auto simp: windowRefusal_None [THEN iffD2])
  with sum refuse have "run_state (admit_windows ctx r) w = (None, w)"
    by (simp add: admit_windows_def Let_def)
  with concurrency show ?thesis by (simp add: submit_admit_def)
qed

lemma submit_body_alone:
  assumes "w_sched w = []" and "w_tx w = Some txn" and "\<not> over ctx (w_clock w)"
    and "fresh_request (w_db w) row" and "sub_purpose row \<noteq> []" and "sub_provider row \<noteq> []"
    and "admits txn r (recorded_in (w_db w) (w_db_clock w) row)"
  shows "run_state (submit_body ctx row r) w =
    ((None, (Some \<lparr>sres_generation = new_row (w_db_clock w) row, sres_created = True\<rparr>, None)),
     w\<lparr>w_db := recorded_in (w_db w) (w_db_clock w) row\<rparr>)"
proof -
  have "gen_id (new_row (w_db_clock w) row) = sub_id row" by (simp add: new_row_def)
  then have "run_state (PgGenerationSubmit_Exec ctx row) w =
      (Inr \<lparr>sres_generation = new_row (w_db_clock w) row, sres_created = True\<rparr>,
       w\<lparr>w_db := recorded_in (w_db w) (w_db_clock w) row\<rparr>)"
    using assms(1,3) by (simp add: PgGenerationSubmit_Exec_def statement_alone sql_submit_fresh [OF assms(4-6)] Let_def)
  moreover have "run_state (submit_admit ctx r) (w\<lparr>w_db := recorded_in (w_db w) (w_db_clock w) row\<rparr>) =
      (None, w\<lparr>w_db := recorded_in (w_db w) (w_db_clock w) row\<rparr>)"
    by (rule admit_alone) (use assms(1-3,7) in simp_all)
  ultimately show ?thesis by (simp add: submit_body_def)
qed

section \<open>The call of a submit\<close>

definition running :: "time \<Rightarrow> string \<Rightarrow> generation \<Rightarrow> generation" where
  "running now c g = g\<lparr>gen_provider_call_id := Some c, gen_status := Running, gen_updated_at := now\<rparr>"

lemma record_accepted:
  assumes "db_inv db" and "find_row db i = Some row" and "gen_status row = Pending"
    and "gen_start_requested_at row \<noteq> None" and "c \<noteq> []"
  shows "sql_record now i c db = (Inr ((running now c row)\<lparr>gen_read_at := now\<rparr>), put_row (running now c row) db)"
  unfolding sql_record_def running_def
  by (rule update_accepted [OF assms(1,2)])
     (use db_inv_row [OF assms(1,2)] find_row_in [OF assms(2)] assms(3-5) in
       \<open>auto simp: row_inv_def generation_row_check_def live_status_def\<close>)

lemma recordCall_alone:
  assumes "alone w" and "\<not> over ctx (w_clock w)" and "db_inv (w_db w)"
    and "find_row (w_db w) (gen_id g) = Some row" and "gen_status row = Pending"
    and "gen_start_requested_at row \<noteq> None" and "c \<noteq> []"
  shows "run_state (check_recordCall ctx connector g intentAt c) w =
    (Inr ((running (w_db_clock w) c row)\<lparr>gen_read_at := w_db_clock w\<rparr>),
     w\<lparr>w_db := put_row (running (w_db_clock w) c row) (w_db w)\<rparr>)"
proof -
  have fresh: "\<not> over (with_timeout ctx (w_clock w) persistenceTimeout) (w_clock w)"
    using assms(2) by (auto simp: over_def with_timeout_def persistenceTimeout_def split: option.splits)
  have "run_state (record_write ctx (gen_id g) c) w =
      (Inr ((running (w_db_clock w) c row)\<lparr>gen_read_at := w_db_clock w\<rparr>),
       w\<lparr>w_db := put_row (running (w_db_clock w) c row) (w_db w)\<rparr>)"
    by (simp add: record_write_def time_Now_def PgGenerationRecordProviderCall_Exec_def fresh
        statement_alone [OF aloneD(1) [OF assms(1)]] record_accepted [OF assms(3-7)] Let_def)
  then show ?thesis by (simp add: check_recordCall_def)
qed

text \<open>
  In its state, the provider accepts the start of a payload before its context ends: it names the call to
  \<open>Accepted\<close>, or answers it.
\<close>

definition accepts :: "('p, generation) async \<Rightarrow> raw \<Rightarrow> bool \<Rightarrow> string \<Rightarrow> 'p \<Rightarrow> bool" where
  "accepts connector payload stream c p \<longleftrightarrow>
     (\<forall>t accepted w outcome recorded w'.
        alone w \<and> w_prov w = p \<and> w_clock w < t \<and>
        run_state (as_start connector (Some t) payload stream accepted) w = ((outcome, recorded), w') \<longrightarrow>
        (\<exists>call v. call_id call = c \<and> alone v \<and> w_db v = w_db w \<and> w_clock v \<le> t \<and>
           (outcome = Inr call \<and> recorded = None \<and> w' = v \<or>
            (\<exists>answer v'. run_state (accepted call) v = (answer, v') \<and> recorded = Some answer \<and>
               (alone v' \<longrightarrow> alone w' \<and> w_db w' = w_db v')))))"

lemma acceptsD:
  assumes "accepts connector payload stream c (w_prov w)" and "alone w" and "w_clock w < t"
    and "run_state (as_start connector (Some t) payload stream accepted) w = ((outcome, recorded), w')"
  obtains (answered) call where "call_id call = c" and "alone w'" and "w_db w' = w_db w" and "w_clock w' \<le> t"
      and "outcome = Inr call" and "recorded = None"
  | (handed) call v answer v' where "call_id call = c" and "alone v" and "w_db v = w_db w" and "w_clock v \<le> t"
      and "run_state (accepted call) v = (answer, v')" and "recorded = Some answer"
      and "alone v' \<Longrightarrow> alone w' \<and> w_db w' = w_db v'"
proof -
  from assms have "\<exists>call v. call_id call = c \<and> alone v \<and> w_db v = w_db w \<and> w_clock v \<le> t \<and>
      (outcome = Inr call \<and> recorded = None \<and> w' = v \<or>
       (\<exists>answer v'. run_state (accepted call) v = (answer, v') \<and> recorded = Some answer \<and>
          (alone v' \<longrightarrow> alone w' \<and> w_db w' = w_db v')))"
    unfolding accepts_def by blast
  then show thesis using answered handed by blast
qed

text \<open>The Responses API accepts a start, and reports a call, as its transport answers them.\<close>

context deadline_transport
begin

lemma OpenAI_accepts:
  assumes "asyncEnvelope client payload False = Inr body"
    and "\<And>ctx w. alone w \<Longrightarrow> w_prov w = p \<Longrightarrow>
      started_call client (fst (run_state (oa_send client ctx (post_request responsesPath (Some body))) w)) = Inr call"
  shows "accepts (OpenAI_async client) payload False (call_id call) p"
  unfolding accepts_def
proof (intro allI impI, elim conjE)
  fix t and accepted :: "call \<Rightarrow> ('p, goerr + generation) process" and w outcome recorded w'
  assume w: "alone w" "w_prov w = p" "w_clock w < t"
    and run: "run_state (as_start (OpenAI_async client) (Some t) payload False accepted) w = ((outcome, recorded), w')"
  let ?send = "oa_send client (Some t) (post_request responsesPath (Some body))"
  obtain answer where sent: "run_state ?send w = (answer, w')"
    and ends: "outcome = started_call client answer" "recorded = None"
    using run assms(1) by (auto simp: OpenAI_async_def OpenAI_Start_def split: prod.splits)
  have "outside w w'" using send_outside sent by (rule state_io_relD)
  moreover have "w_clock w' \<le> t" using send_ends [OF w(1) sent] w(3) by simp
  moreover have "outcome = Inr call" using ends(1) assms(2) [OF w(1,2), of "Some t"] sent by simp
  ultimately show "\<exists>c v. call_id c = call_id call \<and> alone v \<and> w_db v = w_db w \<and> w_clock v \<le> t \<and>
      (outcome = Inr c \<and> recorded = None \<and> w' = v \<or>
       (\<exists>answer v'. run_state (accepted c) v = (answer, v') \<and> recorded = Some answer \<and>
          (alone v' \<longrightarrow> alone w' \<and> w_db w' = w_db v')))"
    using ends(2) w(1)
    by (intro exI [of _ call] exI [of _ w']) (auto simp: outside_def untouched_def world_run_def alone_def)
qed

lemma OpenAI_reports:
  assumes "Terminal (call_state call)"
    and "\<And>ctx w rq. alone w \<Longrightarrow> w_prov w = p \<Longrightarrow> \<not> over ctx (w_clock w) \<Longrightarrow>
      rq = get_request (callPath i) [] \<or> rq = post_request (callPath i @ ''/cancel'') None \<Longrightarrow>
      \<exists>body. fst (run_state (send_read client ctx rq) w) = Inr body \<and> providerCallOf client body = Inr call"
  shows "reports (OpenAI_async client) i call p"
  unfolding reports_def
proof (intro conjI allI impI)
  show "Terminal (call_state call)" by (rule assms(1))
next
  fix ctx and w :: "'p world"
  assume w: "alone w \<and> w_prov w = p \<and> \<not> over ctx (w_clock w)"
  from assms(2) [of w ctx "get_request (callPath i) []"] w obtain body w1 where
    "run_state (send_read client ctx (get_request (callPath i) [])) w = (Inr body, w1)" "providerCallOf client body = Inr call"
    by (metis prod.collapse)
  then show "fst (run_state (as_get (OpenAI_async client) ctx i) w) = Inr call"
    by (simp add: OpenAI_async_def OpenAI_Get_def read_call_def)
  from assms(2) [of w ctx "post_request (callPath i @ ''/cancel'') None"] w obtain body w1 where
    "run_state (send_read client ctx (post_request (callPath i @ ''/cancel'') None)) w = (Inr body, w1)"
    "providerCallOf client body = Inr call"
    by (metis prod.collapse)
  then show "fst (run_state (as_cancel (OpenAI_async client) ctx i) w) = Inr call"
    by (simp add: OpenAI_async_def OpenAI_Cancel_def read_call_def)
qed

end

context undisturbed_check
begin

lemma start_alone:
  assumes "alone w" and "ctx = with_timeout None (w_clock w) startCheckTimeout" and "db_inv (w_db w)"
    and "find_row (w_db w) (gen_id g) = Some g" and "gen_status g = Pending"
    and "gen_start_requested_at g \<noteq> None" and "gen_cancel_requested_at g = None"
    and "registry_Async (gc_registry service) (gen_provider g) = Inr connector"
    and "accepts connector (cs_payload start) (gen_streamed g) c (w_prov w)" and "c \<noteq> []" and "w_clock w - cs_intent_at start < startTimeout"
  shows "\<exists>now w'. run_state (check_start service ctx g start) w =
             (Inr ((running now c g)\<lparr>gen_read_at := now\<rparr>), w') \<and>
           alone w' \<and> w_db w' = put_row (running now c g) (w_db w) \<and>
           filter is_start (w_trace w') =
             filter is_start (w_trace w) @ [ActStart (cs_payload start) (gen_streamed g)]"
proof -
  have provider: "async_provider connector" by (rule prompt_provider.axioms(1) [OF prompt_Async [OF providers assms(8)]])
  let ?ctx = "with_timeout ctx (w_clock w) (if gen_streamed g then streamStartTimeout else startTimeout)"
  let ?recording = "\<lambda>call. check_recordCall ctx connector g (cs_intent_at start) (call_id call)"
  obtain outcome recorded w1 where
    started: "run_state (connector_Start connector ?ctx (cs_payload start) (gen_streamed g) ?recording) w =
        ((outcome, recorded), w1)" by (metis prod.exhaust)
  have trace: "filter is_start (w_trace w1) =
      filter is_start (w_trace w) @ [ActStart (cs_payload start) (gen_streamed g)]"
    by (rule async_provider.Start_once [OF provider _ started]) (intro quiet_calls.recordCall provider)
  let ?w = "w\<lparr>w_trace := w_trace w @ [ActStart (cs_payload start) (gen_streamed g)]\<rparr>"
  have sent: "run_state (as_start connector ?ctx (cs_payload start) (gen_streamed g) ?recording) ?w = ((outcome, recorded), w1)"
    using started by (simp add: connector_Start_def act_def)
  obtain t where t: "?ctx = Some t" "w_clock w < t" "t \<le> w_clock w + streamStartTimeout"
    by (simp add: assms(2) with_timeout_def check_constants)
  have at: "accepts connector (cs_payload start) (gen_streamed g) c (w_prov ?w)" "alone ?w" "w_clock ?w < t"
    using assms(1,9) t(2) by (simp_all add: alone_def)
  have recording: "run_state (?recording call) v =
      (Inr ((running (w_db_clock v) c g)\<lparr>gen_read_at := w_db_clock v\<rparr>),
       v\<lparr>w_db := put_row (running (w_db_clock v) c g) (w_db v)\<rparr>)"
    if "call_id call = c" "alone v" "w_db v = w_db w" "w_clock v \<le> w_clock w + streamStartTimeout" for call v
  proof -
    have "\<not> over ctx (w_clock v)"
      using that(4) by (simp add: assms(2) over_def with_timeout_def check_constants)
    from recordCall_alone [OF that(2) this] show ?thesis using assms(3-6,10) that(1,3) by simp
  qed
  have run: "run_state (check_start service ctx g start) w =
      run_state (case recorded of
              Some (Inl recordErr) \<Rightarrow>
                State_Monad.return (Inl (Wrap ''record provider call'' recordErr))
            | Some (Inr g) \<Rightarrow> check_recorded service ctx g
            | None \<Rightarrow>
                (case outcome of
                   Inl err \<Rightarrow> check_failStart service ctx g err
                 | Inr call \<Rightarrow> do {
                     res \<leftarrow> ?recording call;
                     case res of
                       Inl err \<Rightarrow> State_Monad.return (Inl (Wrap ''record provider call'' err))
                     | Inr g \<Rightarrow> check_recorded service ctx g
                   })) w1"
    using started assms(8,11) by (simp add: check_start_def time_Now_def Let_def)
  from at sent [unfolded t(1)] show ?thesis
  proof (cases rule: acceptsD)
    case (answered call)
    with recording [of call w1] t(3) run trace assms(7) show ?thesis
      by (auto simp: check_recorded_def running_def alone_def)
  next
    case (handed call v answer v')
    from handed(3,4) have v: "w_db v = w_db w" "w_clock v \<le> w_clock w + streamStartTimeout"
      using t(3) by simp_all
    note r = recording [OF handed(1,2) v]
    with handed(5) have answer: "answer = Inr ((running (w_db_clock v) c g)\<lparr>gen_read_at := w_db_clock v\<rparr>)"
      "v' = v\<lparr>w_db := put_row (running (w_db_clock v) c g) (w_db v)\<rparr>" by simp_all
    with handed(2,7) v(1) have "alone w1" "w_db w1 = put_row (running (w_db_clock v) c g) (w_db w)"
      by (simp_all add: alone_def)
    with run handed(6) answer(1) trace assms(7) show ?thesis
      by (auto simp: check_recorded_def running_def)
  qed
qed

lemma exec_start_alone:
  assumes "alone w" and "db_inv (w_db w)"
    and "find_row (w_db w) (gen_id g) = Some g" and "gen_status g = Pending"
    and "gen_start_requested_at g \<noteq> None" and "gen_cancel_requested_at g = None"
    and "registry_Async (gc_registry service) (gen_provider g) = Inr connector"
    and "accepts connector (cs_payload start) (gen_streamed g) c (w_prov w)" and "c \<noteq> []" and "w_clock w - cs_intent_at start < startTimeout"
  shows "\<exists>now w'. run_state (GenerationCheck_Exec service \<lparr>cr_generation = g, cr_start = Some start\<rparr>) w =
             (Inr ((running now c g)\<lparr>gen_read_at := now\<rparr>), w') \<and>
           alone w' \<and> w_db w' = put_row (running now c g) (w_db w) \<and>
           filter is_start (w_trace w') =
             filter is_start (w_trace w) @ [ActStart (cs_payload start) (gen_streamed g)]"
proof -
  have "row_inv g" by (rule db_inv_row [OF assms(2,3)])
  with assms(4) have fresh: "gen_settled_at g = None" "gen_provider_call_id g = None"
    by (auto simp: row_inv_def generation_row_check_def live_status_def)
  from start_alone [OF assms(1) refl assms(2-10)] obtain now w' where
    "run_state (check_start service (with_timeout None (w_clock w) startCheckTimeout) g start) w =
       (Inr ((running now c g)\<lparr>gen_read_at := now\<rparr>), w')"
    "alone w' \<and> w_db w' = put_row (running now c g) (w_db w) \<and>
     filter is_start (w_trace w') = filter is_start (w_trace w) @ [ActStart (cs_payload start) (gen_streamed g)]"
    by blast
  moreover obtain t where "gen_start_requested_at g = Some t" using assms(5) by blast
  ultimately show ?thesis
    using fresh by (auto simp: GenerationCheck_Exec_def check_transition_def time_Now_def Let_def)
qed

end

section \<open>A submit\<close>

text \<open>A transactor whose own part of a transaction is within the time the service gives a write.\<close>

locale punctual_transactor = answering_transactor tx for tx :: "('p, 'a) transactor" +
  assumes in_time: "alone w \<Longrightarrow> run_state (tx ctx body) w = (r, w') \<Longrightarrow>
      w_clock w' \<le> w_clock (snd (run_state body (begun w))) + persistenceTimeout"

lemma pg_in_time:
  assumes "alone w" and "run_state (pg_transactor ctx body) w = (r, w')"
  shows "w_clock w' \<le> w_clock (snd (run_state body (begun w))) + persistenceTimeout"
  using assms
  by (auto simp: pg_transactor_def next_slot_alone alone_def quiet_slot_def rolled_back_def persistenceTimeout_def
      split: prod.splits option.splits)

interpretation punctual_pg: punctual_transactor pg_transactor
  by unfold_locales (rule pg_in_time)

locale undisturbed_submit =
  fixes service :: "'p generation_submit"
  assumes checks: "undisturbed_check (gs_check service)"
    and recorder: "punctual_transactor (gs_transactor service)"

lemma find_snoc: "x \<notin> f ` set xs \<Longrightarrow> f y = x \<Longrightarrow> List.find (\<lambda>a. f a = x) (xs @ [y]) = Some y"
  by (induction xs) auto

lemma find_row_recorded:
  "sub_id row \<notin> gen_id ` set (generations db) \<Longrightarrow> find_row (recorded_in db now row) (sub_id row) = Some (new_row now row)"
  by (simp add: find_row_def recorded_in_def find_snoc new_row_def)

sublocale undisturbed_submit < submit_service service
proof (rule submit_service.intro)
  show "check_service (gs_check service)"
    using checks by (intro check_service.intro prompt_lawful answering_transactor.axioms(1)) (auto simp: undisturbed_check_def)
  show "transactor (gs_transactor service)"
    by (rule answering_transactor.axioms(1) [OF punctual_transactor.axioms(1) [OF recorder]])
qed

context undisturbed_submit
begin

text \<open>The transaction records the request, and leaves its call time to go out.\<close>

lemma submit_recorded:
  assumes "alone w" and "db_inv (w_db w)" and "fresh_request (w_db w) row"
    and "sub_purpose row \<noteq> []" and "sub_provider row \<noteq> []"
    and "admits (w_db_clock w) r (recorded_in (w_db w) (w_db_clock w) row)" and "row = submit_row i tp r key"
  shows "\<exists>w'. run_state (gs_transactor service None (submit_body None row r)) w =
           ((None, Some (Some \<lparr>sres_generation = new_row (w_db_clock w) row, sres_created = True\<rparr>, None)), w') \<and>
         alone w' \<and> w_db w' = recorded_in (w_db w) (w_db_clock w) row \<and> db_inv (w_db w') \<and>
         w_prov w' = w_prov w \<and> w_clock w' \<le> w_clock w + persistenceTimeout \<and>
         filter is_start (w_trace w') = filter is_start (w_trace w)"
proof -
  note begun = begun_alone [OF aloneD(1) [OF assms(1)]]
  let ?result = "(Some \<lparr>sres_generation = new_row (w_db_clock w) row, sres_created = True\<rparr>, None)"
  let ?w = "(begun w)\<lparr>w_db := recorded_in (w_db w) (w_db_clock w) row\<rparr>"
  have body: "run_state (submit_body None row r) (begun w) = ((None, ?result), ?w)"
    using submit_body_alone [of "begun w" "w_db_clock w" None row r] assms(1,3-6)
    by (simp add: begun alone_def over_def)
  obtain res w' where tx: "run_state (gs_transactor service None (submit_body None row r)) w = (res, w')" by fastforce
  have "\<not> over None (w_clock w)" by (simp add: over_def)
  from answering_transactor.committed_alone [OF punctual_transactor.axioms(1) [OF recorder] assms(1) this body tx]
  obtain d where res: "res = (None, Some ?result)" and w': "w' = elapse d (?w\<lparr>w_tx := None\<rparr>)" by blast
  have "w_clock w' \<le> w_clock w + persistenceTimeout"
    using punctual_transactor.in_time [OF recorder assms(1) tx] by (simp add: body) (simp add: begun)
  moreover have "top_quiet w w'" using record_calm tx unfolding assms(7) by (blast dest: state_io_relD)
  then have "db_inv (w_db w')"
    using world_run_inv [of w w'] aloneD(2) [OF assms(1)] assms(2) by (simp add: top_quiet_def)
  ultimately show ?thesis
    using tx res w' assms(1) by (simp add: alone_def elapse_def begun)
qed

text \<open>A new request within its caps is recorded, and its call goes out once and runs.\<close>

lemma submit_alone:
  assumes "alone w" and "db_inv (w_db w)"
    and "submit_validateRequest service r = None" and "submit_key service r = Inr key"
    and "row = submit_row i tp r key" and "fresh_request (w_db w) row"
    and "admits (w_db_clock w) r (recorded_in (w_db w) (w_db_clock w) row)"
    and "registry_Async (gc_registry (gs_check service)) (sb_provider r) = Inr connector"
    and "accepts connector (sb_payload r) (sb_stream r) c (w_prov w)" and "c \<noteq> []"
  shows "\<exists>now w'. run_state (GenerationSubmit_Exec service i tp None r) w =
             (Inr \<lparr>sd_generation = newGeneration (running now c (new_row (w_db_clock w) row)) [], sd_created = True\<rparr>, w') \<and>
           alone w' \<and> db_inv (w_db w') \<and> json_ok (w_db w') = json_ok (w_db w) \<and>
           find_row (w_db w') i = Some (running now c (new_row (w_db_clock w) row)) \<and>
           filter is_start (w_trace w') = filter is_start (w_trace w) @ [ActStart (sb_payload r) (sb_stream r)]"
proof -
  have valid: "sub_purpose row \<noteq> []" "sub_provider row \<noteq> []" "sub_id row = i"
    using assms(3) by (auto simp: assms(5) submit_row_def submit_validateRequest_def submission_valid_def split: if_splits)
  let ?g = "new_row (w_db_clock w) row"
  have g: "gen_id ?g = i" "gen_status ?g = Pending" "gen_start_requested_at ?g \<noteq> None" "gen_cancel_requested_at ?g = None"
    "gen_provider ?g = sb_provider r" "gen_streamed ?g = sb_stream r"
    by (simp_all add: new_row_def assms(5) submit_row_def)
  from submit_recorded [OF assms(1,2,6) valid(1,2) assms(7,5)] obtain w1 where
    tx: "run_state (gs_transactor service None (submit_body None row r)) w =
           ((None, Some (Some \<lparr>sres_generation = ?g, sres_created = True\<rparr>, None)), w1)"
    and w1: "alone w1" "w_db w1 = recorded_in (w_db w) (w_db_clock w) row" "db_inv (w_db w1)" "w_prov w1 = w_prov w"
      "w_clock w1 \<le> w_clock w + persistenceTimeout" "filter is_start (w_trace w1) = filter is_start (w_trace w)"
    by blast
  have row1: "find_row (w_db w1) (gen_id ?g) = Some ?g"
    using find_row_recorded [of row "w_db w"] assms(6) valid(3) g(1) by (simp add: w1(2) fresh_request_def)
  let ?start = "\<lparr>cs_payload = sb_payload r, cs_intent_at = w_clock w\<rparr>"
  have early: "w_clock w1 - cs_intent_at ?start < startTimeout"
    using w1(5) by (simp add: persistenceTimeout_def startTimeout_def)
  from undisturbed_check.exec_start_alone [OF checks w1(1,3) row1 g(2-4), where connector = connector and c = c and start = ?start]
    assms(8-10) g(5,6) w1(4) early
  obtain now w2 where sent: "run_state (GenerationCheck_Exec (gs_check service)
        \<lparr>cr_generation = ?g, cr_start = Some ?start\<rparr>) w1 = (Inr ((running now c ?g)\<lparr>gen_read_at := now\<rparr>), w2)"
    and w2: "alone w2" "w_db w2 = put_row (running now c ?g) (w_db w1)"
      "filter is_start (w_trace w2) = filter is_start (w_trace w) @ [ActStart (sb_payload r) (sb_stream r)]"
    using w1(6) by auto
  have unsettled: "gen_settled_at (running now c ?g) = None" by (simp add: running_def new_row_def)
  have "run_state (GenerationSubmit_Exec service i tp None r) w =
      (Inr \<lparr>sd_generation = newGeneration (running now c ?g) [], sd_created = True\<rparr>, w2)"
    using assms(3,4) tx sent unsettled
    by (simp add: GenerationSubmit_Exec_def time_Now_def assms(5) [symmetric] submit_send_def with_attempts_def
        mayHaveAttempts_def newGeneration_def)
  moreover have "db_inv (w_db w2)"
    using state_io_relD [OF check_service.check_moves [OF check] sent] world_run_inv [of w1 w2] w1(1,3)
    by (simp add: top_run_def alone_def)
  moreover have "find_row (w_db w2) i = Some (running now c ?g)"
    using row1 g(1) by (simp add: w2(2) find_row_put_row running_def)
  moreover have "json_ok (w_db w2) = json_ok (w_db w)" by (simp add: w2(2) w1(2) put_row_def recorded_in_def)
  ultimately show ?thesis using w2 by blast
qed

end

lemma sample_submit_undisturbed: "undisturbed_submit sample_submit"
  using undisturbed_check.intro [OF sample_prompt sample_answering] punctual_pg.punctual_transactor_axioms
  by (intro undisturbed_submit.intro) (simp_all add: sample_submit_def)

interpretation sample_submit_alone: undisturbed_submit sample_submit
  by (rule sample_submit_undisturbed)

section \<open>Properties\<close>

text \<open>C2: What is asked is answered: with nothing else about, a new valid request within its caps is recorded
  and answered as running, its payload goes out once, and once the provider says that its call is over, the
  next read by its owner answers the provider's response, succeeded when the call succeeded and failed
  otherwise, whatever happened to other generations in between.\<close>

theorem submitted_request_is_answered:
  assumes "prompt_registry (gc_registry (gs_check service))" and "answering_transactor (gc_transactor (gs_check service))"
    and "punctual_transactor (gs_transactor service)"
    and "w_sched w = []" and "w_tx w = None" and "db_inv (w_db w)" and "i \<noteq> 0"
    and "submit_validateRequest service r = None" and "submit_key service r = Inr key"
    and "fresh_request (w_db w) (submit_row i tp r key)"
    and "admits (w_db_clock w) r (recorded_in (w_db w) (w_db_clock w) (submit_row i tp r key))"
    and "registry_Async (gc_registry (gs_check service)) (sb_provider r) = Inr connector"
    and "accepts connector (sb_payload r) (sb_stream r) c (w_prov w)" and "c \<noteq> []"
  shows "\<exists>sd w1. run_state (GenerationSubmit_Exec service i tp None r) w = (Inr sd, w1) \<and> w_sched w1 = [] \<and>
           w_tx w1 = None \<and> db_inv (w_db w1) \<and> json_ok (w_db w1) = json_ok (w_db w) \<and> sd_created sd \<and> gv_id (sd_generation sd) = i \<and>
           gv_status (sd_generation sd) = Running \<and>
           filter is_start (w_trace w1) = filter is_start (w_trace w) @ [ActStart (sb_payload r) (sb_stream r)] \<and>
           (\<forall>w2 call. w_sched w2 = [] \<and> w_tx w2 = None \<and> db_inv (w_db w2) \<and>
              find_row (w_db w2) i = find_row (w_db w1) i \<and>
              reports connector c call (w_prov w2) \<and> call_fits (w_db w2) call \<longrightarrow>
              (\<exists>view w3. run_state (GenerationGet_Exec (gs_check service) None
                   \<lparr>ggr_id = i, ggr_owner_id = sb_owner_id r\<rparr>) w2 = (Inr view, w3) \<and>
                 gv_status view = (if call_state call = CallSucceeded then Succeeded else Failed) \<and>
                 map av_response (gv_attempts view) =
                   (case call_response call of None \<Rightarrow> [] | Some bytes \<Rightarrow> [bytes])))"
proof -
  have checks: "undisturbed_check (gs_check service)" using assms(1,2) by (rule undisturbed_check.intro)
  have service: "undisturbed_submit service" by (rule undisturbed_submit.intro [OF checks assms(3)])
  have "alone w" using assms(4,5) by (simp add: alone_def)
  from undisturbed_submit.submit_alone [OF service this assms(6,8,9) refl assms(10-14)] obtain now w1 where
    sent: "run_state (GenerationSubmit_Exec service i tp None r) w =
      (Inr \<lparr>sd_generation = newGeneration (running now c (new_row (w_db_clock w) (submit_row i tp r key))) [],
            sd_created = True\<rparr>, w1)"
    and w1: "alone w1" "db_inv (w_db w1)" "json_ok (w_db w1) = json_ok (w_db w)"
      "find_row (w_db w1) i = Some (running now c (new_row (w_db_clock w) (submit_row i tp r key)))"
      "filter is_start (w_trace w1) = filter is_start (w_trace w) @ [ActStart (sb_payload r) (sb_stream r)]"
    by blast
  let ?g = "running now c (new_row (w_db_clock w) (submit_row i tp r key))"
  have owner: "sb_owner_id r \<noteq> 0"
    using assms(8) by (auto simp: submit_validateRequest_def submission_valid_def split: if_splits)
  have g: "gen_id ?g = i" "gen_owner_id ?g = sb_owner_id r" "gen_status ?g = Running" "gen_provider_call_id ?g = Some c"
    "gen_provider ?g = sb_provider r" "gen_cancel_requested_at ?g = None"
    by (simp_all add: running_def new_row_def submit_row_def)
  have outcome: "fst (settleOutcomeOf ?g call) = (if call_state call = CallSucceeded then Succeeded else Failed)" for call
    by (cases "call_state call") (simp_all add: settleOutcomeOf_def g(6))
  have "\<exists>view w3. run_state (GenerationGet_Exec (gs_check service) None
          \<lparr>ggr_id = i, ggr_owner_id = sb_owner_id r\<rparr>) w2 = (Inr view, w3) \<and>
        gv_status view = (if call_state call = CallSucceeded then Succeeded else Failed) \<and>
        map av_response (gv_attempts view) = (case call_response call of None \<Rightarrow> [] | Some bytes \<Rightarrow> [bytes])"
    if w2: "w_sched w2 = []" "w_tx w2 = None" "db_inv (w_db w2)" "find_row (w_db w2) i = find_row (w_db w1) i"
      "reports connector c call (w_prov w2)" "call_fits (w_db w2) call" for w2 call
  proof -
    have "alone w2" using w2(1,2) by (simp add: alone_def)
    moreover have row: "find_row (w_db w2) (gen_id ?g) = Some ?g" using w2(4) w1(4) g(1) by simp
    moreover have "storable (w_db w2) ?g call" by (rule call_fits_storable [OF db_inv_row [OF w2(3) row] w2(6)])
    ultimately obtain t w3 where "run_state (GenerationGet_Exec (gs_check service) None
          \<lparr>ggr_id = i, ggr_owner_id = sb_owner_id r\<rparr>) w2 =
        (Inr (newGeneration (outcome_row (gc_retention (gs_check service)) t ?g call)
           (answer_rows i t (call_response call))), w3)"
      using undisturbed_check.get_finished [OF checks, of w2 ?g call c connector] w2(3,5) g owner assms(7,12)
      by (auto simp: live_status_def)
    moreover have "gen_status (outcome_row retention t ?g call) = fst (settleOutcomeOf ?g call)" for retention
      by (simp add: outcome_row_def split: prod.split)
    ultimately show ?thesis
      by (auto simp: newGeneration_def outcome answer_rows_def split: option.split)
  qed
  with sent w1(1-3,5) g show ?thesis by (auto simp: alone_def)
qed

theorem submitted_request_is_answered_witness:
  "\<exists>sd w1 view w3. sample_submit_run (sample_world sample_db) = (Inr sd, w1) \<and>
     run_state (GenerationGet_Exec sample_service None \<lparr>ggr_id = 5, ggr_owner_id = 2\<rparr>) w1 = (Inr view, w3) \<and>
     gv_status view = Succeeded \<and> map av_response (gv_attempts view) = [''{}'']"
proof -
  let ?w = "sample_world sample_db" and ?r = sample_submission
  let ?connector = "canned_async (Inr (zero_call\<lparr>call_id := ''resp_1''\<rparr>)) (Inr sample_call) (Inr sample_call)
    :: (unit, generation) async"
  have parts: "gs_check sample_submit = sample_service" "gs_transactor sample_submit = pg_transactor"
    by (simp_all add: sample_submit_def)
  have at: "w_sched ?w = []" "w_tx ?w = None" "w_db ?w = sample_db" "w_db_clock ?w = 20" by (simp_all add: sample_world_def)
  have fresh: "fresh_request sample_db (submit_row 5 None ?r [121])"
    by (simp add: fresh_request_def sample_db_def new_row_def sample_request_def submit_row_def)
  have admits: "admits 20 ?r (recorded_in sample_db 20 (submit_row 5 None ?r [121]))"
    by (simp add: admits_def within_caps_def usage_in_def window_totals_def window_records_def window_open_def reached_def
        totals_fit_def max_bigint_def count_live_def recorded_in_def sample_db_def new_row_def submit_row_def
        sample_request_def sample_submission_def sample_asking_def submit_caps_def live_status_def)
  have accepts: "accepts ?connector (sb_payload ?r) (sb_stream ?r) ''resp_1'' (w_prov ?w)"
    by (auto simp: accepts_def canned_async_def)
  have async: "registry_Async (gc_registry sample_service) (sb_provider ?r) = Inr ?connector"
    by (simp add: sample_async sample_submission_def sample_asking_def)
  note asked = submitted_request_is_answered [of sample_submit ?w 5 ?r "[121]" None ?connector "''resp_1''",
      unfolded parts at, OF sample_prompt sample_answering punctual_pg.punctual_transactor_axioms refl refl sample_db_inv _
        sample_validated(1) sample_key(1) fresh admits async accepts]
  have over: "reports ?connector ''resp_1'' sample_call p" for p
    by (simp add: reports_def canned_async_def sample_call_def Terminal_def)
  have fits: "call_fits db sample_call" if "json_ok db = (\<lambda>_. True)" for db
    by (simp add: call_fits_def that sample_call_def)
  from asked obtain sd w1 where sent: "sample_submit_run ?w = (Inr sd, w1)" "w_sched w1 = []" "w_tx w1 = None" "db_inv (w_db w1)"
      "json_ok (w_db w1) = json_ok sample_db"
    and polled: "\<And>call. reports ?connector ''resp_1'' call (w_prov w1) \<Longrightarrow> call_fits (w_db w1) call \<Longrightarrow>
      \<exists>view w3. run_state (GenerationGet_Exec sample_service None \<lparr>ggr_id = 5, ggr_owner_id = sb_owner_id ?r\<rparr>) w1 =
          (Inr view, w3) \<and> gv_status view = (if call_state call = CallSucceeded then Succeeded else Failed) \<and>
        map av_response (gv_attempts view) = (case call_response call of None \<Rightarrow> [] | Some bytes \<Rightarrow> [bytes])"
    by auto
  have "call_fits (w_db w1) sample_call" by (rule fits) (simp add: sent(5) sample_db_def)
  from polled [OF over this] sent(1) show ?thesis
    by (auto simp: sample_call_def sample_submission_def sample_asking_def)
qed

end
