(* ===== verification/Shutdown.thy ===== *)
theory Shutdown
  imports Errors
begin

text \<open>
  How the two servers end: the run section of \<^verbatim>\<open>cmd/grpc/main.go\<close> and \<^verbatim>\<open>cmd/sweep/main.go\<close>, with their
  goroutines interleaved freely. A step is one communication: a signal, a listener or the ticker that returns,
  a send or a receive on the channel, and what each goroutine does next.

  A listener of the library returns for a reason of its own, or because its context ended. What it may return
  is an argument, \<open>ends\<close>, of whether the context has ended.
\<close>

section \<open>Listeners\<close>

text \<open>
  What the servers rely on: a listener whose context has ended returns, and one that returns before then
  failed.
\<close>

locale listener =
  fixes ends :: "bool \<Rightarrow> goerr option \<Rightarrow> bool"
  assumes stops: "\<exists>e. ends True e"
    and fails: "ends False e \<Longrightarrow> e \<noteq> None"

text \<open>A listener that drains its calls when told to, and whose port may be taken.\<close>

definition sample_listener :: "bool \<Rightarrow> goerr option \<Rightarrow> bool" where
  "sample_listener ended e \<longleftrightarrow> (if ended then e = None else e = Some (External ''address already in use''))"

interpretation sample: listener sample_listener
  by unfold_locales (auto simp: sample_listener_def)

text \<open>\<open>errors.Join\<close> of two errors, either of which may be nil.\<close>

fun errors_Join :: "goerr option \<Rightarrow> goerr option \<Rightarrow> goerr option" where
  "errors_Join None e = e"
| "errors_Join (Some e) None = Some e"
| "errors_Join (Some e) (Some f) = Some (Join e f)"

lemma errors_Join_None [simp]: "errors_Join e f = None \<longleftrightarrow> e = None \<and> f = None"
  by (cases e; cases f) simp_all

section \<open>The main goroutine\<close>

text \<open>
  The points of the main goroutine of either server from its call of \<open>ListenAndServe\<close> on, each with the error
  held there: the listener returned, \<open>stop\<close> was called, the other goroutine was waited for, the deferred
  calls closed the database, and the process ended. It panics with the error, if any, once the deferred calls
  are done.
\<close>

datatype main_point =
    MainServing
  | MainReturned "goerr option"
  | MainStopped "goerr option"
  | MainWaited "goerr option"
  | MainClosed "goerr option"
  | MainEnded "goerr option"

text \<open>How far it has come. The process ends with it, and the other goroutines with the process.\<close>

primrec main_rank :: "main_point \<Rightarrow> nat" where
  "main_rank MainServing = 0"
| "main_rank (MainReturned e) = 1"
| "main_rank (MainStopped e) = 2"
| "main_rank (MainWaited e) = 3"
| "main_rank (MainClosed e) = 4"
| "main_rank (MainEnded e) = 5"

abbreviation main_over :: "main_point \<Rightarrow> bool" where
  "main_over at \<equiv> main_rank at = 5"

text \<open>The error it holds.\<close>

primrec main_error :: "main_point \<Rightarrow> goerr option" where
  "main_error MainServing = None"
| "main_error (MainReturned e) = e"
| "main_error (MainStopped e) = e"
| "main_error (MainWaited e) = e"
| "main_error (MainClosed e) = e"
| "main_error (MainEnded e) = e"

section \<open>The gRPC server\<close>

text \<open>
  The metrics goroutine serves, sends what its listener returned on the channel \<open>metrics\<close>, and calls
  \<open>stop\<close>.
\<close>

datatype metrics_point = MetricsServing | MetricsReturned "goerr option" | MetricsSent | MetricsStopped

text \<open>
  \<open>gp_done\<close> says that the context has ended, \<open>gp_health\<close> that the health check answers serving. The channel
  \<open>metrics\<close> holds one result. \<open>gp_told\<close> records whether a signal ended the context.
\<close>

record grpc_process =
  gp_done :: bool
  gp_told :: bool
  gp_health :: bool
  gp_main :: main_point
  gp_metrics :: metrics_point
  gp_channel :: "goerr option list"
  gp_database :: bool

definition grpc_started :: "bool \<Rightarrow> grpc_process" where
  "grpc_started opened =
     \<lparr>gp_done = False, gp_told = False, gp_health = True, gp_main = MainServing, gp_metrics = MetricsServing,
      gp_channel = [], gp_database = opened\<rparr>"

inductive grpc_step ::
  "(bool \<Rightarrow> goerr option \<Rightarrow> bool) \<Rightarrow> (bool \<Rightarrow> goerr option \<Rightarrow> bool) \<Rightarrow> grpc_process \<Rightarrow> grpc_process \<Rightarrow> bool"
  for serves metrics where
  signalled:
    "\<not> gp_done p \<Longrightarrow> \<not> main_over (gp_main p) \<Longrightarrow>
     grpc_step serves metrics p (p\<lparr>gp_done := True, gp_told := True\<rparr>)"
| withdrawn:
    "gp_done p \<Longrightarrow> gp_health p \<Longrightarrow> \<not> main_over (gp_main p) \<Longrightarrow>
     grpc_step serves metrics p (p\<lparr>gp_health := False\<rparr>)"
| metrics_returned:
    "gp_metrics p = MetricsServing \<Longrightarrow> metrics (gp_done p) e \<Longrightarrow> \<not> main_over (gp_main p) \<Longrightarrow>
     grpc_step serves metrics p (p\<lparr>gp_metrics := MetricsReturned e\<rparr>)"
| metrics_sent:
    "gp_metrics p = MetricsReturned e \<Longrightarrow> gp_channel p = [] \<Longrightarrow> \<not> main_over (gp_main p) \<Longrightarrow>
     grpc_step serves metrics p (p\<lparr>gp_metrics := MetricsSent, gp_channel := [e]\<rparr>)"
| metrics_stopped:
    "gp_metrics p = MetricsSent \<Longrightarrow> \<not> main_over (gp_main p) \<Longrightarrow>
     grpc_step serves metrics p (p\<lparr>gp_metrics := MetricsStopped, gp_done := True\<rparr>)"
| returned:
    "gp_main p = MainServing \<Longrightarrow> serves (gp_done p) e \<Longrightarrow>
     grpc_step serves metrics p (p\<lparr>gp_main := MainReturned e\<rparr>)"
| stopped:
    "gp_main p = MainReturned e \<Longrightarrow>
     grpc_step serves metrics p (p\<lparr>gp_main := MainStopped e, gp_done := True\<rparr>)"
| joined:
    "gp_main p = MainStopped e \<Longrightarrow> gp_channel p = f # rest \<Longrightarrow>
     grpc_step serves metrics p (p\<lparr>gp_main := MainWaited (errors_Join e f), gp_channel := rest\<rparr>)"
| closed:
    "gp_main p = MainWaited e \<Longrightarrow>
     grpc_step serves metrics p (p\<lparr>gp_main := MainClosed e, gp_database := False\<rparr>)"
| ended:
    "gp_main p = MainClosed e \<Longrightarrow>
     grpc_step serves metrics p (p\<lparr>gp_main := MainEnded e, gp_done := True\<rparr>)"

inductive grpc_reaches ::
  "(bool \<Rightarrow> goerr option \<Rightarrow> bool) \<Rightarrow> (bool \<Rightarrow> goerr option \<Rightarrow> bool) \<Rightarrow> bool \<Rightarrow> grpc_process \<Rightarrow> bool"
  for serves metrics opened where
  begun: "grpc_reaches serves metrics opened (grpc_started opened)"
| stepped:
    "grpc_reaches serves metrics opened p \<Longrightarrow> grpc_step serves metrics p q \<Longrightarrow>
     grpc_reaches serves metrics opened q"

text \<open>What the metrics goroutine holds, and whether an error is held anywhere.\<close>

primrec metrics_error :: "metrics_point \<Rightarrow> goerr option" where
  "metrics_error MetricsServing = None"
| "metrics_error (MetricsReturned e) = e"
| "metrics_error MetricsSent = None"
| "metrics_error MetricsStopped = None"

primrec metrics_rank :: "metrics_point \<Rightarrow> nat" where
  "metrics_rank MetricsServing = 0"
| "metrics_rank (MetricsReturned e) = 1"
| "metrics_rank MetricsSent = 2"
| "metrics_rank MetricsStopped = 3"

definition grpc_failed :: "grpc_process \<Rightarrow> bool" where
  "grpc_failed p \<longleftrightarrow>
     main_error (gp_main p) \<noteq> None \<or> metrics_error (gp_metrics p) \<noteq> None \<or> list_ex (\<lambda>e. e \<noteq> None) (gp_channel p)"

definition grpc_inv :: "bool \<Rightarrow> grpc_process \<Rightarrow> bool" where
  "grpc_inv opened p \<longleftrightarrow>
     (2 \<le> main_rank (gp_main p) \<or> metrics_rank (gp_metrics p) = 3 \<longrightarrow> gp_done p) \<and>
     length (gp_channel p) = (if 2 \<le> metrics_rank (gp_metrics p) \<and> main_rank (gp_main p) \<le> 2 then 1 else 0) \<and>
     (3 \<le> main_rank (gp_main p) \<longrightarrow> 2 \<le> metrics_rank (gp_metrics p)) \<and>
     gp_database p = (opened \<and> main_rank (gp_main p) \<le> 3)"

lemma grpc_step_inv:
  assumes "grpc_step serves metrics p q" and "grpc_inv opened p"
  shows "grpc_inv opened q"
  using assms(1) by cases (use assms(2) in \<open>auto simp: grpc_inv_def split: if_splits\<close>)

lemma grpc_reaches_inv: "grpc_reaches serves metrics opened p \<Longrightarrow> grpc_inv opened p"
proof (induction rule: grpc_reaches.induct)
  case begun
  show ?case by (simp add: grpc_inv_def grpc_started_def)
next
  case (stepped p q)
  then show ?case using grpc_step_inv by blast
qed

text \<open>A process that is ending was told to, or holds the error of the listener that failed.\<close>

definition grpc_ending :: "grpc_process \<Rightarrow> bool" where
  "grpc_ending p \<longleftrightarrow> gp_done p \<or> gp_main p \<noteq> MainServing \<or> gp_metrics p \<noteq> MetricsServing"

lemma grpc_reaches_blamed:
  assumes "grpc_reaches serves metrics opened p" and "listener serves" and "listener metrics"
  shows "grpc_ending p \<and> \<not> gp_told p \<longrightarrow> grpc_failed p"
  using assms(1)
proof induction
  case begun
  show ?case by (simp add: grpc_ending_def grpc_started_def)
next
  case (stepped p q)
  from stepped.hyps(2) show ?case
  proof cases
    case (metrics_returned e)
    then show ?thesis using stepped.IH listener.fails [OF assms(3)]
      by (cases "gp_done p") (auto simp: grpc_ending_def grpc_failed_def)
  next
    case (returned e)
    then show ?thesis using stepped.IH listener.fails [OF assms(2)]
      by (cases "gp_done p") (auto simp: grpc_ending_def grpc_failed_def)
  qed (use stepped.IH in \<open>auto simp: grpc_ending_def grpc_failed_def\<close>)
qed

text \<open>What is left of a run: the signal, the health goroutine, and the points of the two others.\<close>

definition grpc_left :: "grpc_process \<Rightarrow> nat" where
  "grpc_left p =
     of_bool (\<not> gp_done p) + of_bool (gp_health p) + (3 - metrics_rank (gp_metrics p)) + (5 - main_rank (gp_main p))"

lemma grpc_step_left:
  assumes "grpc_step serves metrics p q"
  shows "grpc_left q < grpc_left p"
  using assms by cases (auto simp: grpc_left_def)

text \<open>
  Once a signal came or a listener returned, the process moves without a further signal until it ends: the
  metrics goroutine moves, and when it has finished, or waits for its listener, the main one does.
\<close>

lemma grpc_movesI:
  "grpc_step serves metrics p q \<Longrightarrow> gp_told q = gp_told p \<Longrightarrow>
   \<exists>q. grpc_step serves metrics p q \<and> gp_told q = gp_told p"
  by blast

lemma grpc_metrics_moves:
  assumes "listener metrics" and "grpc_inv opened p" and "\<not> main_over (gp_main p)"
    and "gp_metrics p = MetricsServing \<longrightarrow> gp_done p" and "gp_metrics p \<noteq> MetricsStopped"
  shows "\<exists>q. grpc_step serves metrics p q \<and> gp_told q = gp_told p"
proof (cases "gp_metrics p")
  case MetricsServing
  obtain e where "metrics (gp_done p) e" using listener.stops [OF assms(1)] assms(4) MetricsServing by auto
  from grpc_step.metrics_returned [where p = p and e = e and serves = serves and metrics = metrics, OF MetricsServing this assms(3)]
  show ?thesis by (rule grpc_movesI) simp
next
  case (MetricsReturned e)
  then have "gp_channel p = []" using assms(2) by (simp add: grpc_inv_def)
  from grpc_step.metrics_sent [where serves = serves and metrics = metrics, OF MetricsReturned this assms(3)]
  show ?thesis by (rule grpc_movesI) simp
next
  case MetricsSent
  from grpc_step.metrics_stopped [where serves = serves and metrics = metrics, OF this assms(3)]
  show ?thesis by (rule grpc_movesI) simp
qed (use assms(5) in simp)

lemma grpc_main_moves:
  assumes "listener serves" and "grpc_inv opened p" and "\<not> main_over (gp_main p)"
    and "gp_metrics p = MetricsStopped \<or> (\<exists>e. gp_main p = MainReturned e)"
  shows "\<exists>q. grpc_step serves metrics p q \<and> gp_told q = gp_told p"
proof (cases "gp_main p")
  case MainServing
  then have "gp_done p" using assms(2,4) by (auto simp: grpc_inv_def)
  then obtain e where "serves (gp_done p) e" using listener.stops [OF assms(1)] by auto
  from grpc_step.returned [where p = p and e = e and serves = serves and metrics = metrics, OF MainServing this]
  show ?thesis by (rule grpc_movesI) simp
next
  case (MainReturned e)
  from grpc_step.stopped [where serves = serves and metrics = metrics, OF this]
  show ?thesis by (rule grpc_movesI) simp
next
  case (MainStopped e)
  then obtain f rest where "gp_channel p = f # rest"
    using assms(2,4) by (cases "gp_channel p") (simp_all add: grpc_inv_def)
  from grpc_step.joined [where serves = serves and metrics = metrics, OF MainStopped this]
  show ?thesis by (rule grpc_movesI) simp
next
  case (MainWaited e)
  from grpc_step.closed [where serves = serves and metrics = metrics, OF this]
  show ?thesis by (rule grpc_movesI) simp
next
  case (MainClosed e)
  from grpc_step.ended [where serves = serves and metrics = metrics, OF this]
  show ?thesis by (rule grpc_movesI) simp
next
  case (MainEnded e)
  then show ?thesis using assms(3) by simp
qed

lemma grpc_moves:
  assumes "listener serves" and "listener metrics" and "grpc_inv opened p"
    and "grpc_ending p" and "\<not> main_over (gp_main p)"
  shows "\<exists>q. grpc_step serves metrics p q \<and> gp_told q = gp_told p"
proof (cases "gp_metrics p = MetricsStopped \<or> (\<exists>e. gp_main p = MainReturned e)")
  case True
  then show ?thesis by (rule grpc_main_moves [OF assms(1,3,5)])
next
  case False
  have "gp_done p" if "gp_metrics p = MetricsServing"
    using that False assms(3,4) by (cases "gp_main p") (auto simp: grpc_inv_def grpc_ending_def)
  then show ?thesis using grpc_metrics_moves [OF assms(2,3,5)] False by simp
qed

section \<open>The sweep server\<close>

text \<open>
  The goroutine of the ticker, when the configuration asks for one: \<open>worker.Poll\<close> runs the sweep when it pleases
  until the context ends, and returns between two runs. Whether it may begin a run once the context ended is an
  argument, \<open>begins\<close>.
\<close>

datatype ticker_point = TickerOff | TickerIdle | TickerRunning | TickerReturned

text \<open>How many of its points are left, a run in progress included.\<close>

primrec ticker_left :: "ticker_point \<Rightarrow> nat" where
  "ticker_left TickerOff = 0"
| "ticker_left TickerIdle = 1"
| "ticker_left TickerRunning = 2"
| "ticker_left TickerReturned = 0"

record sweep_process =
  sp_done :: bool
  sp_told :: bool
  sp_main :: main_point
  sp_ticker :: ticker_point
  sp_database :: bool

definition sweep_started :: "bool \<Rightarrow> bool \<Rightarrow> sweep_process" where
  "sweep_started opened ticks =
     \<lparr>sp_done = False, sp_told = False, sp_main = MainServing, sp_ticker = (if ticks then TickerIdle else TickerOff),
      sp_database = opened\<rparr>"

inductive sweep_step ::
  "(bool \<Rightarrow> goerr option \<Rightarrow> bool) \<Rightarrow> (bool \<Rightarrow> bool) \<Rightarrow> sweep_process \<Rightarrow> sweep_process \<Rightarrow> bool"
  for serves begins where
  signalled:
    "\<not> sp_done p \<Longrightarrow> \<not> main_over (sp_main p) \<Longrightarrow>
     sweep_step serves begins p (p\<lparr>sp_done := True, sp_told := True\<rparr>)"
| run_begun:
    "sp_ticker p = TickerIdle \<Longrightarrow> begins (sp_done p) \<Longrightarrow> \<not> main_over (sp_main p) \<Longrightarrow>
     sweep_step serves begins p (p\<lparr>sp_ticker := TickerRunning\<rparr>)"
| run_over:
    "sp_ticker p = TickerRunning \<Longrightarrow> \<not> main_over (sp_main p) \<Longrightarrow>
     sweep_step serves begins p (p\<lparr>sp_ticker := TickerIdle\<rparr>)"
| ticker_returned:
    "sp_ticker p = TickerIdle \<Longrightarrow> sp_done p \<Longrightarrow> \<not> main_over (sp_main p) \<Longrightarrow>
     sweep_step serves begins p (p\<lparr>sp_ticker := TickerReturned\<rparr>)"
| returned:
    "sp_main p = MainServing \<Longrightarrow> serves (sp_done p) e \<Longrightarrow>
     sweep_step serves begins p (p\<lparr>sp_main := MainReturned e\<rparr>)"
| stopped:
    "sp_main p = MainReturned e \<Longrightarrow>
     sweep_step serves begins p (p\<lparr>sp_main := MainStopped e, sp_done := True\<rparr>)"
| waited:
    "sp_main p = MainStopped e \<Longrightarrow> sp_ticker p \<in> {TickerOff, TickerReturned} \<Longrightarrow>
     sweep_step serves begins p (p\<lparr>sp_main := MainWaited e\<rparr>)"
| closed:
    "sp_main p = MainWaited e \<Longrightarrow>
     sweep_step serves begins p (p\<lparr>sp_main := MainClosed e, sp_database := False\<rparr>)"
| ended:
    "sp_main p = MainClosed e \<Longrightarrow>
     sweep_step serves begins p (p\<lparr>sp_main := MainEnded e, sp_done := True\<rparr>)"

inductive sweep_reaches ::
  "(bool \<Rightarrow> goerr option \<Rightarrow> bool) \<Rightarrow> (bool \<Rightarrow> bool) \<Rightarrow> bool \<Rightarrow> bool \<Rightarrow> sweep_process \<Rightarrow> bool"
  for serves begins opened ticks where
  begun: "sweep_reaches serves begins opened ticks (sweep_started opened ticks)"
| stepped:
    "sweep_reaches serves begins opened ticks p \<Longrightarrow> sweep_step serves begins p q \<Longrightarrow>
     sweep_reaches serves begins opened ticks q"

definition sweep_inv :: "bool \<Rightarrow> sweep_process \<Rightarrow> bool" where
  "sweep_inv opened p \<longleftrightarrow>
     (2 \<le> main_rank (sp_main p) \<longrightarrow> sp_done p) \<and>
     (3 \<le> main_rank (sp_main p) \<longrightarrow> ticker_left (sp_ticker p) = 0) \<and>
     sp_database p = (opened \<and> main_rank (sp_main p) \<le> 3)"

lemma sweep_step_inv:
  assumes "sweep_step serves begins p q" and "sweep_inv opened p"
  shows "sweep_inv opened q"
  using assms(1) by cases (use assms(2) in \<open>auto simp: sweep_inv_def\<close>)

lemma sweep_reaches_inv: "sweep_reaches serves begins opened ticks p \<Longrightarrow> sweep_inv opened p"
proof (induction rule: sweep_reaches.induct)
  case begun
  show ?case by (simp add: sweep_inv_def sweep_started_def)
next
  case (stepped p q)
  then show ?case using sweep_step_inv by blast
qed

definition sweep_ending :: "sweep_process \<Rightarrow> bool" where
  "sweep_ending p \<longleftrightarrow> sp_done p \<or> sp_main p \<noteq> MainServing"

lemma sweep_reaches_blamed:
  assumes "sweep_reaches serves begins opened ticks p" and "listener serves"
  shows "sweep_ending p \<and> \<not> sp_told p \<longrightarrow> main_error (sp_main p) \<noteq> None"
  using assms(1)
proof induction
  case begun
  show ?case by (simp add: sweep_ending_def sweep_started_def)
next
  case (stepped p q)
  from stepped.hyps(2) show ?case
  proof cases
    case (returned e)
    then show ?thesis using stepped.IH listener.fails [OF assms(2)]
      by (cases "sp_done p") (auto simp: sweep_ending_def)
  qed (use stepped.IH in \<open>auto simp: sweep_ending_def\<close>)
qed

text \<open>What is left of a run. A step leaves less, unless it begins a run of the ticker.\<close>

definition sweep_left :: "sweep_process \<Rightarrow> nat" where
  "sweep_left p = of_bool (\<not> sp_done p) + ticker_left (sp_ticker p) + (5 - main_rank (sp_main p))"

lemma sweep_step_left:
  assumes "sweep_step serves begins p q"
  shows "sweep_left q < sweep_left p \<or> sp_ticker p = TickerIdle \<and> begins (sp_done p) \<and> sp_ticker q = TickerRunning"
  using assms by cases (auto simp: sweep_left_def)

lemma sweep_movesI:
  "sweep_step serves begins p q \<Longrightarrow> sp_told q = sp_told p \<and> sweep_left q < sweep_left p \<Longrightarrow>
   \<exists>q. sweep_step serves begins p q \<and> sp_told q = sp_told p \<and> sweep_left q < sweep_left p"
  by blast

lemma sweep_ticker_moves:
  assumes "sp_main p = MainStopped e" and "sp_done p"
  shows "\<exists>q. sweep_step serves begins p q \<and> sp_told q = sp_told p \<and> sweep_left q < sweep_left p"
proof -
  have over: "\<not> main_over (sp_main p)" using assms(1) by simp
  consider "sp_ticker p \<in> {TickerOff, TickerReturned}" | "sp_ticker p = TickerIdle" | "sp_ticker p = TickerRunning"
    by (cases "sp_ticker p") auto
  then show ?thesis
  proof cases
    case 1
    note step = sweep_step.waited [where serves = serves and begins = begins, OF assms(1) this]
    show ?thesis using assms(1) by (intro sweep_movesI [OF step]) (simp add: sweep_left_def)
  next
    case 2
    note step = sweep_step.ticker_returned [where serves = serves and begins = begins, OF this assms(2) over]
    show ?thesis using 2 by (intro sweep_movesI [OF step]) (simp add: sweep_left_def)
  next
    case 3
    note step = sweep_step.run_over [where serves = serves and begins = begins, OF this over]
    show ?thesis using 3 by (intro sweep_movesI [OF step]) (simp add: sweep_left_def)
  qed
qed

lemma sweep_moves:
  assumes "listener serves" and "sweep_inv opened p" and "sweep_ending p" and "\<not> main_over (sp_main p)"
  shows "\<exists>q. sweep_step serves begins p q \<and> sp_told q = sp_told p \<and> sweep_left q < sweep_left p"
proof (cases "sp_main p")
  case MainServing
  then have "sp_done p" using assms(3) by (simp add: sweep_ending_def)
  then obtain e where "serves (sp_done p) e" using listener.stops [OF assms(1)] by auto
  note step = sweep_step.returned [where p = p and e = e and serves = serves and begins = begins, OF MainServing this]
  show ?thesis using MainServing by (intro sweep_movesI [OF step]) (simp add: sweep_left_def)
next
  case (MainReturned e)
  note step = sweep_step.stopped [where serves = serves and begins = begins, OF this]
  show ?thesis using MainReturned by (intro sweep_movesI [OF step]) (simp add: sweep_left_def)
next
  case (MainStopped e)
  then show ?thesis using sweep_ticker_moves assms(2) by (simp add: sweep_inv_def)
next
  case (MainWaited e)
  note step = sweep_step.closed [where serves = serves and begins = begins, OF this]
  show ?thesis using MainWaited by (intro sweep_movesI [OF step]) (simp add: sweep_left_def)
next
  case (MainClosed e)
  note step = sweep_step.ended [where serves = serves and begins = begins, OF this]
  show ?thesis using MainClosed by (intro sweep_movesI [OF step]) (simp add: sweep_left_def)
qed (use assms(4) in simp)

section \<open>Runs of the two servers\<close>

text \<open>A run that a signal ends, and one where the port of the metrics is taken.\<close>

abbreviation port_taken :: "goerr option" where
  "port_taken \<equiv> Some (External ''address already in use'')"

definition sample_grpc :: "bool \<Rightarrow> bool \<Rightarrow> main_point \<Rightarrow> metrics_point \<Rightarrow> goerr option list \<Rightarrow> grpc_process" where
  "sample_grpc over told main metrics channel =
     \<lparr>gp_done = over, gp_told = told, gp_health = True, gp_main = main, gp_metrics = metrics, gp_channel = channel,
      gp_database = (main_rank main \<le> 3)\<rparr>"

lemma sample_grpc_run:
  assumes "grpc_reaches sample_listener sample_listener True (sample_grpc over told MainServing MetricsServing [])"
    and "sample_listener over e"
  shows "grpc_reaches sample_listener sample_listener True (sample_grpc True told (MainEnded e) MetricsStopped [])"
proof -
  note step = grpc_reaches.stepped [where serves = sample_listener and metrics = sample_listener and opened = True]
  have 1: "grpc_reaches sample_listener sample_listener True (sample_grpc over told MainServing (MetricsReturned e) [])"
    by (rule step [OF assms(1)])
      (use grpc_step.metrics_returned [of "sample_grpc over told MainServing MetricsServing []" sample_listener e] assms(2)
        in \<open>simp add: sample_grpc_def\<close>)
  have 2: "grpc_reaches sample_listener sample_listener True (sample_grpc over told MainServing MetricsSent [e])"
    by (rule step [OF 1])
      (use grpc_step.metrics_sent [of "sample_grpc over told MainServing (MetricsReturned e) []" e]
        in \<open>simp add: sample_grpc_def\<close>)
  have 3: "grpc_reaches sample_listener sample_listener True (sample_grpc True told MainServing MetricsStopped [e])"
    by (rule step [OF 2])
      (use grpc_step.metrics_stopped [of "sample_grpc over told MainServing MetricsSent [e]"]
        in \<open>simp add: sample_grpc_def\<close>)
  have 4: "grpc_reaches sample_listener sample_listener True (sample_grpc True told (MainReturned None) MetricsStopped [e])"
    by (rule step [OF 3])
      (use grpc_step.returned [of "sample_grpc True told MainServing MetricsStopped [e]" sample_listener None]
        in \<open>simp add: sample_grpc_def sample_listener_def\<close>)
  have 5: "grpc_reaches sample_listener sample_listener True (sample_grpc True told (MainStopped None) MetricsStopped [e])"
    by (rule step [OF 4])
      (use grpc_step.stopped [of "sample_grpc True told (MainReturned None) MetricsStopped [e]" None]
        in \<open>simp add: sample_grpc_def\<close>)
  have 6: "grpc_reaches sample_listener sample_listener True (sample_grpc True told (MainWaited e) MetricsStopped [])"
    by (rule step [OF 5])
      (use grpc_step.joined [of "sample_grpc True told (MainStopped None) MetricsStopped [e]" None e "[]"]
        in \<open>simp add: sample_grpc_def\<close>)
  have 7: "grpc_reaches sample_listener sample_listener True (sample_grpc True told (MainClosed e) MetricsStopped [])"
    by (rule step [OF 6])
      (use grpc_step.closed [of "sample_grpc True told (MainWaited e) MetricsStopped []" e]
        in \<open>simp add: sample_grpc_def\<close>)
  show ?thesis
    by (rule step [OF 7])
      (use grpc_step.ended [of "sample_grpc True told (MainClosed e) MetricsStopped []" e]
        in \<open>simp add: sample_grpc_def\<close>)
qed

lemma sample_grpc_begun:
  "grpc_reaches sample_listener sample_listener True (sample_grpc False False MainServing MetricsServing [])"
  using grpc_reaches.begun [where opened = True] by (simp add: grpc_started_def sample_grpc_def)

lemma sample_grpc_signalled:
  "grpc_reaches sample_listener sample_listener True (sample_grpc True True MainServing MetricsServing [])"
  by (rule grpc_reaches.stepped [OF sample_grpc_begun])
    (use grpc_step.signalled [of "sample_grpc False False MainServing MetricsServing []"]
      in \<open>simp add: sample_grpc_def\<close>)

definition sample_sweep :: "bool \<Rightarrow> bool \<Rightarrow> main_point \<Rightarrow> ticker_point \<Rightarrow> sweep_process" where
  "sample_sweep over told main ticker =
     \<lparr>sp_done = over, sp_told = told, sp_main = main, sp_ticker = ticker, sp_database = (main_rank main \<le> 3)\<rparr>"

text \<open>A ticker that begins no run once the context has ended, signalled during a run.\<close>

lemma sample_sweep_signalled:
  "sweep_reaches sample_listener Not True True (sample_sweep True True MainServing TickerRunning)"
proof -
  note step = sweep_reaches.stepped [where serves = sample_listener and begins = Not and opened = True and ticks = True]
  have 1: "sweep_reaches sample_listener Not True True (sample_sweep False False MainServing TickerIdle)"
    using sweep_reaches.begun [where opened = True and ticks = True] by (simp add: sweep_started_def sample_sweep_def)
  have 2: "sweep_reaches sample_listener Not True True (sample_sweep False False MainServing TickerRunning)"
    by (rule step [OF 1])
      (use sweep_step.run_begun [of "sample_sweep False False MainServing TickerIdle" Not] in \<open>simp add: sample_sweep_def\<close>)
  show ?thesis
    by (rule step [OF 2])
      (use sweep_step.signalled [of "sample_sweep False False MainServing TickerRunning"] in \<open>simp add: sample_sweep_def\<close>)
qed

lemma sample_sweep_ended:
  "sweep_reaches sample_listener Not True True (sample_sweep True True (MainEnded None) TickerReturned)"
proof -
  note step = sweep_reaches.stepped [where serves = sample_listener and begins = Not and opened = True and ticks = True]
  have 1: "sweep_reaches sample_listener Not True True (sample_sweep True True MainServing TickerIdle)"
    by (rule step [OF sample_sweep_signalled])
      (use sweep_step.run_over [of "sample_sweep True True MainServing TickerRunning"] in \<open>simp add: sample_sweep_def\<close>)
  have 2: "sweep_reaches sample_listener Not True True (sample_sweep True True MainServing TickerReturned)"
    by (rule step [OF 1])
      (use sweep_step.ticker_returned [of "sample_sweep True True MainServing TickerIdle"] in \<open>simp add: sample_sweep_def\<close>)
  have 3: "sweep_reaches sample_listener Not True True (sample_sweep True True (MainReturned None) TickerReturned)"
    by (rule step [OF 2])
      (use sweep_step.returned [of "sample_sweep True True MainServing TickerReturned" sample_listener None]
        in \<open>simp add: sample_sweep_def sample_listener_def\<close>)
  have 4: "sweep_reaches sample_listener Not True True (sample_sweep True True (MainStopped None) TickerReturned)"
    by (rule step [OF 3])
      (use sweep_step.stopped [of "sample_sweep True True (MainReturned None) TickerReturned" None]
        in \<open>simp add: sample_sweep_def\<close>)
  have 5: "sweep_reaches sample_listener Not True True (sample_sweep True True (MainWaited None) TickerReturned)"
    by (rule step [OF 4])
      (use sweep_step.waited [of "sample_sweep True True (MainStopped None) TickerReturned" None]
        in \<open>simp add: sample_sweep_def\<close>)
  have 6: "sweep_reaches sample_listener Not True True (sample_sweep True True (MainClosed None) TickerReturned)"
    by (rule step [OF 5])
      (use sweep_step.closed [of "sample_sweep True True (MainWaited None) TickerReturned" None]
        in \<open>simp add: sample_sweep_def\<close>)
  show ?thesis
    by (rule step [OF 6])
      (use sweep_step.ended [of "sample_sweep True True (MainClosed None) TickerReturned" None]
        in \<open>simp add: sample_sweep_def\<close>)
qed

section \<open>Properties\<close>

text \<open>C39: A server closes its database, when it opened one, and only once what uses it is over: the gRPC
server once both its listeners have returned, the sweep server once its listener has and no run of the ticker is
in progress or to come.\<close>

theorem database_outlives_its_users:
  assumes "grpc_reaches serves metrics opened p" and "sweep_reaches serves begins opened ticks q"
  shows "(gp_database p \<longleftrightarrow> opened \<and> \<not> (\<exists>e. gp_main p \<in> {MainClosed e, MainEnded e})) \<and>
     (opened \<and> \<not> gp_database p \<longrightarrow> gp_done p \<and> gp_metrics p \<in> {MetricsSent, MetricsStopped}) \<and>
     (sp_database q \<longleftrightarrow> opened \<and> \<not> (\<exists>e. sp_main q \<in> {MainClosed e, MainEnded e})) \<and>
     (opened \<and> \<not> sp_database q \<longrightarrow> sp_done q \<and> sp_ticker q \<in> {TickerOff, TickerReturned})"
proof -
  note grpc = grpc_reaches_inv [OF assms(1)] and sweep = sweep_reaches_inv [OF assms(2)]
  have "gp_database p \<longleftrightarrow> opened \<and> \<not> (\<exists>e. gp_main p \<in> {MainClosed e, MainEnded e})"
    using grpc by (cases "gp_main p") (auto simp: grpc_inv_def)
  moreover have "opened \<and> \<not> gp_database p \<longrightarrow> gp_done p \<and> gp_metrics p \<in> {MetricsSent, MetricsStopped}"
    using grpc by (cases "gp_metrics p") (auto simp: grpc_inv_def)
  moreover have "sp_database q \<longleftrightarrow> opened \<and> \<not> (\<exists>e. sp_main q \<in> {MainClosed e, MainEnded e})"
    using sweep by (cases "sp_main q") (auto simp: sweep_inv_def)
  moreover have "opened \<and> \<not> sp_database q \<longrightarrow> sp_done q \<and> sp_ticker q \<in> {TickerOff, TickerReturned}"
    using sweep by (cases "sp_ticker q") (auto simp: sweep_inv_def)
  ultimately show ?thesis by blast
qed

lemma database_outlives_its_users_witness:
  "gp_done (sample_grpc True True (MainEnded None) MetricsStopped []) \<and>
   \<not> sp_database (sample_sweep True True (MainEnded None) TickerReturned)"
proof -
  have "grpc_reaches sample_listener sample_listener True (sample_grpc True True (MainEnded None) MetricsStopped [])"
    by (rule sample_grpc_run [OF sample_grpc_signalled]) (simp add: sample_listener_def)
  from database_outlives_its_users [OF this sample_sweep_ended] show ?thesis
    by (simp add: sample_grpc_def sample_sweep_def)
qed

text \<open>
  A server that ends without a signal ends with an error, so the process fails: the gRPC server with what
either of its listeners returned, the sweep server with what its own did.
\<close>

theorem unasked_end_is_an_error:
  assumes "listener serves" and "listener metrics"
  shows "(grpc_reaches serves metrics opened p \<and> gp_main p = MainEnded e \<and> \<not> gp_told p \<longrightarrow> e \<noteq> None) \<and>
     (sweep_reaches serves begins opened ticks q \<and> sp_main q = MainEnded f \<and> \<not> sp_told q \<longrightarrow> f \<noteq> None)"
proof -
  have "e \<noteq> None" if run: "grpc_reaches serves metrics opened p" "gp_main p = MainEnded e" "\<not> gp_told p"
  proof -
    have "grpc_failed p" using grpc_reaches_blamed [OF run(1) assms] run(2,3) by (simp add: grpc_ending_def)
    moreover have "grpc_inv opened p" by (rule grpc_reaches_inv [OF run(1)])
    ultimately show ?thesis using run(2)
      by (cases "gp_metrics p") (auto simp: grpc_failed_def grpc_inv_def)
  qed
  moreover have "f \<noteq> None" if run: "sweep_reaches serves begins opened ticks q" "sp_main q = MainEnded f"
      "\<not> sp_told q"
    using sweep_reaches_blamed [OF run(1) assms(1)] run(2,3) by (simp add: sweep_ending_def)
  ultimately show ?thesis by blast
qed

lemma unasked_end_is_an_error_witness: "port_taken \<noteq> None"
proof -
  have "grpc_reaches sample_listener sample_listener True (sample_grpc True False (MainEnded port_taken) MetricsStopped [])"
    by (rule sample_grpc_run [OF sample_grpc_begun]) (simp add: sample_listener_def)
  moreover have "gp_main (sample_grpc True False (MainEnded port_taken) MetricsStopped []) = MainEnded port_taken"
    "\<not> gp_told (sample_grpc True False (MainEnded port_taken) MetricsStopped [])" by (simp_all add: sample_grpc_def)
  ultimately show ?thesis
    using unasked_end_is_an_error [OF sample.listener_axioms sample.listener_axioms] by blast
qed

text \<open>C40: Once a signal came or one of its listeners returned, the gRPC server ends: every step leaves less to do,
and until it has ended there is one to take, with no further signal.\<close>

theorem grpc_shutdown_ends:
  assumes "listener serves" and "listener metrics" and "grpc_reaches serves metrics opened p"
  shows "(\<forall>q. grpc_step serves metrics p q \<longrightarrow> grpc_left q < grpc_left p) \<and>
     (grpc_ending p \<and> \<not> main_over (gp_main p) \<longrightarrow> (\<exists>q. grpc_step serves metrics p q \<and> gp_told q = gp_told p))"
  using grpc_step_left grpc_moves [OF assms(1,2) grpc_reaches_inv [OF assms(3)]] by blast

lemma grpc_shutdown_ends_witness:
  "\<exists>q. grpc_step sample_listener sample_listener (sample_grpc True True MainServing MetricsServing []) q \<and> gp_told q"
  using grpc_shutdown_ends [OF sample.listener_axioms sample.listener_axioms sample_grpc_signalled]
  by (simp add: grpc_ending_def sample_grpc_def)

text \<open>
  Once a signal came or its listener returned, the sweep server can always take a step that leaves it less
to do, until it has ended; only a run the ticker begins leaves it more.
\<close>

theorem sweep_shutdown_ends:
  assumes "listener serves" and "sweep_reaches serves begins opened ticks p"
    and "sweep_ending p" and "\<not> main_over (sp_main p)"
  shows "(\<exists>q. sweep_step serves begins p q \<and> sp_told q = sp_told p \<and> sweep_left q < sweep_left p) \<and>
     (\<forall>q. sweep_step serves begins p q \<longrightarrow>
        sweep_left q < sweep_left p \<or> begins (sp_done p) \<and> sp_ticker q = TickerRunning)"
  using sweep_moves [OF assms(1) sweep_reaches_inv [OF assms(2)] assms(3,4)] sweep_step_left by blast

lemma sweep_shutdown_ends_witness:
  "\<exists>q. sweep_step sample_listener Not (sample_sweep True True MainServing TickerRunning) q \<and> sp_told q"
proof -
  have "sweep_ending (sample_sweep True True MainServing TickerRunning)"
    "\<not> main_over (sp_main (sample_sweep True True MainServing TickerRunning))"
    by (simp_all add: sweep_ending_def sample_sweep_def)
  from sweep_shutdown_ends [OF sample.listener_axioms sample_sweep_signalled this] show ?thesis
    by (auto simp: sample_sweep_def)
qed

end
