(* ===== verification/Schema.thy ===== *)
theory Schema
  imports Prelude "HOL-Library.Char_ord"
begin

text \<open>
  The part of PostgreSQL's data definition language the migrations of \<^verbatim>\<open>internal/models/migrations\<close> are
  written in: the conditions of its checks, with the three truth values of SQL, the catalog a statement changes,
  and each statement as a function from a catalog to the catalog after it, or to nothing where PostgreSQL
  refuses it.

  A catalog keeps its objects under their names, in the order of the names, so two catalogs that hold the same
  objects are equal. It has no order of columns. \<^verbatim>\<open>pg_cron\<close>'s jobs are kept with it.
\<close>

section \<open>Objects by name\<close>

text \<open>Names are compared up to the first character that differs.\<close>

fun same :: "string \<Rightarrow> string \<Rightarrow> bool" where
  "same [] [] = True"
| "same (c # s) (d # t) = (if c = d then same s t else False)"
| "same s t = False"

lemma same_iff [simp]: "same s t \<longleftrightarrow> s = t"
  by (induction s t rule: same.induct) auto

fun before :: "string \<Rightarrow> string \<Rightarrow> bool" where
  "before s [] = False"
| "before [] (d # t) = True"
| "before (c # s) (d # t) = (if c = d then before s t else c < d)"

fun put :: "string \<Rightarrow> 'v \<Rightarrow> (string \<times> 'v) list \<Rightarrow> (string \<times> 'v) list" where
  "put k v [] = [(k, v)]"
| "put k v ((l, w) # xs) =
     (if same k l then (k, v) # xs else if before k l then (k, v) # (l, w) # xs else (l, w) # put k v xs)"

fun has :: "(string \<times> 'v) list \<Rightarrow> string \<Rightarrow> bool" where
  "has [] k = False"
| "has ((l, v) # xs) k = (if same l k then True else has xs k)"

definition remove :: "string \<Rightarrow> (string \<times> 'v) list \<Rightarrow> (string \<times> 'v) list" where
  "remove k = filter (\<lambda>(l, v). \<not> same l k)"

abbreviation forget :: "('v \<Rightarrow> bool) \<Rightarrow> (string \<times> 'v) list \<Rightarrow> (string \<times> 'v) list" where
  "forget gone \<equiv> filter (\<lambda>(k, v). \<not> gone v)"

section \<open>Conditions\<close>

text \<open>
  A value of a column: nothing, a text or the label of an enum, a number or an instant, a json document, of
  which only whether it is an object is read, and any other value.
\<close>

datatype sql_value = Null | Text_Value string | Int_Value int | Json_Value bool | Other_Value

datatype sql_term = Col string | Str string | Num int

datatype condition =
    Is_Null sql_term
  | Not_Null sql_term
  | Differ sql_term sql_term
  | At_Most sql_term sql_term
  | Member sql_term "string list"
  | Is_Object sql_term
  | Neg condition
  | Both condition condition
  | Either condition condition
  | Agree condition condition

fun term_value :: "(string \<Rightarrow> sql_value) \<Rightarrow> sql_term \<Rightarrow> sql_value" where
  "term_value row (Col c) = row c"
| "term_value row (Str s) = Text_Value s"
| "term_value row (Num n) = Int_Value n"

text \<open>SQL's \<^verbatim>\<open>AND\<close> and \<^verbatim>\<open>OR\<close>, which an unknown operand does not always make unknown.\<close>

fun and3 :: "bool option \<Rightarrow> bool option \<Rightarrow> bool option" where
  "and3 (Some False) b = Some False"
| "and3 (Some True) b = b"
| "and3 None (Some False) = Some False"
| "and3 None b = None"

definition not3 :: "bool option \<Rightarrow> bool option" where
  "not3 b = map_option Not b"

definition or3 :: "bool option \<Rightarrow> bool option \<Rightarrow> bool option" where
  "or3 a b = not3 (and3 (not3 a) (not3 b))"

definition agree3 :: "bool option \<Rightarrow> bool option \<Rightarrow> bool option" where
  "agree3 a b = (case a of None \<Rightarrow> None | Some x \<Rightarrow> map_option (\<lambda>y. x = y) b)"

text \<open>A comparison with nothing is unknown. The types of the schema compare only values of one kind.\<close>

fun at_most3 :: "sql_value \<Rightarrow> sql_value \<Rightarrow> bool option" where
  "at_most3 (Int_Value a) (Int_Value b) = Some (a \<le> b)"
| "at_most3 v w = None"

definition differ3 :: "sql_value \<Rightarrow> sql_value \<Rightarrow> bool option" where
  "differ3 v w = (if v = Null \<or> w = Null then None else Some (v \<noteq> w))"

definition member3 :: "sql_value \<Rightarrow> string list \<Rightarrow> bool option" where
  "member3 v labels = (if v = Null then None else Some (v \<in> set (map Text_Value labels)))"

fun is_object3 :: "sql_value \<Rightarrow> bool option" where
  "is_object3 (Json_Value b) = Some b"
| "is_object3 v = None"

primrec truth :: "(string \<Rightarrow> sql_value) \<Rightarrow> condition \<Rightarrow> bool option" where
  "truth row (Is_Null t) = Some (term_value row t = Null)"
| "truth row (Not_Null t) = Some (term_value row t \<noteq> Null)"
| "truth row (Differ s t) = differ3 (term_value row s) (term_value row t)"
| "truth row (At_Most s t) = at_most3 (term_value row s) (term_value row t)"
| "truth row (Member t labels) = member3 (term_value row t) labels"
| "truth row (Is_Object t) = is_object3 (term_value row t)"
| "truth row (Neg a) = not3 (truth row a)"
| "truth row (Both a b) = and3 (truth row a) (truth row b)"
| "truth row (Either a b) = or3 (truth row a) (truth row b)"
| "truth row (Agree a b) = agree3 (truth row a) (truth row b)"

text \<open>A check refuses a row only where its condition is false.\<close>

definition admits :: "(string \<Rightarrow> sql_value) \<Rightarrow> condition \<Rightarrow> bool" where
  "admits row c \<longleftrightarrow> truth row c \<noteq> Some False"

primrec term_columns :: "sql_term \<Rightarrow> string list" where
  "term_columns (Col c) = [c]"
| "term_columns (Str s) = []"
| "term_columns (Num n) = []"

primrec condition_columns :: "condition \<Rightarrow> string list" where
  "condition_columns (Is_Null t) = term_columns t"
| "condition_columns (Not_Null t) = term_columns t"
| "condition_columns (Differ s t) = term_columns s @ term_columns t"
| "condition_columns (At_Most s t) = term_columns s @ term_columns t"
| "condition_columns (Member t labels) = term_columns t"
| "condition_columns (Is_Object t) = term_columns t"
| "condition_columns (Neg a) = condition_columns a"
| "condition_columns (Both a b) = condition_columns a @ condition_columns b"
| "condition_columns (Either a b) = condition_columns a @ condition_columns b"
| "condition_columns (Agree a b) = condition_columns a @ condition_columns b"

section \<open>The catalog\<close>

datatype sql_type = Uuid | Text | Bytea | Json | Smallint | Bigint | Boolean | Timestamptz | Enum string

text \<open>A default is kept as it is written.\<close>

record column =
  col_type :: sql_type
  col_not_null :: bool
  col_default :: "string option"

text \<open>A foreign key deletes its rows with the row they reference.\<close>

datatype constraint = Check condition | Primary_Key "string list" | References "string list" string "string list"

primrec constraint_columns :: "constraint \<Rightarrow> string list" where
  "constraint_columns (Check c) = condition_columns c"
| "constraint_columns (Primary_Key cs) = cs"
| "constraint_columns (References cs other others) = cs"

record table =
  tab_columns :: "(string \<times> column) list"
  tab_constraints :: "(string \<times> constraint) list"
  tab_storage :: "(string \<times> string) list"

text \<open>A concurrent build that gives up leaves an index that is not valid.\<close>

record index =
  ix_table :: string
  ix_unique :: bool
  ix_columns :: "string list"
  ix_include :: "string list"
  ix_where :: "condition option"
  ix_valid :: bool

text \<open>
  A function of the schema: the default of its argument, when it has one, whether its search path is pinned, and
  what its body deletes, in the words of the two forms the purge takes. PostgreSQL records no dependency on the
  tables a body names.
\<close>

datatype purge_body = Purge_Rows int | Purge_Bytes int "string list"

record routine =
  fn_default :: "int option"
  fn_pinned :: bool
  fn_body :: purge_body

text \<open>A job of \<^verbatim>\<open>pg_cron\<close>: its name, the role that owns it, its schedule and its command.\<close>

record job =
  job_name :: string
  job_owner :: string
  job_schedule :: string
  job_command :: string

text \<open>
  \<open>cat_cron\<close> holds the jobs, where the extension is installed. Of the rows a catalog says only which conditions
  one of them fails when a statement asks for it: \<open>cat_unmet\<close>, by the table and the name of the constraint or the
  unique index, or of the column that takes no null.
\<close>

record catalog =
  cat_types :: "(string \<times> string list) list"
  cat_tables :: "(string \<times> table) list"
  cat_indexes :: "(string \<times> index) list"
  cat_functions :: "(string \<times> routine) list"
  cat_unmet :: "(string \<times> string) list"
  cat_cron :: "job list option"

definition empty_catalog :: "job list option \<Rightarrow> catalog" where
  "empty_catalog cron =
     \<lparr>cat_types = [], cat_tables = [], cat_indexes = [], cat_functions = [], cat_unmet = [], cat_cron = cron\<rparr>"

section \<open>Statements\<close>

text \<open>
  A column as \<^verbatim>\<open>CREATE TABLE\<close> and \<^verbatim>\<open>ADD COLUMN\<close> define it: its name and type, and its own constraints, with
  the name PostgreSQL gives them unless they are named.
\<close>

record column_definition =
  def_name :: string
  def_column :: column
  def_check :: "(string option \<times> condition) option"
  def_primary :: bool
  def_references :: "(string \<times> string) option"

definition col :: "string \<Rightarrow> sql_type \<Rightarrow> column_definition" where
  "col name type =
     \<lparr>def_name = name, def_column = \<lparr>col_type = type, col_not_null = False, col_default = None\<rparr>,
      def_check = None, def_primary = False, def_references = None\<rparr>"

definition required :: "column_definition \<Rightarrow> column_definition" where
  "required d = d\<lparr>def_column := (def_column d)\<lparr>col_not_null := True\<rparr>\<rparr>"

definition defaulting :: "string \<Rightarrow> column_definition \<Rightarrow> column_definition" where
  "defaulting e d = d\<lparr>def_column := (def_column d)\<lparr>col_default := Some e\<rparr>\<rparr>"

definition checked :: "condition \<Rightarrow> column_definition \<Rightarrow> column_definition" where
  "checked c d = d\<lparr>def_check := Some (None, c)\<rparr>"

definition checked_as :: "string \<Rightarrow> condition \<Rightarrow> column_definition \<Rightarrow> column_definition" where
  "checked_as name c d = d\<lparr>def_check := Some (Some name, c)\<rparr>"

definition primary :: "column_definition \<Rightarrow> column_definition" where
  "primary d = d\<lparr>def_primary := True, def_column := (def_column d)\<lparr>col_not_null := True\<rparr>\<rparr>"

definition referencing :: "string \<Rightarrow> string \<Rightarrow> column_definition \<Rightarrow> column_definition" where
  "referencing other key d = d\<lparr>def_references := Some (other, key)\<rparr>"

text \<open>The constraints that come with a column of a table.\<close>

definition own_constraints :: "string \<Rightarrow> column_definition \<Rightarrow> (string \<times> constraint) list" where
  "own_constraints table d =
     (case def_check d of
        None \<Rightarrow> []
      | Some (None, c) \<Rightarrow> [(table @ ''_'' @ def_name d @ ''_check'', Check c)]
      | Some (Some name, c) \<Rightarrow> [(name, Check c)]) @
     (if def_primary d then [(table @ ''_pkey'', Primary_Key [def_name d])] else []) @
     (case def_references d of
        None \<Rightarrow> []
      | Some (other, key) \<Rightarrow> [(table @ ''_'' @ def_name d @ ''_fkey'', References [def_name d] other [key])])"

datatype alteration =
    Add_Column column_definition
  | Drop_Column bool string
  | Add_Constraint string constraint
  | Drop_Constraint bool string
  | Set_Default string string
  | Set_Not_Null string
  | Set_Storage "(string \<times> string) list"

text \<open>
  The flag of a drop is its \<^verbatim>\<open>IF EXISTS\<close>, that of a function its \<^verbatim>\<open>OR REPLACE\<close>, and the first one of an index
  its \<^verbatim>\<open>CONCURRENTLY\<close>. \<open>Write_Rows\<close> is an \<^verbatim>\<open>INSERT\<close> or an \<^verbatim>\<open>UPDATE\<close> over the tables it names. The last two
  are the blocks that call \<^verbatim>\<open>pg_cron\<close> where it is installed.
\<close>

datatype ddl =
    Create_Type string "string list"
  | Drop_Type bool string
  | Create_Table string "column_definition list" "(string \<times> constraint) list"
  | Drop_Table bool string
  | Alter_Table string "alteration list"
  | Create_Index bool string index
  | Drop_Index bool bool string
  | Create_Function bool string routine
  | Drop_Function bool string
  | Write_Rows "string list"
  | Cron_Schedule string string string
  | Cron_Unschedule string

text \<open>The object of a drop: PostgreSQL refuses one that is not there, unless told it may not be.\<close>

definition dropping :: "bool \<Rightarrow> (string \<times> 'v) list \<Rightarrow> string \<Rightarrow> (string \<times> 'v) list option" where
  "dropping if_exists xs name = (if has xs name \<or> if_exists then Some (remove name xs) else None)"

definition creating :: "(string \<times> 'v) list \<Rightarrow> string \<Rightarrow> 'v \<Rightarrow> (string \<times> 'v) list option" where
  "creating xs name v = (if has xs name then None else Some (put name v xs))"

definition type_exists :: "catalog \<Rightarrow> sql_type \<Rightarrow> bool" where
  "type_exists c type = (case type of Enum name \<Rightarrow> has (cat_types c) name | _ \<Rightarrow> True)"

definition type_used :: "catalog \<Rightarrow> string \<Rightarrow> bool" where
  "type_used c name =
     list_ex (\<lambda>(t, tab). list_ex (\<lambda>(n, column). col_type column = Enum name) (tab_columns tab)) (cat_tables c)"

text \<open>A constraint names columns of its table, and a key of a table that is there.\<close>

definition constraint_fits :: "catalog \<Rightarrow> table \<Rightarrow> constraint \<Rightarrow> bool" where
  "constraint_fits c tab con \<longleftrightarrow>
     list_all (has (tab_columns tab)) (constraint_columns con) \<and>
     (case con of
        References cs other others \<Rightarrow>
          (case map_of (cat_tables c) other of
             None \<Rightarrow> False
           | Some referenced \<Rightarrow> list_ex (\<lambda>(n, k). k = Primary_Key others) (tab_constraints referenced))
      | _ \<Rightarrow> True)"

definition add_constraint :: "catalog \<Rightarrow> string \<Rightarrow> constraint \<Rightarrow> table \<Rightarrow> table option" where
  "add_constraint c name con tab =
     (if constraint_fits c tab con
      then map_option (\<lambda>cons. tab\<lparr>tab_constraints := cons\<rparr>) (creating (tab_constraints tab) name con)
      else None)"

fun each :: "('a \<Rightarrow> 's \<Rightarrow> 's option) \<Rightarrow> 'a list \<Rightarrow> 's \<Rightarrow> 's option" where
  "each f [] s = Some s"
| "each f (x # xs) s = (case f x s of None \<Rightarrow> None | Some t \<Rightarrow> each f xs t)"

definition add_column :: "catalog \<Rightarrow> string \<Rightarrow> column_definition \<Rightarrow> table \<Rightarrow> table option" where
  "add_column c table d tab =
     (if type_exists c (col_type (def_column d))
      then (case creating (tab_columns tab) (def_name d) (def_column d) of
              None \<Rightarrow> None
            | Some columns \<Rightarrow>
                each (\<lambda>(n, con). add_constraint c n con) (own_constraints table d) (tab\<lparr>tab_columns := columns\<rparr>))
      else None)"

text \<open>A column goes with the constraints of its table that name it.\<close>

definition drop_column :: "bool \<Rightarrow> string \<Rightarrow> table \<Rightarrow> table option" where
  "drop_column if_exists name tab =
     map_option
       (\<lambda>columns.
          tab\<lparr>tab_columns := columns,
              tab_constraints := forget (\<lambda>con. list_ex (same name) (constraint_columns con)) (tab_constraints tab)\<rparr>)
       (dropping if_exists (tab_columns tab) name)"

definition set_column :: "string \<Rightarrow> (column \<Rightarrow> column) \<Rightarrow> table \<Rightarrow> table option" where
  "set_column name f tab =
     map_option (\<lambda>column. tab\<lparr>tab_columns := put name (f column) (tab_columns tab)\<rparr>) (map_of (tab_columns tab) name)"

primrec alter :: "catalog \<Rightarrow> string \<Rightarrow> alteration \<Rightarrow> table \<Rightarrow> table option" where
  "alter c table (Add_Column d) tab = add_column c table d tab"
| "alter c table (Drop_Column if_exists name) tab = drop_column if_exists name tab"
| "alter c table (Add_Constraint name con) tab = add_constraint c name con tab"
| "alter c table (Drop_Constraint if_exists name) tab =
     map_option (\<lambda>cons. tab\<lparr>tab_constraints := cons\<rparr>) (dropping if_exists (tab_constraints tab) name)"
| "alter c table (Set_Default name e) tab = set_column name (\<lambda>column. column\<lparr>col_default := Some e\<rparr>) tab"
| "alter c table (Set_Not_Null name) tab = set_column name (\<lambda>column. column\<lparr>col_not_null := True\<rparr>) tab"
| "alter c table (Set_Storage settings) tab =
     Some (tab\<lparr>tab_storage := fold (\<lambda>(k, v). put k v) settings (tab_storage tab)\<rparr>)"

definition index_columns :: "index \<Rightarrow> string list" where
  "index_columns ix =
     ix_columns ix @ ix_include ix @ (case ix_where ix of None \<Rightarrow> [] | Some w \<Rightarrow> condition_columns w)"

text \<open>The indexes of a table that name a column go with the column.\<close>

fun dropped :: "alteration \<Rightarrow> string list" where
  "dropped (Drop_Column if_exists name) = [name]"
| "dropped a = []"

definition drop_indexes :: "string \<Rightarrow> alteration list \<Rightarrow> (string \<times> index) list \<Rightarrow> (string \<times> index) list" where
  "drop_indexes table alterations =
     fold (\<lambda>name. forget (\<lambda>ix. if same (ix_table ix) table then list_ex (same name) (index_columns ix) else False))
       (concat (map dropped alterations))"

definition referenced :: "catalog \<Rightarrow> string \<Rightarrow> bool" where
  "referenced c name =
     list_ex (\<lambda>(t, tab). t \<noteq> name \<and>
                list_ex (\<lambda>(n, con). case con of References cs other others \<Rightarrow> other = name | _ \<Rightarrow> False)
                  (tab_constraints tab))
       (cat_tables c)"

text \<open>
  \<open>cron.schedule\<close> replaces the role's own job of a name or adds one, and \<open>cron.unschedule\<close> takes one away. The
  jobs are those the role sees.
\<close>

fun cron_schedule :: "string \<Rightarrow> string \<Rightarrow> string \<Rightarrow> string \<Rightarrow> job list \<Rightarrow> job list" where
  "cron_schedule me name schedule command [] =
     [\<lparr>job_name = name, job_owner = me, job_schedule = schedule, job_command = command\<rparr>]"
| "cron_schedule me name schedule command (j # js) =
     (if job_name j = name \<and> job_owner j = me then j\<lparr>job_schedule := schedule, job_command := command\<rparr> # js
      else j # cron_schedule me name schedule command js)"

definition cron_unschedule :: "string \<Rightarrow> string \<Rightarrow> job list \<Rightarrow> job list" where
  "cron_unschedule me name js = filter (\<lambda>j. \<not> (job_name j = name \<and> job_owner j = me)) js"

primrec effect :: "string \<Rightarrow> ddl \<Rightarrow> catalog \<Rightarrow> catalog option" where
  "effect me (Create_Type name labels) c =
     map_option (\<lambda>types. c\<lparr>cat_types := types\<rparr>) (creating (cat_types c) name labels)"
| "effect me (Drop_Type if_exists name) c =
     (if type_used c name then None
      else map_option (\<lambda>types. c\<lparr>cat_types := types\<rparr>) (dropping if_exists (cat_types c) name))"
| "effect me (Create_Table name columns cons) c =
     (case each (\<lambda>d. add_column c name d) columns \<lparr>tab_columns = [], tab_constraints = [], tab_storage = []\<rparr> of
        None \<Rightarrow> None
      | Some tab \<Rightarrow>
          (case each (\<lambda>(n, con). add_constraint c n con) cons tab of
             None \<Rightarrow> None
           | Some done \<Rightarrow> map_option (\<lambda>tables. c\<lparr>cat_tables := tables\<rparr>) (creating (cat_tables c) name done)))"
| "effect me (Drop_Table if_exists name) c =
     (if referenced c name then None
      else map_option (\<lambda>tables. c\<lparr>cat_tables := tables, cat_indexes := forget (\<lambda>ix. ix_table ix = name) (cat_indexes c)\<rparr>)
             (dropping if_exists (cat_tables c) name))"
| "effect me (Alter_Table name alterations) c =
     (case map_of (cat_tables c) name of
        None \<Rightarrow> None
      | Some tab \<Rightarrow>
          map_option (\<lambda>tab. c\<lparr>cat_tables := put name tab (cat_tables c),
                              cat_indexes := drop_indexes name alterations (cat_indexes c)\<rparr>)
            (each (alter c name) alterations tab))"
| "effect me (Create_Index concurrently name ix) c =
     (case map_of (cat_tables c) (ix_table ix) of
        None \<Rightarrow> None
      | Some tab \<Rightarrow>
          if list_all (has (tab_columns tab)) (index_columns ix)
          then map_option (\<lambda>indexes. c\<lparr>cat_indexes := indexes\<rparr>) (creating (cat_indexes c) name ix)
          else None)"
| "effect me (Drop_Index concurrently if_exists name) c =
     map_option (\<lambda>indexes. c\<lparr>cat_indexes := indexes\<rparr>) (dropping if_exists (cat_indexes c) name)"
| "effect me (Create_Function replacing signature f) c =
     (if has (cat_functions c) signature \<and> \<not> replacing then None
      else Some (c\<lparr>cat_functions := put signature f (cat_functions c)\<rparr>))"
| "effect me (Drop_Function if_exists signature) c =
     map_option (\<lambda>functions. c\<lparr>cat_functions := functions\<rparr>) (dropping if_exists (cat_functions c) signature)"
| "effect me (Write_Rows tables) c = (if list_all (has (cat_tables c)) tables then Some c else None)"
| "effect me (Cron_Schedule name schedule command) c =
     Some (c\<lparr>cat_cron := map_option (cron_schedule me name schedule command) (cat_cron c)\<rparr>)"
| "effect me (Cron_Unschedule name) c =
     Some (c\<lparr>cat_cron := map_option (cron_unschedule me name) (cat_cron c)\<rparr>)"

text \<open>
  The conditions a statement puts on the rows that are there: PostgreSQL checks them, and refuses the statement
  where a row fails one. A new table has no rows, and a new column holds its default in each of them.
\<close>

fun alteration_demands :: "string \<Rightarrow> alteration \<Rightarrow> string list" where
  "alteration_demands table (Add_Column d) =
     (if col_not_null (def_column d) \<and> col_default (def_column d) = None then [def_name d] else []) @
     map fst (own_constraints table d)"
| "alteration_demands table (Add_Constraint name con) = [name]"
| "alteration_demands table (Set_Not_Null name) = [name]"
| "alteration_demands table a = []"

fun demanded :: "ddl \<Rightarrow> (string \<times> string) list" where
  "demanded (Alter_Table name alterations) = map (Pair name) (concat (map (alteration_demands name) alterations))"
| "demanded (Create_Index concurrently name ix) = (if ix_unique ix then [(ix_table ix, name)] else [])"
| "demanded statement = []"

definition rows_fail :: "(string \<times> string) list \<Rightarrow> ddl \<Rightarrow> bool" where
  "rows_fail unmet statement \<longleftrightarrow> list_ex (\<lambda>(t, n). list_ex (\<lambda>(t', n'). same t t' \<and> same n n') unmet) (demanded statement)"

definition execute :: "string \<Rightarrow> ddl \<Rightarrow> catalog \<Rightarrow> catalog option" where
  "execute me statement c = (if rows_fail (cat_unmet c) statement then None else effect me statement c)"

section \<open>Migration files\<close>

text \<open>
  A file is sent in parts, at its \<^verbatim>\<open>bun:split\<close> marks. The statements of one part are one transaction, which a
  concurrent statement refuses, and which leaves nothing where a statement fails.
\<close>

fun concurrent :: "ddl \<Rightarrow> bool" where
  "concurrent (Create_Index concurrently name ix) = concurrently"
| "concurrent (Drop_Index concurrently if_exists name) = concurrently"
| "concurrent statement = False"

definition run_part :: "string \<Rightarrow> ddl list \<Rightarrow> catalog \<Rightarrow> catalog option" where
  "run_part me part c =
     (if list_ex concurrent part \<and> length part > 1 then None else each (execute me) part c)"

definition run_file :: "string \<Rightarrow> ddl list list \<Rightarrow> catalog \<Rightarrow> catalog option" where
  "run_file me = each (run_part me)"

record migration =
  mig_name :: string
  mig_up :: "ddl list list"
  mig_down :: "ddl list list"

definition migrate :: "string \<Rightarrow> migration list \<Rightarrow> catalog \<Rightarrow> catalog option" where
  "migrate me = each (\<lambda>m. run_file me (mig_up m))"

lemma each_append: "each f (xs @ ys) s = (case each f xs s of None \<Rightarrow> None | Some t \<Rightarrow> each f ys t)"
  by (induction xs arbitrary: s) (auto split: option.splits)

end
