(* ===== verification/Migrations.thy ===== *)
theory Migrations
  imports Schema
begin

text \<open>
  The migrations of \<^verbatim>\<open>internal/models/migrations\<close>, file by file, and the jobs of its
  \<^verbatim>\<open>cron/jobs.sql\<close>. \<open>schema\<close> is the name of the schema they run in, as \<^verbatim>\<open>format('%I')\<close> writes it.
\<close>

section \<open>Words of the files\<close>

definition index_on :: "string \<Rightarrow> string list \<Rightarrow> index" where
  "index_on table columns =
     \<lparr>ix_table = table, ix_unique = False, ix_columns = columns, ix_include = [], ix_where = None, ix_valid = True\<rparr>"

definition unique :: "index \<Rightarrow> index" where
  "unique ix = ix\<lparr>ix_unique := True\<rparr>"

definition carrying :: "string list \<Rightarrow> index \<Rightarrow> index" where
  "carrying columns ix = ix\<lparr>ix_include := columns\<rparr>"

definition where_rows :: "condition \<Rightarrow> index \<Rightarrow> index" where
  "where_rows c ix = ix\<lparr>ix_where := Some c\<rparr>"

definition purge_command :: "string \<Rightarrow> string" where
  "purge_command schema = ''SELECT '' @ schema @ ''.purge_settled_generations()''"

definition text_lines :: "string list \<Rightarrow> string" where
  "text_lines ls = concat (map (\<lambda>l. CHR 0x0A # l) ls)"

definition purge_runs_command :: string where
  "purge_runs_command =
     text_lines
       [''        DELETE FROM cron.job_run_details'',
        ''        WHERE end_time < now() - interval '7 days'' @ [CHR 0x27],
        ''          AND jobid IN (SELECT jobid FROM cron.job WHERE jobname LIKE 'service-genai-%')'',
        ''      '']"

section \<open>The files\<close>

definition generations_up :: "ddl list list" where
  "generations_up =
  [[Create_Type ''generation_status'' [''pending'', ''running'', ''succeeded'', ''failed'', ''cancelled''],
    Create_Table ''generations''
      [defaulting ''uuidv7()'' (primary (col ''id'' Uuid)),
       required (col ''owner_id'' Uuid),
       checked (Differ (Col ''purpose'') (Str [])) (required (col ''purpose'' Text)),
       checked (Differ (Col ''provider'') (Str [])) (required (col ''provider'' Text)),
       required (col ''request_key'' Bytea),
       checked (Is_Object (Col ''payload'')) (required (col ''payload'' Json)),
       checked (Either (Is_Null (Col ''error'')) (Differ (Col ''error'') (Str []))) (col ''error'' Text),
       defaulting ''pending'' (required (col ''status'' (Enum ''generation_status''))),
       checked (At_Most (Num 0) (Col ''attempt'')) (defaulting ''0'' (required (col ''attempt'' Smallint))),
       checked (At_Most (Num 1) (Col ''max_attempts'')) (defaulting ''1'' (required (col ''max_attempts'' Smallint))),
       defaulting ''clock_timestamp()'' (required (col ''run_at'' Timestamptz)),
       col ''start_requested_at'' Timestamptz,
       checked (Either (Is_Null (Col ''provider_call_id'')) (Differ (Col ''provider_call_id'') (Str [])))
         (col ''provider_call_id'' Text),
       col ''cancel_requested_at'' Timestamptz,
       defaulting ''clock_timestamp()'' (required (col ''checked_at'' Timestamptz)),
       defaulting ''clock_timestamp()'' (required (col ''created_at'' Timestamptz)),
       defaulting ''clock_timestamp()'' (required (col ''updated_at'' Timestamptz)),
       col ''settled_at'' Timestamptz,
       col ''expires_at'' Timestamptz]
      [(''generations_call_matches_status'', Check
          (Either (Neg (Member (Col ''status'') [''pending'', ''running'']))
            (Agree (Member (Col ''status'') [''running'']) (Not_Null (Col ''provider_call_id''))))),
       (''generations_terminal_fields'', Check
          (Agree (Member (Col ''status'') [''succeeded'', ''failed'', ''cancelled''])
            (Both (Not_Null (Col ''settled_at'')) (Not_Null (Col ''expires_at'')))))],
    Create_Index False ''generations_request_key_idx''
      (where_rows (Neg (Member (Col ''status'') [''failed'', ''cancelled'']))
        (unique (index_on ''generations'' [''request_key'']))),
    Create_Index False ''generations_check_idx'' (where_rows (Member (Col ''status'') [''pending'', ''running'']) (index_on ''generations'' [''checked_at''])),
    Create_Index False ''generations_retention_idx''
      (where_rows (Not_Null (Col ''expires_at'')) (index_on ''generations'' [''expires_at''])),
    Alter_Table ''generations''
      [Set_Storage
        [(''autovacuum_vacuum_scale_factor'', ''0.02''), (''autovacuum_vacuum_threshold'', ''25''),
         (''autovacuum_analyze_scale_factor'', ''0.02'')]],
    Create_Table ''generation_attempts''
      [referencing ''generations'' ''id'' (required (col ''generation_id'' Uuid)),
       checked (At_Most (Num 1) (Col ''attempt'')) (required (col ''attempt'' Smallint)),
       required (col ''response'' Json),
       defaulting ''clock_timestamp()'' (required (col ''created_at'' Timestamptz))]
      [(''generation_attempts_pkey'', Primary_Key [''generation_id'', ''attempt''])]]]"

definition generations_down :: "ddl list list" where
  "generations_down =
  [[Drop_Table True ''generation_attempts'', Drop_Table True ''generations'', Drop_Type True ''generation_status'']]"

definition generation_usage_up :: "ddl list list" where
  "generation_usage_up =
  [[Create_Table ''generation_usage''
      [required (col ''generation_id'' Uuid),
       checked (At_Most (Num 1) (Col ''attempt'')) (required (col ''attempt'' Smallint)),
       required (col ''owner_id'' Uuid),
       checked (Differ (Col ''purpose'') (Str [])) (required (col ''purpose'' Text)),
       checked (Differ (Col ''provider'') (Str [])) (required (col ''provider'' Text)),
       checked (Differ (Col ''model'') (Str [])) (required (col ''model'' Text)),
       checked (Differ (Col ''class'') (Str [])) (required (col ''class'' Text)),
       checked (Either (Is_Null (Col ''tier'')) (Differ (Col ''tier'') (Str []))) (col ''tier'' Text),
       checked (At_Most (Num 0) (Col ''input_tokens'')) (required (col ''input_tokens'' Bigint)),
       checked (At_Most (Num 0) (Col ''cached_input_tokens''))
         (defaulting ''0'' (required (col ''cached_input_tokens'' Bigint))),
       checked (At_Most (Num 0) (Col ''cache_write_tokens''))
         (defaulting ''0'' (required (col ''cache_write_tokens'' Bigint))),
       checked (At_Most (Num 0) (Col ''output_tokens'')) (required (col ''output_tokens'' Bigint)),
       checked (At_Most (Num 0) (Col ''reasoning_tokens''))
         (defaulting ''0'' (required (col ''reasoning_tokens'' Bigint))),
       required (col ''started_at'' Timestamptz),
       col ''completed_at'' Timestamptz,
       defaulting ''clock_timestamp()'' (required (col ''created_at'' Timestamptz))]
      [(''generation_usage_pkey'', Primary_Key [''generation_id'', ''attempt'']),
       (''generation_usage_cached_within_input'', Check (At_Most (Col ''cached_input_tokens'') (Col ''input_tokens''))),
       (''generation_usage_reasoning_within_output'', Check (At_Most (Col ''reasoning_tokens'') (Col ''output_tokens'')))],
    Create_Index False ''generation_usage_owner_idx'' (index_on ''generation_usage'' [''owner_id'', ''created_at'']),
    Create_Index False ''generation_usage_owner_purpose_idx''
      (index_on ''generation_usage'' [''owner_id'', ''purpose'', ''created_at''])]]"

definition generation_usage_down :: "ddl list list" where
  "generation_usage_down =
  [[Drop_Table True ''generation_usage'']]"

definition generation_live_owner_index_up :: "ddl list list" where
  "generation_live_owner_index_up =
  [[Create_Index False ''generations_live_owner_idx'' (where_rows (Member (Col ''status'') [''pending'', ''running'']) (index_on ''generations'' [''owner_id'']))]]"

definition generation_live_owner_index_down :: "ddl list list" where
  "generation_live_owner_index_down =
  [[Drop_Index False True ''generations_live_owner_idx'']]"

definition generation_traceparent_up :: "ddl list list" where
  "generation_traceparent_up =
  [[Alter_Table ''generations'' [Add_Column (col ''traceparent'' Text)]]]"

definition generation_traceparent_down :: "ddl list list" where
  "generation_traceparent_down =
  [[Alter_Table ''generations'' [Drop_Column True ''traceparent'']]]"

definition generation_usage_covering_indexes_up :: "ddl list list" where
  "generation_usage_covering_indexes_up =
  [[Drop_Index False False ''generation_usage_owner_idx'',
    Drop_Index False False ''generation_usage_owner_purpose_idx'',
    Create_Index False ''generation_usage_owner_idx''
      (carrying [''input_tokens'', ''output_tokens''] (index_on ''generation_usage'' [''owner_id'', ''created_at''])),
    Create_Index False ''generation_usage_owner_purpose_idx''
      (carrying [''input_tokens'', ''output_tokens''] (index_on ''generation_usage'' [''owner_id'', ''purpose'', ''created_at'']))]]"

definition generation_usage_covering_indexes_down :: "ddl list list" where
  "generation_usage_covering_indexes_down =
  [[Drop_Index False False ''generation_usage_owner_idx'',
    Drop_Index False False ''generation_usage_owner_purpose_idx'',
    Create_Index False ''generation_usage_owner_idx'' (index_on ''generation_usage'' [''owner_id'', ''created_at'']),
    Create_Index False ''generation_usage_owner_purpose_idx''
      (index_on ''generation_usage'' [''owner_id'', ''purpose'', ''created_at''])]]"

definition generation_payloads_up :: "ddl list list" where
  "generation_payloads_up =
  [[Create_Table ''generation_payloads''
      [referencing ''generations'' ''id'' (primary (col ''generation_id'' Uuid)),
       checked (Is_Object (Col ''payload'')) (required (col ''payload'' Json))]
      [],
    Write_Rows [''generation_payloads'', ''generations''],
    Alter_Table ''generations'' [Drop_Column False ''payload'']]]"

definition generation_payloads_down :: "ddl list list" where
  "generation_payloads_down =
  [[Alter_Table ''generations''
      [Add_Column (checked_as ''generations_payload_check'' (Is_Object (Col ''payload'')) (col ''payload'' Json))],
    Write_Rows [''generations'', ''generation_payloads''],
    Alter_Table ''generations'' [Set_Not_Null ''payload''],
    Drop_Table False ''generation_payloads'']]"

definition generation_outcome_unknown_up :: "ddl list list" where
  "generation_outcome_unknown_up =
  [[Alter_Table ''generations''
      [Add_Column (col ''outcome_unknown_at'' Timestamptz),
       Add_Constraint ''generations_outcome_unknown_failed''
         (Check (Either (Is_Null (Col ''outcome_unknown_at'')) (Member (Col ''status'') [''failed''])))],
    Create_Index False ''generations_outcome_unknown_owner_idx''
      (where_rows (Not_Null (Col ''outcome_unknown_at''))
        (index_on ''generations'' [''owner_id'', ''outcome_unknown_at'']))]]"

definition generation_outcome_unknown_down :: "ddl list list" where
  "generation_outcome_unknown_down =
  [[Drop_Index False True ''generations_outcome_unknown_owner_idx'',
    Alter_Table ''generations''
      [Drop_Constraint True ''generations_outcome_unknown_failed'', Drop_Column True ''outcome_unknown_at'']]]"

definition generation_streamed_up :: "ddl list list" where
  "generation_streamed_up =
  [[Alter_Table ''generations'' [Add_Column (defaulting ''false'' (required (col ''streamed'' Boolean)))]]]"

definition generation_streamed_down :: "ddl list list" where
  "generation_streamed_down =
  [[Alter_Table ''generations'' [Drop_Column True ''streamed'']]]"

definition generation_provider_call_index_up :: "ddl list list" where
  "generation_provider_call_index_up =
  [[Create_Index False ''generations_provider_call_idx''
      (where_rows (Member (Col ''status'') [''running'']) (index_on ''generations'' [''provider'', ''provider_call_id'']))]]"

definition generation_provider_call_index_down :: "ddl list list" where
  "generation_provider_call_index_down =
  [[Drop_Index False True ''generations_provider_call_idx'']]"

definition generation_first_start_up :: "ddl list list" where
  "generation_first_start_up =
  [[Alter_Table ''generations'' [Add_Column (col ''first_start_requested_at'' Timestamptz)]]]"

definition generation_first_start_down :: "ddl list list" where
  "generation_first_start_down =
  [[Alter_Table ''generations'' [Drop_Column True ''first_start_requested_at'']]]"

definition generation_purge_up :: "string \<Rightarrow> ddl list list" where
  "generation_purge_up schema =
  [[Create_Function False ''purge_settled_generations()''
      \<lparr>fn_default = None, fn_pinned = False, fn_body = Purge_Rows 10000\<rparr>,
    Cron_Schedule ''service-genai-purge-settled'' ''* * * * *'' (purge_command schema)]]"

definition generation_purge_down :: "ddl list list" where
  "generation_purge_down =
  [[Cron_Unschedule ''service-genai-purge-settled'', Drop_Function True ''purge_settled_generations()'']]"

definition generation_purge_batch_up :: "ddl list list" where
  "generation_purge_batch_up =
  [[Create_Function True ''purge_settled_generations()''
      \<lparr>fn_default = None, fn_pinned = True, fn_body = Purge_Rows 1000\<rparr>]]"

definition generation_purge_batch_down :: "ddl list list" where
  "generation_purge_batch_down =
  [[Create_Function True ''purge_settled_generations()''
      \<lparr>fn_default = None, fn_pinned = False, fn_body = Purge_Rows 10000\<rparr>]]"

definition generation_purge_schedule_up :: "string \<Rightarrow> ddl list list" where
  "generation_purge_schedule_up schema =
  [[Cron_Schedule ''service-genai-purge-settled'' ''10 seconds'' (purge_command schema),
    Cron_Schedule ''service-genai-purge-cron-runs'' ''0 4 * * *'' purge_runs_command]]"

definition generation_purge_schedule_down :: "string \<Rightarrow> ddl list list" where
  "generation_purge_schedule_down schema =
  [[Cron_Unschedule ''service-genai-purge-cron-runs'',
    Cron_Schedule ''service-genai-purge-settled'' ''* * * * *'' (purge_command schema)]]"

definition generation_purge_byte_budget_up :: "ddl list list" where
  "generation_purge_byte_budget_up =
  [[Drop_Function False ''purge_settled_generations()'',
    Create_Function False ''purge_settled_generations(bigint)''
      \<lparr>fn_default = Some 67108864, fn_pinned = True, fn_body = Purge_Bytes 1000 [''generation_payloads'', ''generation_attempts'']\<rparr>]]"

definition generation_purge_byte_budget_down :: "ddl list list" where
  "generation_purge_byte_budget_down =
  [[Drop_Function True ''purge_settled_generations(bigint)'',
    Create_Function True ''purge_settled_generations()''
      \<lparr>fn_default = None, fn_pinned = True, fn_body = Purge_Rows 1000\<rparr>]]"

definition generation_failure_class_up :: "ddl list list" where
  "generation_failure_class_up =
  [[Create_Type ''generation_failure'' [''rejected'', ''provider_failed'', ''not_started'', ''outcome_unknown''],
    Alter_Table ''generations''
      [Add_Column (col ''failure'' (Enum ''generation_failure'')),
       Add_Constraint ''generations_failure_failed''
         (Check (Either (Is_Null (Col ''failure'')) (Member (Col ''status'') [''failed''])))]]]"

definition generation_failure_class_down :: "ddl list list" where
  "generation_failure_class_down =
  [[Alter_Table ''generations'' [Drop_Constraint True ''generations_failure_failed'', Drop_Column True ''failure''],
    Drop_Type True ''generation_failure'']]"

definition generation_attempt_default_up :: "ddl list list" where
  "generation_attempt_default_up =
  [[Alter_Table ''generations'' [Set_Default ''attempt'' ''1'']]]"

definition generation_attempt_default_down :: "ddl list list" where
  "generation_attempt_default_down =
  [[Alter_Table ''generations'' [Set_Default ''attempt'' ''0'']]]"

definition generation_purge_attempts_budget_up :: "ddl list list" where
  "generation_purge_attempts_budget_up =
  [[Create_Function True ''purge_settled_generations(bigint)''
      \<lparr>fn_default = Some 67108864, fn_pinned = True, fn_body = Purge_Bytes 1000 [''generation_attempts'']\<rparr>]]"

definition generation_purge_attempts_budget_down :: "ddl list list" where
  "generation_purge_attempts_budget_down =
  [[Create_Function True ''purge_settled_generations(bigint)''
      \<lparr>fn_default = Some 67108864, fn_pinned = True, fn_body = Purge_Bytes 1000 [''generation_payloads'', ''generation_attempts'']\<rparr>]]"

definition generation_sweep_index_up :: "ddl list list" where
  "generation_sweep_index_up =
  [[Drop_Index True True ''generations_sweep_idx''],
   [Create_Index True ''generations_sweep_idx'' (where_rows (Member (Col ''status'') [''pending'', ''running'']) (index_on ''generations'' [''id'']))]]"

definition generation_sweep_index_down :: "ddl list list" where
  "generation_sweep_index_down =
  [[Drop_Index True True ''generations_sweep_idx'']]"

definition generation_unused_indexes_up :: "ddl list list" where
  "generation_unused_indexes_up =
  [[Drop_Index True True ''generations_check_idx''],
   [Drop_Index True True ''generations_provider_call_idx'']]"

definition generation_unused_indexes_down :: "ddl list list" where
  "generation_unused_indexes_down =
  [[Drop_Index True True ''generations_provider_call_idx''],
   [Create_Index True ''generations_provider_call_idx''
      (where_rows (Member (Col ''status'') [''running'']) (index_on ''generations'' [''provider'', ''provider_call_id'']))],
   [Drop_Index True True ''generations_check_idx''],
   [Create_Index True ''generations_check_idx'' (where_rows (Member (Col ''status'') [''pending'', ''running'']) (index_on ''generations'' [''checked_at'']))]]"

definition generation_payloads_drop_up :: "ddl list list" where
  "generation_payloads_drop_up =
  [[Drop_Table False ''generation_payloads'']]"

definition generation_payloads_drop_down :: "ddl list list" where
  "generation_payloads_drop_down =
  [[Create_Table ''generation_payloads''
      [referencing ''generations'' ''id'' (primary (col ''generation_id'' Uuid)),
       checked (Is_Object (Col ''payload'')) (required (col ''payload'' Json))]
      [],
    Write_Rows [''generation_payloads'', ''generations'']]]"

definition generation_unused_columns_up :: "ddl list list" where
  "generation_unused_columns_up =
  [[Alter_Table ''generations''
      [Drop_Column False ''checked_at'', Drop_Column False ''run_at'', Drop_Column False ''attempt'',
       Drop_Column False ''max_attempts'', Drop_Column False ''first_start_requested_at'']]]"

definition generation_unused_columns_down :: "ddl list list" where
  "generation_unused_columns_down =
  [[Alter_Table ''generations''
      [Add_Column (defaulting ''now()'' (required (col ''checked_at'' Timestamptz))),
       Add_Column (defaulting ''now()'' (required (col ''run_at'' Timestamptz))),
       Add_Column (checked_as ''generations_attempt_check'' (At_Most (Num 0) (Col ''attempt''))
         (defaulting ''1'' (required (col ''attempt'' Smallint)))),
       Add_Column (checked_as ''generations_max_attempts_check'' (At_Most (Num 1) (Col ''max_attempts''))
         (defaulting ''1'' (required (col ''max_attempts'' Smallint)))),
       Add_Column (col ''first_start_requested_at'' Timestamptz)],
    Alter_Table ''generations''
      [Set_Default ''checked_at'' ''clock_timestamp()'', Set_Default ''run_at'' ''clock_timestamp()'']]]"

definition generation_usage_owner_index_drop_up :: "ddl list list" where
  "generation_usage_owner_index_drop_up =
  [[Drop_Index True True ''generation_usage_owner_idx'']]"

definition generation_usage_owner_index_drop_down :: "ddl list list" where
  "generation_usage_owner_index_drop_down =
  [[Drop_Index True True ''generation_usage_owner_idx''],
   [Create_Index True ''generation_usage_owner_idx''
      (carrying [''input_tokens'', ''output_tokens''] (index_on ''generation_usage'' [''owner_id'', ''created_at'']))]]"

text \<open>
  In the order of their names, which is the order they run in: up to the one that moves the payloads out of the
  generations, up to the default of the attempt, up to the drop of the indexes no query reads, and those after.
\<close>

definition table_migrations :: "migration list" where
  "table_migrations =
     [\<lparr>mig_name = ''20261011040841_generations'',
        mig_up = generations_up, mig_down = generations_down\<rparr>,
      \<lparr>mig_name = ''20261011180734_generation_usage'',
        mig_up = generation_usage_up, mig_down = generation_usage_down\<rparr>,
      \<lparr>mig_name = ''20261011184851_generation_live_owner_index'',
        mig_up = generation_live_owner_index_up, mig_down = generation_live_owner_index_down\<rparr>,
      \<lparr>mig_name = ''20261011204406_generation_traceparent'',
        mig_up = generation_traceparent_up, mig_down = generation_traceparent_down\<rparr>,
      \<lparr>mig_name = ''20261011213326_generation_usage_covering_indexes'',
        mig_up = generation_usage_covering_indexes_up, mig_down = generation_usage_covering_indexes_down\<rparr>,
      \<lparr>mig_name = ''20261011213327_generation_payloads'',
        mig_up = generation_payloads_up, mig_down = generation_payloads_down\<rparr>]"

definition purge_migrations :: "string \<Rightarrow> migration list" where
  "purge_migrations schema =
     [\<lparr>mig_name = ''20261011225339_generation_outcome_unknown'',
        mig_up = generation_outcome_unknown_up, mig_down = generation_outcome_unknown_down\<rparr>,
      \<lparr>mig_name = ''20261011234813_generation_streamed'',
        mig_up = generation_streamed_up, mig_down = generation_streamed_down\<rparr>,
      \<lparr>mig_name = ''20261012004931_generation_provider_call_index'',
        mig_up = generation_provider_call_index_up, mig_down = generation_provider_call_index_down\<rparr>,
      \<lparr>mig_name = ''20261012020438_generation_first_start'',
        mig_up = generation_first_start_up, mig_down = generation_first_start_down\<rparr>,
      \<lparr>mig_name = ''20261013220656_generation_purge'',
        mig_up = generation_purge_up schema, mig_down = generation_purge_down\<rparr>,
      \<lparr>mig_name = ''20261014011954_generation_purge_batch'',
        mig_up = generation_purge_batch_up, mig_down = generation_purge_batch_down\<rparr>,
      \<lparr>mig_name = ''20261014021047_generation_purge_schedule'',
        mig_up = generation_purge_schedule_up schema, mig_down = generation_purge_schedule_down schema\<rparr>,
      \<lparr>mig_name = ''20261014064407_generation_purge_byte_budget'',
        mig_up = generation_purge_byte_budget_up, mig_down = generation_purge_byte_budget_down\<rparr>,
      \<lparr>mig_name = ''20261105194756_generation_failure_class'',
        mig_up = generation_failure_class_up, mig_down = generation_failure_class_down\<rparr>,
      \<lparr>mig_name = ''20261106001245_generation_attempt_default'',
        mig_up = generation_attempt_default_up, mig_down = generation_attempt_default_down\<rparr>]"

definition index_migrations :: "migration list" where
  "index_migrations =
     [\<lparr>mig_name = ''20261106011433_generation_purge_attempts_budget'',
        mig_up = generation_purge_attempts_budget_up, mig_down = generation_purge_attempts_budget_down\<rparr>,
      \<lparr>mig_name = ''20261106011507_generation_sweep_index'',
        mig_up = generation_sweep_index_up, mig_down = generation_sweep_index_down\<rparr>,
      \<lparr>mig_name = ''20261106011528_generation_unused_indexes'',
        mig_up = generation_unused_indexes_up, mig_down = generation_unused_indexes_down\<rparr>]"

definition drop_migrations :: "migration list" where
  "drop_migrations =
     [\<lparr>mig_name = ''20261106011540_generation_payloads_drop'',
        mig_up = generation_payloads_drop_up, mig_down = generation_payloads_drop_down\<rparr>,
      \<lparr>mig_name = ''20261106011552_generation_unused_columns'',
        mig_up = generation_unused_columns_up, mig_down = generation_unused_columns_down\<rparr>,
      \<lparr>mig_name = ''20261106021241_generation_usage_owner_index_drop'',
        mig_up = generation_usage_owner_index_drop_up, mig_down = generation_usage_owner_index_drop_down\<rparr>]"

definition migrations :: "string \<Rightarrow> migration list" where
  "migrations schema = table_migrations @ purge_migrations schema @ index_migrations @ drop_migrations"

end
