(* ===== verification/Snapshots.thy ===== *)
theory Snapshots
  imports Migrations
begin

text \<open>
  The schema after a migration, as the snapshots of \<^verbatim>\<open>testdata/schema\<close> record it: after
  \<^verbatim>\<open>20261011213327\<close>, which moves the payloads out of the generations, after \<^verbatim>\<open>20261106001245\<close>, which sets
  the default of the attempt, after \<^verbatim>\<open>20261106011528\<close>, which drops two indexes, and after the last. A snapshot says of a function only that it is there, and
  has no jobs: these are the ones the files create.
\<close>

section \<open>Columns\<close>

definition nullable :: "sql_type \<Rightarrow> column" where
  "nullable type = \<lparr>col_type = type, col_not_null = False, col_default = None\<rparr>"

definition needed :: "sql_type \<Rightarrow> column" where
  "needed type = \<lparr>col_type = type, col_not_null = True, col_default = None\<rparr>"

definition with_default :: "string \<Rightarrow> column \<Rightarrow> column" where
  "with_default e c = c\<lparr>col_default := Some e\<rparr>"

section \<open>Tables\<close>

definition generation_attempts_table :: table where
  "generation_attempts_table =
     \<lparr>tab_columns =
        [(''attempt'', needed Smallint),
         (''created_at'', with_default ''clock_timestamp()'' (needed Timestamptz)),
         (''generation_id'', needed Uuid), (''response'', needed Json)],
      tab_constraints =
        [(''generation_attempts_attempt_check'', Check (At_Most (Num 1) (Col ''attempt''))),
         (''generation_attempts_generation_id_fkey'', References [''generation_id''] ''generations'' [''id'']),
         (''generation_attempts_pkey'', Primary_Key [''generation_id'', ''attempt''])],
      tab_storage =
        []\<rparr>"

definition generation_payloads_table :: table where
  "generation_payloads_table =
     \<lparr>tab_columns =
        [(''generation_id'', needed Uuid), (''payload'', needed Json)],
      tab_constraints =
        [(''generation_payloads_generation_id_fkey'', References [''generation_id''] ''generations'' [''id'']),
         (''generation_payloads_payload_check'', Check (Is_Object (Col ''payload''))),
         (''generation_payloads_pkey'', Primary_Key [''generation_id''])],
      tab_storage =
        []\<rparr>"

definition generation_usage_table :: table where
  "generation_usage_table =
     \<lparr>tab_columns =
        [(''attempt'', needed Smallint), (''cache_write_tokens'', with_default ''0'' (needed Bigint)),
         (''cached_input_tokens'', with_default ''0'' (needed Bigint)), (''class'', needed Text),
         (''completed_at'', nullable Timestamptz),
         (''created_at'', with_default ''clock_timestamp()'' (needed Timestamptz)),
         (''generation_id'', needed Uuid), (''input_tokens'', needed Bigint), (''model'', needed Text),
         (''output_tokens'', needed Bigint), (''owner_id'', needed Uuid), (''provider'', needed Text),
         (''purpose'', needed Text), (''reasoning_tokens'', with_default ''0'' (needed Bigint)),
         (''started_at'', needed Timestamptz), (''tier'', nullable Text)],
      tab_constraints =
        [(''generation_usage_attempt_check'', Check (At_Most (Num 1) (Col ''attempt''))),
         (''generation_usage_cache_write_tokens_check'', Check (At_Most (Num 0) (Col ''cache_write_tokens''))),
         (''generation_usage_cached_input_tokens_check'', Check (At_Most (Num 0) (Col ''cached_input_tokens''))),
         (''generation_usage_cached_within_input'', Check (At_Most (Col ''cached_input_tokens'') (Col ''input_tokens''))),
         (''generation_usage_class_check'', Check (Differ (Col ''class'') (Str []))),
         (''generation_usage_input_tokens_check'', Check (At_Most (Num 0) (Col ''input_tokens''))),
         (''generation_usage_model_check'', Check (Differ (Col ''model'') (Str []))),
         (''generation_usage_output_tokens_check'', Check (At_Most (Num 0) (Col ''output_tokens''))),
         (''generation_usage_pkey'', Primary_Key [''generation_id'', ''attempt'']),
         (''generation_usage_provider_check'', Check (Differ (Col ''provider'') (Str []))),
         (''generation_usage_purpose_check'', Check (Differ (Col ''purpose'') (Str []))),
         (''generation_usage_reasoning_tokens_check'', Check (At_Most (Num 0) (Col ''reasoning_tokens''))),
         (''generation_usage_reasoning_within_output'', Check (At_Most (Col ''reasoning_tokens'') (Col ''output_tokens''))),
         (''generation_usage_tier_check'', Check (Either (Is_Null (Col ''tier'')) (Differ (Col ''tier'') (Str []))))],
      tab_storage =
        []\<rparr>"

definition generations_table_payloads :: table where
  "generations_table_payloads =
     \<lparr>tab_columns =
        [(''attempt'', with_default ''0'' (needed Smallint)), (''cancel_requested_at'', nullable Timestamptz),
         (''checked_at'', with_default ''clock_timestamp()'' (needed Timestamptz)),
         (''created_at'', with_default ''clock_timestamp()'' (needed Timestamptz)), (''error'', nullable Text),
         (''expires_at'', nullable Timestamptz), (''id'', with_default ''uuidv7()'' (needed Uuid)),
         (''max_attempts'', with_default ''1'' (needed Smallint)), (''owner_id'', needed Uuid),
         (''provider'', needed Text), (''provider_call_id'', nullable Text), (''purpose'', needed Text),
         (''request_key'', needed Bytea), (''run_at'', with_default ''clock_timestamp()'' (needed Timestamptz)),
         (''settled_at'', nullable Timestamptz), (''start_requested_at'', nullable Timestamptz),
         (''status'', with_default ''pending'' (needed (Enum ''generation_status''))),
         (''traceparent'', nullable Text),
         (''updated_at'', with_default ''clock_timestamp()'' (needed Timestamptz))],
      tab_constraints =
        [(''generations_attempt_check'', Check (At_Most (Num 0) (Col ''attempt''))),
         (''generations_call_matches_status'', Check (Either (Neg (Member (Col ''status'') [''pending'', ''running''])) (Agree (Member (Col ''status'') [''running'']) (Not_Null (Col ''provider_call_id''))))),
         (''generations_error_check'', Check (Either (Is_Null (Col ''error'')) (Differ (Col ''error'') (Str [])))),
         (''generations_max_attempts_check'', Check (At_Most (Num 1) (Col ''max_attempts''))),
         (''generations_pkey'', Primary_Key [''id'']),
         (''generations_provider_call_id_check'', Check (Either (Is_Null (Col ''provider_call_id'')) (Differ (Col ''provider_call_id'') (Str [])))),
         (''generations_provider_check'', Check (Differ (Col ''provider'') (Str []))),
         (''generations_purpose_check'', Check (Differ (Col ''purpose'') (Str []))),
         (''generations_terminal_fields'', Check (Agree (Member (Col ''status'') [''succeeded'', ''failed'', ''cancelled'']) (Both (Not_Null (Col ''settled_at'')) (Not_Null (Col ''expires_at'')))))],
      tab_storage =
        [(''autovacuum_analyze_scale_factor'', ''0.02''), (''autovacuum_vacuum_scale_factor'', ''0.02''),
         (''autovacuum_vacuum_threshold'', ''25'')]\<rparr>"

definition generations_table_default :: table where
  "generations_table_default =
     \<lparr>tab_columns =
        [(''attempt'', with_default ''1'' (needed Smallint)), (''cancel_requested_at'', nullable Timestamptz),
         (''checked_at'', with_default ''clock_timestamp()'' (needed Timestamptz)),
         (''created_at'', with_default ''clock_timestamp()'' (needed Timestamptz)), (''error'', nullable Text),
         (''expires_at'', nullable Timestamptz), (''failure'', nullable (Enum ''generation_failure'')),
         (''first_start_requested_at'', nullable Timestamptz),
         (''id'', with_default ''uuidv7()'' (needed Uuid)),
         (''max_attempts'', with_default ''1'' (needed Smallint)),
         (''outcome_unknown_at'', nullable Timestamptz), (''owner_id'', needed Uuid),
         (''provider'', needed Text), (''provider_call_id'', nullable Text), (''purpose'', needed Text),
         (''request_key'', needed Bytea), (''run_at'', with_default ''clock_timestamp()'' (needed Timestamptz)),
         (''settled_at'', nullable Timestamptz), (''start_requested_at'', nullable Timestamptz),
         (''status'', with_default ''pending'' (needed (Enum ''generation_status''))),
         (''streamed'', with_default ''false'' (needed Boolean)), (''traceparent'', nullable Text),
         (''updated_at'', with_default ''clock_timestamp()'' (needed Timestamptz))],
      tab_constraints =
        [(''generations_attempt_check'', Check (At_Most (Num 0) (Col ''attempt''))),
         (''generations_call_matches_status'', Check (Either (Neg (Member (Col ''status'') [''pending'', ''running''])) (Agree (Member (Col ''status'') [''running'']) (Not_Null (Col ''provider_call_id''))))),
         (''generations_error_check'', Check (Either (Is_Null (Col ''error'')) (Differ (Col ''error'') (Str [])))),
         (''generations_failure_failed'', Check (Either (Is_Null (Col ''failure'')) (Member (Col ''status'') [''failed'']))),
         (''generations_max_attempts_check'', Check (At_Most (Num 1) (Col ''max_attempts''))),
         (''generations_outcome_unknown_failed'', Check (Either (Is_Null (Col ''outcome_unknown_at'')) (Member (Col ''status'') [''failed'']))),
         (''generations_pkey'', Primary_Key [''id'']),
         (''generations_provider_call_id_check'', Check (Either (Is_Null (Col ''provider_call_id'')) (Differ (Col ''provider_call_id'') (Str [])))),
         (''generations_provider_check'', Check (Differ (Col ''provider'') (Str []))),
         (''generations_purpose_check'', Check (Differ (Col ''purpose'') (Str []))),
         (''generations_terminal_fields'', Check (Agree (Member (Col ''status'') [''succeeded'', ''failed'', ''cancelled'']) (Both (Not_Null (Col ''settled_at'')) (Not_Null (Col ''expires_at'')))))],
      tab_storage =
        [(''autovacuum_analyze_scale_factor'', ''0.02''), (''autovacuum_vacuum_scale_factor'', ''0.02''),
         (''autovacuum_vacuum_threshold'', ''25'')]\<rparr>"

definition generations_table_final :: table where
  "generations_table_final =
     \<lparr>tab_columns =
        [(''cancel_requested_at'', nullable Timestamptz),
         (''created_at'', with_default ''clock_timestamp()'' (needed Timestamptz)), (''error'', nullable Text),
         (''expires_at'', nullable Timestamptz), (''failure'', nullable (Enum ''generation_failure'')),
         (''id'', with_default ''uuidv7()'' (needed Uuid)), (''outcome_unknown_at'', nullable Timestamptz),
         (''owner_id'', needed Uuid), (''provider'', needed Text), (''provider_call_id'', nullable Text),
         (''purpose'', needed Text), (''request_key'', needed Bytea), (''settled_at'', nullable Timestamptz),
         (''start_requested_at'', nullable Timestamptz),
         (''status'', with_default ''pending'' (needed (Enum ''generation_status''))),
         (''streamed'', with_default ''false'' (needed Boolean)), (''traceparent'', nullable Text),
         (''updated_at'', with_default ''clock_timestamp()'' (needed Timestamptz))],
      tab_constraints =
        [(''generations_call_matches_status'', Check (Either (Neg (Member (Col ''status'') [''pending'', ''running''])) (Agree (Member (Col ''status'') [''running'']) (Not_Null (Col ''provider_call_id''))))),
         (''generations_error_check'', Check (Either (Is_Null (Col ''error'')) (Differ (Col ''error'') (Str [])))),
         (''generations_failure_failed'', Check (Either (Is_Null (Col ''failure'')) (Member (Col ''status'') [''failed'']))),
         (''generations_outcome_unknown_failed'', Check (Either (Is_Null (Col ''outcome_unknown_at'')) (Member (Col ''status'') [''failed'']))),
         (''generations_pkey'', Primary_Key [''id'']),
         (''generations_provider_call_id_check'', Check (Either (Is_Null (Col ''provider_call_id'')) (Differ (Col ''provider_call_id'') (Str [])))),
         (''generations_provider_check'', Check (Differ (Col ''provider'') (Str []))),
         (''generations_purpose_check'', Check (Differ (Col ''purpose'') (Str []))),
         (''generations_terminal_fields'', Check (Agree (Member (Col ''status'') [''succeeded'', ''failed'', ''cancelled'']) (Both (Not_Null (Col ''settled_at'')) (Not_Null (Col ''expires_at'')))))],
      tab_storage =
        [(''autovacuum_analyze_scale_factor'', ''0.02''), (''autovacuum_vacuum_scale_factor'', ''0.02''),
         (''autovacuum_vacuum_threshold'', ''25'')]\<rparr>"

section \<open>Catalogs\<close>

definition snapshot_payloads :: "catalog" where
  "snapshot_payloads =
     \<lparr>cat_types =
        [(''generation_status'', [''pending'', ''running'', ''succeeded'', ''failed'', ''cancelled''])],
      cat_tables =
        [(''generation_attempts'', generation_attempts_table),
         (''generation_payloads'', generation_payloads_table), (''generation_usage'', generation_usage_table),
         (''generations'', generations_table_payloads)],
      cat_indexes =
        [(''generation_usage_owner_idx'', carrying [''input_tokens'', ''output_tokens''] (index_on ''generation_usage'' [''owner_id'', ''created_at''])),
         (''generation_usage_owner_purpose_idx'', carrying [''input_tokens'', ''output_tokens''] (index_on ''generation_usage'' [''owner_id'', ''purpose'', ''created_at''])),
         (''generations_check_idx'', where_rows (Member (Col ''status'') [''pending'', ''running'']) (index_on ''generations'' [''checked_at''])),
         (''generations_live_owner_idx'', where_rows (Member (Col ''status'') [''pending'', ''running'']) (index_on ''generations'' [''owner_id''])),
         (''generations_request_key_idx'', where_rows (Neg (Member (Col ''status'') [''failed'', ''cancelled''])) (unique (index_on ''generations'' [''request_key'']))),
         (''generations_retention_idx'', where_rows (Not_Null (Col ''expires_at'')) (index_on ''generations'' [''expires_at'']))],
      cat_functions = [],
      cat_unmet = [],
      cat_cron = Some []\<rparr>"

definition snapshot_default :: "string \<Rightarrow> string \<Rightarrow> catalog" where
  "snapshot_default me schema =
     \<lparr>cat_types =
        [(''generation_failure'', [''rejected'', ''provider_failed'', ''not_started'', ''outcome_unknown'']),
         (''generation_status'', [''pending'', ''running'', ''succeeded'', ''failed'', ''cancelled''])],
      cat_tables =
        [(''generation_attempts'', generation_attempts_table),
         (''generation_payloads'', generation_payloads_table), (''generation_usage'', generation_usage_table),
         (''generations'', generations_table_default)],
      cat_indexes =
        [(''generation_usage_owner_idx'', carrying [''input_tokens'', ''output_tokens''] (index_on ''generation_usage'' [''owner_id'', ''created_at''])),
         (''generation_usage_owner_purpose_idx'', carrying [''input_tokens'', ''output_tokens''] (index_on ''generation_usage'' [''owner_id'', ''purpose'', ''created_at''])),
         (''generations_check_idx'', where_rows (Member (Col ''status'') [''pending'', ''running'']) (index_on ''generations'' [''checked_at''])),
         (''generations_live_owner_idx'', where_rows (Member (Col ''status'') [''pending'', ''running'']) (index_on ''generations'' [''owner_id''])),
         (''generations_outcome_unknown_owner_idx'', where_rows (Not_Null (Col ''outcome_unknown_at'')) (index_on ''generations'' [''owner_id'', ''outcome_unknown_at''])),
         (''generations_provider_call_idx'', where_rows (Member (Col ''status'') [''running'']) (index_on ''generations'' [''provider'', ''provider_call_id''])),
         (''generations_request_key_idx'', where_rows (Neg (Member (Col ''status'') [''failed'', ''cancelled''])) (unique (index_on ''generations'' [''request_key'']))),
         (''generations_retention_idx'', where_rows (Not_Null (Col ''expires_at'')) (index_on ''generations'' [''expires_at'']))],
      cat_functions = [(''purge_settled_generations(bigint)'',
         \<lparr>fn_default = Some 67108864, fn_pinned = True, fn_body = Purge_Bytes 1000 [''generation_payloads'', ''generation_attempts'']\<rparr>)],
      cat_unmet = [],
      cat_cron = Some 
        [\<lparr>job_name = ''service-genai-purge-settled'', job_owner = me, job_schedule = ''10 seconds'', job_command = purge_command schema\<rparr>,
         \<lparr>job_name = ''service-genai-purge-cron-runs'', job_owner = me, job_schedule = ''0 4 * * *'', job_command = purge_runs_command\<rparr>]\<rparr>"

definition snapshot_indexes :: "string \<Rightarrow> string \<Rightarrow> catalog" where
  "snapshot_indexes me schema =
     \<lparr>cat_types =
        [(''generation_failure'', [''rejected'', ''provider_failed'', ''not_started'', ''outcome_unknown'']),
         (''generation_status'', [''pending'', ''running'', ''succeeded'', ''failed'', ''cancelled''])],
      cat_tables =
        [(''generation_attempts'', generation_attempts_table),
         (''generation_payloads'', generation_payloads_table), (''generation_usage'', generation_usage_table),
         (''generations'', generations_table_default)],
      cat_indexes =
        [(''generation_usage_owner_idx'', carrying [''input_tokens'', ''output_tokens''] (index_on ''generation_usage'' [''owner_id'', ''created_at''])),
         (''generation_usage_owner_purpose_idx'', carrying [''input_tokens'', ''output_tokens''] (index_on ''generation_usage'' [''owner_id'', ''purpose'', ''created_at''])),
         (''generations_live_owner_idx'', where_rows (Member (Col ''status'') [''pending'', ''running'']) (index_on ''generations'' [''owner_id''])),
         (''generations_outcome_unknown_owner_idx'', where_rows (Not_Null (Col ''outcome_unknown_at'')) (index_on ''generations'' [''owner_id'', ''outcome_unknown_at''])),
         (''generations_request_key_idx'', where_rows (Neg (Member (Col ''status'') [''failed'', ''cancelled''])) (unique (index_on ''generations'' [''request_key'']))),
         (''generations_retention_idx'', where_rows (Not_Null (Col ''expires_at'')) (index_on ''generations'' [''expires_at''])),
         (''generations_sweep_idx'', where_rows (Member (Col ''status'') [''pending'', ''running'']) (index_on ''generations'' [''id'']))],
      cat_functions = [(''purge_settled_generations(bigint)'',
         \<lparr>fn_default = Some 67108864, fn_pinned = True, fn_body = Purge_Bytes 1000 [''generation_attempts'']\<rparr>)],
      cat_unmet = [],
      cat_cron = Some 
        [\<lparr>job_name = ''service-genai-purge-settled'', job_owner = me, job_schedule = ''10 seconds'', job_command = purge_command schema\<rparr>,
         \<lparr>job_name = ''service-genai-purge-cron-runs'', job_owner = me, job_schedule = ''0 4 * * *'', job_command = purge_runs_command\<rparr>]\<rparr>"

definition snapshot_final :: "string \<Rightarrow> string \<Rightarrow> catalog" where
  "snapshot_final me schema =
     \<lparr>cat_types =
        [(''generation_failure'', [''rejected'', ''provider_failed'', ''not_started'', ''outcome_unknown'']),
         (''generation_status'', [''pending'', ''running'', ''succeeded'', ''failed'', ''cancelled''])],
      cat_tables =
        [(''generation_attempts'', generation_attempts_table), (''generation_usage'', generation_usage_table),
         (''generations'', generations_table_final)],
      cat_indexes =
        [(''generation_usage_owner_purpose_idx'', carrying [''input_tokens'', ''output_tokens''] (index_on ''generation_usage'' [''owner_id'', ''purpose'', ''created_at''])),
         (''generations_live_owner_idx'', where_rows (Member (Col ''status'') [''pending'', ''running'']) (index_on ''generations'' [''owner_id''])),
         (''generations_outcome_unknown_owner_idx'', where_rows (Not_Null (Col ''outcome_unknown_at'')) (index_on ''generations'' [''owner_id'', ''outcome_unknown_at''])),
         (''generations_request_key_idx'', where_rows (Neg (Member (Col ''status'') [''failed'', ''cancelled''])) (unique (index_on ''generations'' [''request_key'']))),
         (''generations_retention_idx'', where_rows (Not_Null (Col ''expires_at'')) (index_on ''generations'' [''expires_at''])),
         (''generations_sweep_idx'', where_rows (Member (Col ''status'') [''pending'', ''running'']) (index_on ''generations'' [''id'']))],
      cat_functions = [(''purge_settled_generations(bigint)'',
         \<lparr>fn_default = Some 67108864, fn_pinned = True, fn_body = Purge_Bytes 1000 [''generation_attempts'']\<rparr>)],
      cat_unmet = [],
      cat_cron = Some 
        [\<lparr>job_name = ''service-genai-purge-settled'', job_owner = me, job_schedule = ''10 seconds'', job_command = purge_command schema\<rparr>,
         \<lparr>job_name = ''service-genai-purge-cron-runs'', job_owner = me, job_schedule = ''0 4 * * *'', job_command = purge_runs_command\<rparr>]\<rparr>"

end
