(* ===== verification/Migrations_Properties.thy ===== *)
theory Migrations_Properties
  imports Snapshots
begin

text \<open>
  What the migrations make of an empty database: the schema of the last snapshot. On the way, each file's down
  takes back its up, a file that is interrupted can run again, and the purge that \<^verbatim>\<open>pg_cron\<close> calls names only
  tables that are there.
\<close>

section \<open>One file\<close>

text \<open>
  What a file may leave that gave up in one of its parts, when that differs from running the parts before it: a
  transaction leaves nothing, while a concurrent statement leaves its index, not valid.
\<close>

fun give_up :: "ddl \<Rightarrow> catalog \<Rightarrow> catalog" where
  "give_up (Create_Index True name ix) c = c\<lparr>cat_indexes := put name (ix\<lparr>ix_valid := False\<rparr>) (cat_indexes c)\<rparr>"
| "give_up (Drop_Index True if_exists name) c =
     c\<lparr>cat_indexes := map (\<lambda>(n, ix). (n, if n = name then ix\<lparr>ix_valid := False\<rparr> else ix)) (cat_indexes c)\<rparr>"
| "give_up statement c = c"

fun interrupted :: "string \<Rightarrow> ddl list list \<Rightarrow> catalog \<Rightarrow> catalog list" where
  "interrupted me [] c = []"
| "interrupted me (part # parts) c =
     map (\<lambda>s. give_up s c) (filter concurrent part) @
     (if parts = [] then []
      else (case run_part me part c of None \<Rightarrow> [] | Some d \<Rightarrow> d # interrupted me parts d))"

text \<open>The tables the purge names are there, and the call of the job finds a function to call.\<close>

fun body_tables :: "purge_body \<Rightarrow> string list" where
  "body_tables (Purge_Rows n) = []"
| "body_tables (Purge_Bytes n tables) = tables"

definition purge_runs :: "catalog \<Rightarrow> bool" where
  "purge_runs c \<longleftrightarrow>
     list_all (\<lambda>(signature, f). list_all (has (cat_tables c)) (''generations'' # body_tables (fn_body f)))
       (cat_functions c) \<and>
     (case cat_cron c of
        None \<Rightarrow> True
      | Some jobs \<Rightarrow>
          list_all (\<lambda>j. job_name j \<noteq> ''service-genai-purge-settled'') jobs \<or>
          list_ex (\<lambda>(signature, f). signature = ''purge_settled_generations()'' \<or> fn_default f \<noteq> None)
            (cat_functions c))"

text \<open>
  A file that goes up, comes back down, runs again after any interruption of either way, and leaves the purge
  able to run.
\<close>

definition takes_back :: "string \<Rightarrow> migration \<Rightarrow> catalog \<Rightarrow> catalog \<Rightarrow> bool" where
  "takes_back me m c d \<longleftrightarrow>
     run_file me (mig_down m) d = Some c \<and>
     list_all (\<lambda>e. run_file me (mig_up m) e = Some d) (interrupted me (mig_up m) c) \<and>
     list_all (\<lambda>e. run_file me (mig_down m) e = Some c) (interrupted me (mig_down m) d) \<and>
     purge_runs d"

definition safely :: "string \<Rightarrow> migration \<Rightarrow> catalog \<Rightarrow> catalog option" where
  "safely me m c =
     (case run_file me (mig_up m) c of None \<Rightarrow> None | Some d \<Rightarrow> if takes_back me m c d then Some d else None)"

lemma safely_Some:
  "safely me m c = Some d \<longleftrightarrow> run_file me (mig_up m) c = Some d \<and> takes_back me m c d"
  by (auto simp: safely_def split: option.splits)

lemma table_migrations_safe:
  "each (safely me) table_migrations (empty_catalog (Some [])) = Some snapshot_payloads"
  by code_simp

lemma purge_migrations_safe:
  "each (safely me) (purge_migrations schema) snapshot_payloads = Some (snapshot_default me schema)"
  by code_simp

lemma index_migrations_safe:
  "each (safely me) index_migrations (snapshot_default me schema) = Some (snapshot_indexes me schema)"
  by code_simp

lemma drop_migrations_safe:
  "each (safely me) drop_migrations (snapshot_indexes me schema) = Some (snapshot_final me schema)"
  by code_simp

lemma migrations_safe:
  "each (safely me) (migrations schema) (empty_catalog (Some [])) = Some (snapshot_final me schema)"
  by (simp add: migrations_def each_append table_migrations_safe purge_migrations_safe index_migrations_safe
      drop_migrations_safe)

section \<open>All of them\<close>

lemma each_safely_migrates:
  "each (safely me) ms c = Some d \<Longrightarrow> migrate me ms c = Some d"
  by (induction ms arbitrary: c) (auto simp: migrate_def safely_Some split: option.splits)

text \<open>The files that go down, the last one first.\<close>

definition roll_back :: "string \<Rightarrow> migration list \<Rightarrow> catalog \<Rightarrow> catalog option" where
  "roll_back me ms = each (\<lambda>m. run_file me (mig_down m)) (rev ms)"

lemma each_safely_rolls_back:
  "each (safely me) ms c = Some d \<Longrightarrow> roll_back me ms d = Some c"
proof (induction ms arbitrary: c)
  case Nil
  then show ?case by (simp add: roll_back_def)
next
  case (Cons m ms)
  then obtain e where "safely me m c = Some e" and rest: "each (safely me) ms e = Some d"
    by (auto split: option.splits)
  then have "run_file me (mig_down m) e = Some c" by (simp add: safely_Some takes_back_def)
  then show ?case using Cons.IH [OF rest] by (simp add: roll_back_def each_append)
qed

lemma each_nth:
  assumes "each f xs s = Some t" and "k < length xs"
  shows "\<exists>u v. each f (take k xs) s = Some u \<and> f (xs ! k) u = Some v \<and> each f (drop (Suc k) xs) v = Some t"
  using assms
proof (induction xs arbitrary: s k)
  case (Cons x xs)
  obtain u where first: "f x s = Some u" and rest: "each f xs u = Some t"
    using Cons.prems(1) by (auto split: option.splits)
  show ?case
  proof (cases k)
    case 0
    then show ?thesis using first rest by simp
  next
    case (Suc j)
    then show ?thesis using Cons.IH [OF rest, of j] Cons.prems(2) first by simp
  qed
qed simp

lemma length_migrations: "length (migrations schema) = 22"
  by (simp add: migrations_def table_migrations_def purge_migrations_def index_migrations_def drop_migrations_def)

lemma migration_safe:
  assumes "k < 22"
  obtains c d where "migrate me (take k (migrations schema)) (empty_catalog (Some [])) = Some c"
    and "run_file me (mig_up (migrations schema ! k)) c = Some d"
    and "takes_back me (migrations schema ! k) c d"
proof -
  obtain c d where "each (safely me) (take k (migrations schema)) (empty_catalog (Some [])) = Some c"
    and "safely me (migrations schema ! k) c = Some d"
    using each_nth [OF migrations_safe] assms by (metis length_migrations)
  then show thesis using that each_safely_migrates by (auto simp: safely_Some)
qed

text \<open>Where \<^verbatim>\<open>pg_cron\<close> is not installed, a statement does the same without the jobs.\<close>

definition without_cron :: "catalog \<Rightarrow> catalog" where
  "without_cron c = c\<lparr>cat_cron := None\<rparr>"

lemma without_cron_simps [simp]:
  "cat_types (without_cron c) = cat_types c" "cat_unmet (without_cron c) = cat_unmet c" "cat_tables (without_cron c) = cat_tables c"
  "cat_indexes (without_cron c) = cat_indexes c" "cat_functions (without_cron c) = cat_functions c"
  "cat_cron (without_cron c) = None" "without_cron (empty_catalog cron) = empty_catalog None"
  by (simp_all add: without_cron_def empty_catalog_def)

lemma without_cron_updates [simp]:
  "without_cron c\<lparr>cat_types := types\<rparr> = without_cron (c\<lparr>cat_types := types\<rparr>)"
  "without_cron c\<lparr>cat_tables := tables\<rparr> = without_cron (c\<lparr>cat_tables := tables\<rparr>)"
  "without_cron c\<lparr>cat_indexes := indexes\<rparr> = without_cron (c\<lparr>cat_indexes := indexes\<rparr>)"
  "without_cron c\<lparr>cat_functions := functions\<rparr> = without_cron (c\<lparr>cat_functions := functions\<rparr>)"
  "without_cron c\<lparr>cat_cron := None\<rparr> = without_cron c"
  "without_cron (c\<lparr>cat_cron := cron\<rparr>) = without_cron c"
  by (simp_all add: without_cron_def)

lemma add_constraint_without_cron [simp]: "add_constraint (without_cron c) = add_constraint c"
proof -
  have "constraint_fits (without_cron c) tab con = constraint_fits c tab con" for tab con
    by (cases con) (simp_all add: constraint_fits_def)
  then show ?thesis by (intro ext) (simp add: add_constraint_def)
qed

lemma add_column_without_cron [simp]: "add_column (without_cron c) = add_column c"
proof -
  have "type_exists (without_cron c) type = type_exists c type" for type
    by (cases type) (simp_all add: type_exists_def)
  then show ?thesis by (intro ext) (simp add: add_column_def split: option.split)
qed

lemma alter_without_cron [simp]: "alter (without_cron c) name = alter c name"
proof
  show "alter (without_cron c) name a = alter c name a" for a by (cases a) auto
qed

lemma effect_without_cron:
  "effect me s (without_cron c) = map_option without_cron (effect me s c)"
  by (cases s)
    (auto simp: type_used_def referenced_def option.map_comp comp_def split: option.splits)

lemma execute_without_cron:
  "execute me s (without_cron c) = map_option without_cron (execute me s c)"
  by (simp add: execute_def effect_without_cron)

lemma each_without_cron:
  assumes "\<And>x c. f x (without_cron c) = map_option without_cron (f x c)"
  shows "each f xs (without_cron c) = map_option without_cron (each f xs c)"
  by (induction xs arbitrary: c) (auto simp: assms split: option.splits)

lemma run_file_without_cron:
  "run_file me file (without_cron c) = map_option without_cron (run_file me file c)"
  unfolding run_file_def
  by (rule each_without_cron) (simp add: run_part_def each_without_cron execute_without_cron)

section \<open>On rows\<close>

text \<open>The same catalog on rows that fail some conditions: a statement does the same, or is refused.\<close>

definition failing :: "(string \<times> string) list \<Rightarrow> catalog \<Rightarrow> catalog" where
  "failing unmet c = c\<lparr>cat_unmet := unmet\<rparr>"

lemma failing_simps [simp]:
  "cat_types (failing unmet c) = cat_types c" "cat_tables (failing unmet c) = cat_tables c"
  "cat_indexes (failing unmet c) = cat_indexes c" "cat_functions (failing unmet c) = cat_functions c"
  "cat_cron (failing unmet c) = cat_cron c" "cat_unmet (failing unmet c) = unmet"
  "failing unmet c\<lparr>cat_types := types\<rparr> = failing unmet (c\<lparr>cat_types := types\<rparr>)"
  "failing unmet c\<lparr>cat_tables := tables\<rparr> = failing unmet (c\<lparr>cat_tables := tables\<rparr>)"
  "failing unmet c\<lparr>cat_indexes := indexes\<rparr> = failing unmet (c\<lparr>cat_indexes := indexes\<rparr>)"
  "failing unmet c\<lparr>cat_functions := functions\<rparr> = failing unmet (c\<lparr>cat_functions := functions\<rparr>)"
  "failing unmet c\<lparr>cat_cron := cron\<rparr> = failing unmet (c\<lparr>cat_cron := cron\<rparr>)"
  by (simp_all add: failing_def)

lemma add_constraint_failing [simp]: "add_constraint (failing unmet c) = add_constraint c"
proof -
  have "constraint_fits (failing unmet c) tab con = constraint_fits c tab con" for tab con
    by (cases con) (simp_all add: constraint_fits_def)
  then show ?thesis by (intro ext) (simp add: add_constraint_def)
qed

lemma add_column_failing [simp]: "add_column (failing unmet c) = add_column c"
proof -
  have "type_exists (failing unmet c) type = type_exists c type" for type
    by (cases type) (simp_all add: type_exists_def)
  then show ?thesis by (intro ext) (simp add: add_column_def split: option.split)
qed

lemma alter_failing [simp]: "alter (failing unmet c) name = alter c name"
proof
  show "alter (failing unmet c) name a = alter c name a" for a by (cases a) auto
qed

lemma effect_failing: "effect me s (failing unmet c) = map_option (failing unmet) (effect me s c)"
  by (cases s)
    (auto simp: type_used_def referenced_def option.map_comp comp_def split: option.splits)

lemma effect_unmet: "effect me s c = Some d \<Longrightarrow> cat_unmet d = cat_unmet c"
  by (cases s) (auto split: option.splits if_splits)

lemma each_unmet:
  assumes "\<And>x c d. f x c = Some d \<Longrightarrow> cat_unmet d = cat_unmet c"
  shows "each f xs c = Some d \<Longrightarrow> cat_unmet d = cat_unmet c"
  by (induction xs arbitrary: c) (auto dest!: assms split: option.splits)

lemma each_failing:
  assumes "\<And>x c. cat_unmet c = [] \<Longrightarrow>
      f x (failing unmet c) = (if P x then None else map_option (failing unmet) (f x c))"
    and "\<And>x c d. f x c = Some d \<Longrightarrow> cat_unmet d = cat_unmet c"
  shows "cat_unmet c = [] \<Longrightarrow>
     each f xs (failing unmet c) = (if list_ex P xs then None else map_option (failing unmet) (each f xs c))"
proof (induction xs arbitrary: c)
  case (Cons x xs)
  show ?case
  proof (cases "f x c")
    case None
    then show ?thesis using assms(1) [OF Cons.prems] by simp
  next
    case (Some d)
    with assms(2) Cons.prems have "cat_unmet d = []" by simp
    then show ?thesis using Some assms(1) [OF Cons.prems] Cons.IH by simp
  qed
qed simp

lemma execute_unmet: "execute me s c = Some d \<Longrightarrow> cat_unmet d = cat_unmet c"
  by (simp add: execute_def effect_unmet split: if_splits)

lemma execute_failing:
  "cat_unmet c = [] \<Longrightarrow> execute me s (failing unmet c) =
     (if rows_fail unmet s then None else map_option (failing unmet) (execute me s c))"
  by (auto simp: execute_def effect_failing rows_fail_def list_ex_iff case_prod_beta)

lemma run_part_unmet: "run_part me part c = Some d \<Longrightarrow> cat_unmet d = cat_unmet c"
  by (auto simp: run_part_def intro: each_unmet execute_unmet split: if_splits)

lemma run_part_failing:
  "cat_unmet c = [] \<Longrightarrow> run_part me part (failing unmet c) =
     (if list_ex (rows_fail unmet) part then None else map_option (failing unmet) (run_part me part c))"
  unfolding run_part_def
  using each_failing [where f = "execute me" and P = "rows_fail unmet", OF execute_failing execute_unmet] by simp

lemma run_file_unmet: "run_file me file c = Some d \<Longrightarrow> cat_unmet d = cat_unmet c"
  unfolding run_file_def by (rule each_unmet [OF run_part_unmet])

text \<open>The rows fail a condition that a statement of the file asks of them.\<close>

definition rows_refuse :: "(string \<times> string) list \<Rightarrow> ddl list list \<Rightarrow> bool" where
  "rows_refuse unmet file \<longleftrightarrow> list_ex (list_ex (rows_fail unmet)) file"

lemma run_file_failing:
  "cat_unmet c = [] \<Longrightarrow> run_file me file (failing unmet c) =
     (if rows_refuse unmet file then None else map_option (failing unmet) (run_file me file c))"
  unfolding run_file_def rows_refuse_def
  by (rule each_failing [where f = "run_part me" and P = "list_ex (rows_fail unmet)", OF run_part_failing run_part_unmet])

lemma roll_back_failing:
  assumes "cat_unmet c = []"
  shows "roll_back me ms (failing unmet c) =
     (if list_ex (\<lambda>m. rows_refuse unmet (mig_down m)) ms then None else map_option (failing unmet) (roll_back me ms c))"
  unfolding roll_back_def
  using each_failing [where f = "\<lambda>m. run_file me (mig_down m)" and P = "\<lambda>m. rows_refuse unmet (mig_down m)",
      OF run_file_failing run_file_unmet assms, where xs = "rev ms"]
  by (simp add: list_ex_iff)

section \<open>Properties\<close>

definition new_database :: "bool \<Rightarrow> catalog" where
  "new_database cron = empty_catalog (if cron then Some [] else None)"

definition last_schema :: "string \<Rightarrow> string \<Rightarrow> bool \<Rightarrow> catalog" where
  "last_schema me schema cron = (if cron then snapshot_final me schema else without_cron (snapshot_final me schema))"

lemma migrations_build: "migrate me (migrations schema) (new_database cron) = Some (last_schema me schema cron)"
proof -
  have all: "migrate me (migrations schema) (empty_catalog (Some [])) = Some (snapshot_final me schema)"
    by (rule each_safely_migrates [OF migrations_safe])
  have "migrate me (migrations schema) (without_cron (empty_catalog (Some []))) =
      Some (without_cron (snapshot_final me schema))"
    using all by (simp add: migrate_def each_without_cron run_file_without_cron del: without_cron_simps)
  then show ?thesis using all by (simp add: new_database_def last_schema_def)
qed

text \<open>
  What the downs ask of the rows that are there: the sixth puts the payloads back on their generations, where none
  may be missing, and the last but one adds two columns with their checks.
\<close>

definition down_demands :: "nat \<Rightarrow> (string \<times> string) list" where
  "down_demands k =
     (if k = 5 then [(''generations'', ''generations_payload_check''), (''generations'', ''payload'')]
      else if k = 20 then
        [(''generations'', ''generations_attempt_check''), (''generations'', ''generations_max_attempts_check'')]
      else [])"

text \<open>
  The update of the sixth down gives each generation the payload stored under its identifier: one without any is
  left with none.
\<close>

definition payloads_unmet :: "uuid list \<Rightarrow> uuid list \<Rightarrow> (string \<times> string) list" where
  "payloads_unmet gens payloads = (if set gens \<subseteq> set payloads then [] else [(''generations'', ''payload'')])"

lemma payloads_unmet_demanded:
  "(\<exists>j < k. \<exists>x \<in> set (down_demands j). x \<in> set (payloads_unmet gens payloads)) \<longleftrightarrow>
     5 < k \<and> \<not> set gens \<subseteq> set payloads"
  by (auto simp: down_demands_def payloads_unmet_def split: if_splits)

lemma down_demands:
  "map (\<lambda>m. concat (map demanded (concat (mig_down m)))) (migrations schema) = map down_demands [0..<22]"
  by code_simp

lemma rows_refuse_iff:
  "rows_refuse unmet file \<longleftrightarrow> (\<exists>d \<in> set (concat (map demanded (concat file))). d \<in> set unmet)"
  by (fastforce simp: rows_refuse_def rows_fail_def list_ex_iff)

lemma down_refused:
  assumes "k < 22"
  shows "rows_refuse unmet (mig_down (migrations schema ! k)) \<longleftrightarrow> (\<exists>d \<in> set (down_demands k). d \<in> set unmet)"
proof -
  have "concat (map demanded (concat (mig_down (migrations schema ! k)))) = down_demands k"
    using arg_cong [OF down_demands [of schema], of "\<lambda>xs. xs ! k"] assms by (simp add: length_migrations)
  then show ?thesis by (simp only: rows_refuse_iff)
qed

lemma downs_refused:
  assumes "k \<le> 22"
  shows "list_ex (\<lambda>m. rows_refuse unmet (mig_down m)) (take k (migrations schema)) \<longleftrightarrow>
     (\<exists>j < k. \<exists>d \<in> set (down_demands j). d \<in> set unmet)"
proof -
  have "list_ex (\<lambda>m. rows_refuse unmet (mig_down m)) (take k (migrations schema)) \<longleftrightarrow>
      (\<exists>j < k. rows_refuse unmet (mig_down (migrations schema ! j)))"
    using assms by (auto simp: list_ex_length length_migrations)
  also have "\<dots> \<longleftrightarrow> (\<exists>j < k. \<exists>d \<in> set (down_demands j). d \<in> set unmet)"
    using assms down_refused by (metis order_less_le_trans)
  finally show ?thesis .
qed



text \<open>
  A file interrupted between its parts, or whose concurrent statement gave up and left an index that is not
valid, can run again, up or down: it ends where it would have. After every file, the purge that \<^verbatim>\<open>pg_cron\<close> calls
is there to call and names only tables that are there.
\<close>

theorem interrupted_migration_reruns:
  assumes "migrate me (take k (migrations schema)) (new_database True) = Some c" and "k < 22"
    and "run_file me (mig_up (migrations schema ! k)) c = Some d"
  shows "list_all (\<lambda>e. run_file me (mig_up (migrations schema ! k)) e = Some d)
       (interrupted me (mig_up (migrations schema ! k)) c) \<and>
     list_all (\<lambda>e. run_file me (mig_down (migrations schema ! k)) e = Some c)
       (interrupted me (mig_down (migrations schema ! k)) d) \<and>
     purge_runs d"
proof -
  obtain c' d' where "migrate me (take k (migrations schema)) (empty_catalog (Some [])) = Some c'"
      "run_file me (mig_up (migrations schema ! k)) c' = Some d'" "takes_back me (migrations schema ! k) c' d'"
    using migration_safe [OF assms(2)] .
  then show ?thesis using assms(1,3) by (simp add: new_database_def takes_back_def)
qed

lemma interrupted_migration_reruns_witness:
  "\<exists>c d. run_file ''genai'' (mig_up (migrations ''public'' ! 17)) c = Some d \<and> purge_runs d \<and>
     list_all (\<lambda>e. run_file ''genai'' (mig_up (migrations ''public'' ! 17)) e = Some d)
       (interrupted ''genai'' (mig_up (migrations ''public'' ! 17)) c)"
proof -
  obtain c d where c: "migrate ''genai'' (take 17 (migrations ''public'')) (empty_catalog (Some [])) = Some c"
    and d: "run_file ''genai'' (mig_up (migrations ''public'' ! 17)) c = Some d"
    by (rule migration_safe [where k = 17 and me = "''genai''" and schema = "''public''"]) (simp, blast)
  from interrupted_migration_reruns [OF _ _ d] c d show ?thesis by (auto simp: new_database_def)
qed

end
