(* ===== verification/Schema_Rows.thy ===== *)
theory Schema_Rows
  imports Migrations_Properties Tables
begin

text \<open>
  The schema the migrations make against the rows of \<open>Tables\<close>: a row as the columns of its table, and the rows a
  table admits.
\<close>

section \<open>Rows as columns\<close>

definition status_label :: "generation_status \<Rightarrow> string" where
  "status_label s =
     (case s of Pending \<Rightarrow> ''pending'' | Running \<Rightarrow> ''running'' | Succeeded \<Rightarrow> ''succeeded'' | Failed \<Rightarrow> ''failed''
      | Cancelled \<Rightarrow> ''cancelled'')"

definition failure_label :: "generation_failure \<Rightarrow> string" where
  "failure_label f =
     (case f of Rejected \<Rightarrow> ''rejected'' | ProviderFailed \<Rightarrow> ''provider_failed'' | NotStarted \<Rightarrow> ''not_started''
      | OutcomeUnknown \<Rightarrow> ''outcome_unknown'')"

abbreviation optional :: "('a \<Rightarrow> sql_value) \<Rightarrow> 'a option \<Rightarrow> sql_value" where
  "optional \<equiv> case_option Null"

definition generation_columns :: "generation \<Rightarrow> (string \<times> sql_value) list" where
  "generation_columns g =
     [(''cancel_requested_at'', optional Int_Value (gen_cancel_requested_at g)),
      (''created_at'', Int_Value (gen_created_at g)),
      (''error'', optional Text_Value (gen_error g)),
      (''expires_at'', optional Int_Value (gen_expires_at g)),
      (''failure'', optional (\<lambda>f. Text_Value (failure_label f)) (gen_failure g)),
      (''id'', Other_Value),
      (''outcome_unknown_at'', optional Int_Value (gen_outcome_unknown_at g)),
      (''owner_id'', Other_Value),
      (''provider'', Text_Value (gen_provider g)),
      (''provider_call_id'', optional Text_Value (gen_provider_call_id g)),
      (''purpose'', Text_Value (gen_purpose g)),
      (''request_key'', Other_Value),
      (''settled_at'', optional Int_Value (gen_settled_at g)),
      (''start_requested_at'', optional Int_Value (gen_start_requested_at g)),
      (''status'', Text_Value (status_label (gen_status g))),
      (''streamed'', Other_Value),
      (''traceparent'', optional Text_Value (gen_traceparent g)),
      (''updated_at'', Int_Value (gen_updated_at g))]"

definition usage_columns :: "generation_usage \<Rightarrow> (string \<times> sql_value) list" where
  "usage_columns u =
     [(''attempt'', Int_Value (usg_attempt u)),
      (''cache_write_tokens'', Int_Value (usg_cache_write_tokens u)),
      (''cached_input_tokens'', Int_Value (usg_cached_input_tokens u)),
      (''class'', Text_Value (usg_class u)),
      (''completed_at'', optional Int_Value (usg_completed_at u)),
      (''created_at'', Int_Value (usg_created_at u)),
      (''generation_id'', Other_Value),
      (''input_tokens'', Int_Value (usg_input_tokens u)),
      (''model'', Text_Value (usg_model u)),
      (''output_tokens'', Int_Value (usg_output_tokens u)),
      (''owner_id'', Other_Value),
      (''provider'', Text_Value (usg_provider u)),
      (''purpose'', Text_Value (usg_purpose u)),
      (''reasoning_tokens'', Int_Value (usg_reasoning_tokens u)),
      (''started_at'', Int_Value (usg_started_at u)),
      (''tier'', optional Text_Value (usg_tier u))]"

definition row_of :: "(string \<times> sql_value) list \<Rightarrow> string \<Rightarrow> sql_value" where
  "row_of columns name = (case map_of columns name of None \<Rightarrow> Null | Some v \<Rightarrow> v)"

definition fits :: "table \<Rightarrow> (string \<times> sql_value) list \<Rightarrow> bool" where
  "fits tab columns \<longleftrightarrow>
     list_all (\<lambda>(name, c). col_not_null c \<longrightarrow> row_of columns name \<noteq> Null) (tab_columns tab) \<and>
     list_all (\<lambda>(name, con). case con of Check c \<Rightarrow> admits (row_of columns) c | _ \<Rightarrow> True) (tab_constraints tab)"

lemmas truth_defs = admits_def differ3_def member3_def not3_def or3_def agree3_def

lemma row_of_generation:
  "row_of (generation_columns g) ''created_at'' = Int_Value (gen_created_at g)"
  "row_of (generation_columns g) ''error'' = optional Text_Value (gen_error g)"
  "row_of (generation_columns g) ''expires_at'' = optional Int_Value (gen_expires_at g)"
  "row_of (generation_columns g) ''failure'' = optional (\<lambda>f. Text_Value (failure_label f)) (gen_failure g)"
  "row_of (generation_columns g) ''id'' = Other_Value"
  "row_of (generation_columns g) ''outcome_unknown_at'' = optional Int_Value (gen_outcome_unknown_at g)"
  "row_of (generation_columns g) ''owner_id'' = Other_Value"
  "row_of (generation_columns g) ''provider'' = Text_Value (gen_provider g)"
  "row_of (generation_columns g) ''provider_call_id'' = optional Text_Value (gen_provider_call_id g)"
  "row_of (generation_columns g) ''purpose'' = Text_Value (gen_purpose g)"
  "row_of (generation_columns g) ''request_key'' = Other_Value"
  "row_of (generation_columns g) ''settled_at'' = optional Int_Value (gen_settled_at g)"
  "row_of (generation_columns g) ''status'' = Text_Value (status_label (gen_status g))"
  "row_of (generation_columns g) ''streamed'' = Other_Value"
  "row_of (generation_columns g) ''updated_at'' = Int_Value (gen_updated_at g)"
  by (simp_all add: row_of_def generation_columns_def)

lemma row_of_usage:
  "row_of (usage_columns u) ''attempt'' = Int_Value (usg_attempt u)"
  "row_of (usage_columns u) ''cache_write_tokens'' = Int_Value (usg_cache_write_tokens u)"
  "row_of (usage_columns u) ''cached_input_tokens'' = Int_Value (usg_cached_input_tokens u)"
  "row_of (usage_columns u) ''class'' = Text_Value (usg_class u)"
  "row_of (usage_columns u) ''created_at'' = Int_Value (usg_created_at u)"
  "row_of (usage_columns u) ''generation_id'' = Other_Value"
  "row_of (usage_columns u) ''input_tokens'' = Int_Value (usg_input_tokens u)"
  "row_of (usage_columns u) ''model'' = Text_Value (usg_model u)"
  "row_of (usage_columns u) ''output_tokens'' = Int_Value (usg_output_tokens u)"
  "row_of (usage_columns u) ''owner_id'' = Other_Value"
  "row_of (usage_columns u) ''provider'' = Text_Value (usg_provider u)"
  "row_of (usage_columns u) ''purpose'' = Text_Value (usg_purpose u)"
  "row_of (usage_columns u) ''reasoning_tokens'' = Int_Value (usg_reasoning_tokens u)"
  "row_of (usage_columns u) ''started_at'' = Int_Value (usg_started_at u)"
  "row_of (usage_columns u) ''tier'' = optional Text_Value (usg_tier u)"
  by (simp_all add: row_of_def usage_columns_def)

lemmas column_defs = nullable_def needed_def with_default_def

lemma generations_fit: "fits generations_table_final (generation_columns g) \<longleftrightarrow> generation_row_check g"
  by (cases "gen_status g"; cases "gen_failure g"; cases "gen_settled_at g"; cases "gen_expires_at g";
      cases "gen_provider_call_id g")
    (auto simp: fits_def generations_table_final_def row_of_generation column_defs truth_defs generation_row_check_def
      status_label_def live_status_def split: option.splits)

lemma usage_fits: "fits generation_usage_table (usage_columns u) \<longleftrightarrow> usage_check u"
  by (cases "usg_tier u")
    (auto simp: fits_def generation_usage_table_def row_of_usage column_defs truth_defs usage_check_def)

lemma last_schema_tables:
  "map_of (cat_tables (last_schema me schema cron)) ''generations'' = Some generations_table_final"
  "map_of (cat_tables (last_schema me schema cron)) ''generation_usage'' = Some generation_usage_table"
  by (simp_all add: last_schema_def snapshot_final_def)

lemma last_schema_types:
  "map_of (cat_types (last_schema me schema cron)) ''generation_status'' =
     Some (map status_label [Pending, Running, Succeeded, Failed, Cancelled])"
  "map_of (cat_types (last_schema me schema cron)) ''generation_failure'' =
     Some (map failure_label [Rejected, ProviderFailed, NotStarted, OutcomeUnknown])"
  by (simp_all add: last_schema_def snapshot_final_def status_label_def failure_label_def)

text \<open>The rows a unique index holds to one another: those of its condition, by its columns.\<close>

definition holds_rows :: "index \<Rightarrow> (string \<times> sql_value) list \<Rightarrow> bool" where
  "holds_rows ix columns \<longleftrightarrow>
     (case ix_where ix of None \<Rightarrow> True | Some w \<Rightarrow> truth (row_of columns) w = Some True)"

lemma last_schema_request_key:
  "\<exists>ix. map_of (cat_indexes (last_schema me schema cron)) ''generations_request_key_idx'' = Some ix \<and>
     ix_table ix = ''generations'' \<and> ix_unique ix \<and> ix_columns ix = [''request_key''] \<and>
     (holds_rows ix (generation_columns g) \<longleftrightarrow> keyed g)"
  by (cases "gen_status g")
    (simp_all add: last_schema_def snapshot_final_def holds_rows_def where_rows_def unique_def index_on_def
      row_of_generation truth_defs status_label_def keyed_def)

section \<open>Properties\<close>

text \<open>C36: The schema the migrations build is the one the model of the tables assumes: its tables have the columns of
the rows, its checks admit exactly the rows the model's checks do, its types have the labels of the statuses and
of the failures, and its index on the request key keeps apart exactly the rows the model keeps apart.\<close>

theorem migrations_build_the_tables:
  "\<exists>c gens usages ix.
     migrate me (migrations schema) (new_database cron) = Some c \<and>
     map_of (cat_tables c) ''generations'' = Some gens \<and> map_of (cat_tables c) ''generation_usage'' = Some usages \<and>
     map fst (tab_columns gens) = map fst (generation_columns g) \<and>
     map fst (tab_columns usages) = map fst (usage_columns u) \<and>
     (fits gens (generation_columns g) \<longleftrightarrow> generation_row_check g) \<and>
     (fits usages (usage_columns u) \<longleftrightarrow> usage_check u) \<and>
     map_of (cat_types c) ''generation_status'' =
       Some (map status_label [Pending, Running, Succeeded, Failed, Cancelled]) \<and>
     map_of (cat_types c) ''generation_failure'' =
       Some (map failure_label [Rejected, ProviderFailed, NotStarted, OutcomeUnknown]) \<and>
     map_of (cat_indexes c) ''generations_request_key_idx'' = Some ix \<and> ix_table ix = ''generations'' \<and>
     ix_unique ix \<and> ix_columns ix = [''request_key''] \<and> (holds_rows ix (generation_columns g) \<longleftrightarrow> keyed g)"
proof -
  have "map fst (tab_columns generations_table_final) = map fst (generation_columns g)"
    "map fst (tab_columns generation_usage_table) = map fst (usage_columns u)"
    by (simp_all add: generations_table_final_def generation_columns_def generation_usage_table_def usage_columns_def)
  then show ?thesis
    using migrations_build last_schema_tables last_schema_types generations_fit usage_fits last_schema_request_key
    by (metis (no_types))
qed

end
