(* ===== verification/Jobs.thy ===== *)
theory Jobs
  imports Migrations_Properties Config
begin

text \<open>
  The jobs of \<^verbatim>\<open>cron/jobs.sql\<close>, and \<^verbatim>\<open>cmd/migrations\<close>, which runs the migrations and then the jobs.

  \<open>me\<close> is the role the command connects as, and \<open>super\<close> says whether it is a superuser: any other role sees its
  own jobs only.
\<close>

section \<open>The jobs\<close>

record job_definition =
  jd_name :: string
  jd_schedule :: string
  jd_command :: string

definition cron_runs_command :: string where
  "cron_runs_command =
     text_lines
       [''            DELETE FROM cron.job_run_details'',
        ''            WHERE end_time < CURRENT_TIMESTAMP - interval '7 days'' @ [CHR 0x27],
        ''              AND jobid IN (SELECT jobid FROM cron.job WHERE jobname LIKE 'service-genai-%')'',
        ''          '']"

definition job_definitions :: "string \<Rightarrow> job_definition list" where
  "job_definitions schema =
     [\<lparr>jd_name = ''service-genai-purge-settled'', jd_schedule = ''10 seconds'', jd_command = purge_command schema\<rparr>,
      \<lparr>jd_name = ''service-genai-purge-cron-runs'', jd_schedule = ''0 4 * * *'', jd_command = cron_runs_command\<rparr>]"

text \<open>A job of the definition's name that another role owns, where it is seen.\<close>

definition foreign :: "string \<Rightarrow> bool \<Rightarrow> job_definition \<Rightarrow> job \<Rightarrow> bool" where
  "foreign me super d j \<longleftrightarrow> super \<and> job_name j = jd_name d \<and> job_owner j \<noteq> me"

definition schedule_job :: "string \<Rightarrow> bool \<Rightarrow> job_definition \<Rightarrow> job list \<Rightarrow> job list" where
  "schedule_job me super d js =
     (if list_ex (foreign me super d) js
      then map (\<lambda>j. if foreign me super d j
                    then j\<lparr>job_schedule := jd_schedule d, job_command := jd_command d\<rparr> else j) js
      else cron_schedule me (jd_name d) (jd_schedule d) (jd_command d) js)"

definition Jobs :: "string \<Rightarrow> bool \<Rightarrow> string \<Rightarrow> job list option \<Rightarrow> job list option" where
  "Jobs me super schema = map_option (fold (schedule_job me super) (job_definitions schema))"

lemma cron_schedule_again:
  "cron_schedule me n s c (cron_schedule me n s c js) = cron_schedule me n s c js"
  by (induction js) auto

lemma cron_schedule_foreign:
  "list_ex (foreign me super d) (cron_schedule me n s c js) \<longleftrightarrow> list_ex (foreign me super d) js"
  by (induction js) (auto simp: foreign_def)

lemma alter_foreign:
  "list_ex (foreign me super d)
     (map (\<lambda>j. if foreign me super e j then j\<lparr>job_schedule := s, job_command := c\<rparr> else j) js) \<longleftrightarrow>
   list_ex (foreign me super d) js"
  by (induction js) (auto simp: foreign_def)

lemma schedule_job_foreign:
  "list_ex (foreign me super d) (schedule_job me super e js) \<longleftrightarrow> list_ex (foreign me super d) js"
  by (simp add: schedule_job_def alter_foreign cron_schedule_foreign)

lemma schedule_job_again: "schedule_job me super d (schedule_job me super d js) = schedule_job me super d js"
  by (auto simp: schedule_job_def [of me super d "schedule_job me super d js"] schedule_job_foreign)
    (auto simp: schedule_job_def cron_schedule_again foreign_def)

text \<open>Scheduling one job leaves another one as it is, so what is in place stays so.\<close>

lemma cron_schedule_settled:
  assumes "n \<noteq> m" and "cron_schedule me n s c js = js"
  shows "cron_schedule me n s c (cron_schedule me m t d js) = cron_schedule me m t d js"
  using assms(2)
proof (induction js)
  case (Cons j js)
  then show ?case using assms(1) by (auto split: if_splits)
qed (simp)

lemma cron_schedule_altered:
  assumes "n \<noteq> jd_name e" and "cron_schedule me n s c js = js"
  shows "cron_schedule me n s c (map (\<lambda>j. if foreign me super e j then j\<lparr>job_schedule := t, job_command := d\<rparr> else j) js) =
     map (\<lambda>j. if foreign me super e j then j\<lparr>job_schedule := t, job_command := d\<rparr> else j) js"
  using assms(2)
proof (induction js)
  case (Cons j js)
  then show ?case using assms(1) by (auto simp: foreign_def split: if_splits)
qed (simp)

lemma set_cron_schedule:
  "j \<in> set (cron_schedule me n s c js) \<Longrightarrow> j \<in> set js \<or> job_name j = n"
  by (induction js) (auto split: if_splits)

lemma set_schedule_job:
  assumes "j \<in> set (schedule_job me super e js)"
  shows "j \<in> set js \<or> job_name j = jd_name e"
proof (cases "list_ex (foreign me super e) js")
  case True
  then show ?thesis using assms by (auto simp: schedule_job_def foreign_def)
next
  case False
  then show ?thesis using assms by (auto simp: schedule_job_def dest: set_cron_schedule)
qed

lemma map_fixed: "map f xs = xs \<Longrightarrow> x \<in> set xs \<Longrightarrow> f x = x"
  by (induction xs) auto

lemma schedule_job_settled:
  assumes "jd_name d \<noteq> jd_name e" and "schedule_job me super d js = js"
  shows "schedule_job me super d (schedule_job me super e js) = schedule_job me super e js"
proof (cases "list_ex (foreign me super d) js")
  case True
  let ?f = "\<lambda>j. if foreign me super d j then j\<lparr>job_schedule := jd_schedule d, job_command := jd_command d\<rparr> else j"
  have "map ?f js = js" using assms(2) by (simp only: schedule_job_def True if_True)
  then have fixed: "?f j = j" if "j \<in> set js" for j using that by (rule map_fixed)
  have "?f j = j" if "j \<in> set (schedule_job me super e js)" for j
    using set_schedule_job [OF that]
  proof
    assume "j \<in> set js"
    then show ?thesis by (rule fixed)
  next
    assume "job_name j = jd_name e"
    then show ?thesis using assms(1) by (simp add: foreign_def)
  qed
  then have "map ?f (schedule_job me super e js) = schedule_job me super e js" by (rule map_idI)
  then show ?thesis
    using True schedule_job_foreign [of me super d e js]
    by (simp add: schedule_job_def [of me super d "schedule_job me super e js"])
next
  case False
  then have own: "cron_schedule me (jd_name d) (jd_schedule d) (jd_command d) js = js"
    using assms(2) by (simp add: schedule_job_def)
  have "schedule_job me super d (schedule_job me super e js) =
      cron_schedule me (jd_name d) (jd_schedule d) (jd_command d) (schedule_job me super e js)"
    using False by (simp add: schedule_job_def [of me super d "schedule_job me super e js"] schedule_job_foreign)
  also have "\<dots> = schedule_job me super e js"
    unfolding schedule_job_def [of me super e js]
    using cron_schedule_altered [OF assms(1) own] cron_schedule_settled [OF assms(1) own] by simp
  finally show ?thesis .
qed

text \<open>A job that runs a definition.\<close>

definition runs :: "job_definition \<Rightarrow> job \<Rightarrow> bool" where
  "runs d j \<longleftrightarrow> job_name j = jd_name d \<and> job_schedule j = jd_schedule d \<and> job_command j = jd_command d"

definition in_place :: "string \<Rightarrow> job list option \<Rightarrow> bool" where
  "in_place schema cron \<longleftrightarrow>
     (case cron of None \<Rightarrow> True | Some js \<Rightarrow> list_all (\<lambda>d. list_ex (runs d) js) (job_definitions schema))"

lemma cron_schedule_runs:
  "list_ex (runs d) (cron_schedule me (jd_name d) (jd_schedule d) (jd_command d) js)"
  by (induction js) (auto simp: runs_def)

lemma schedule_job_runs: "list_ex (runs d) (schedule_job me super d js)"
proof (cases "list_ex (foreign me super d) js")
  case True
  then obtain j where "j \<in> set js" "foreign me super d j" by (auto simp: list_ex_iff)
  then have "j\<lparr>job_schedule := jd_schedule d, job_command := jd_command d\<rparr> \<in> set (schedule_job me super d js)"
    using True by (force simp: schedule_job_def)
  moreover have "runs d (j\<lparr>job_schedule := jd_schedule d, job_command := jd_command d\<rparr>)"
    using \<open>foreign me super d j\<close> by (simp add: runs_def foreign_def)
  ultimately show ?thesis by (auto simp: list_ex_iff)
qed (simp add: schedule_job_def cron_schedule_runs)

lemma schedule_job_keeps:
  assumes "jd_name d \<noteq> jd_name e" and "list_ex (runs d) js"
  shows "list_ex (runs d) (schedule_job me super e js)"
proof -
  have "list_ex (runs d) (cron_schedule me (jd_name e) s c js)" for s c
    using assms by (induction js) (auto simp: runs_def)
  moreover have "list_ex (runs d) (map (\<lambda>j. if foreign me super e j then j\<lparr>job_schedule := s, job_command := c\<rparr> else j) js)"
    for s c
    using assms by (auto simp: list_ex_iff runs_def foreign_def)
  ultimately show ?thesis by (simp add: schedule_job_def)
qed

lemma Jobs_in_place: "in_place schema (Jobs me super schema cron)"
proof (cases cron)
  case (Some js)
  obtain d e where defs: "job_definitions schema = [d, e]" "jd_name d \<noteq> jd_name e"
    by (simp add: job_definitions_def)
  have "list_ex (runs d) (schedule_job me super e (schedule_job me super d js))"
    by (rule schedule_job_keeps [OF defs(2) schedule_job_runs])
  then show ?thesis by (simp add: in_place_def Jobs_def Some defs(1) schedule_job_runs)
qed (simp add: in_place_def Jobs_def)

lemma Jobs_again: "Jobs me super schema (Jobs me super schema cron) = Jobs me super schema cron"
proof (cases cron)
  case (Some js)
  obtain d e where defs: "job_definitions schema = [d, e]" "jd_name d \<noteq> jd_name e"
    by (simp add: job_definitions_def)
  have "schedule_job me super d (schedule_job me super e (schedule_job me super d js)) =
      schedule_job me super e (schedule_job me super d js)"
    by (rule schedule_job_settled [OF defs(2) schedule_job_again])
  then show ?thesis by (simp add: Jobs_def Some defs(1) schedule_job_again)
qed (simp add: Jobs_def)

section \<open>The migrations command\<close>

text \<open>
  The database as the migration runner keeps it: the names of the files it ran, and the catalog. The runner is
  golib's, the argument \<open>apply_files\<close>. What the command relies on: a run that succeeds ran the ups of the files
  it had not run, in their order, and records every file.
\<close>

record migrated =
  mg_history :: "string list"
  mg_catalog :: catalog

locale migrator =
  fixes apply_files :: "migration list \<Rightarrow> migrated \<Rightarrow> goerr option \<times> migrated"
    and role :: string
  assumes runs_pending: "apply_files ms s = (None, t) \<Longrightarrow>
      migrate role (filter (\<lambda>m. mig_name m \<notin> set (mg_history s)) ms) (mg_catalog s) = Some (mg_catalog t) \<and>
      set (mg_history t) = set (mg_history s) \<union> set (map mig_name ms)"
begin

lemma nothing_pending:
  assumes "apply_files ms s = (None, t)" and "set (map mig_name ms) \<subseteq> set (mg_history s)"
  shows "mg_catalog t = mg_catalog s"
proof -
  have "filter (\<lambda>m. mig_name m \<notin> set (mg_history s)) ms = []"
    using assms(2) by (auto simp: filter_empty_conv)
  then show ?thesis using runs_pending [OF assms(1)] by (simp add: migrate_def)
qed

end

text \<open>A runner that stops where a file fails, leaving what it ran before.\<close>

fun run_pending :: "string \<Rightarrow> migration list \<Rightarrow> migrated \<Rightarrow> goerr option \<times> migrated" where
  "run_pending me [] s = (None, s)"
| "run_pending me (m # ms) s =
     (if mig_name m \<in> set (mg_history s) then run_pending me ms s
      else case run_file me (mig_up m) (mg_catalog s) of
             None \<Rightarrow> (Some (External ''migration failed''), s)
           | Some c \<Rightarrow> run_pending me ms \<lparr>mg_history = mg_history s @ [mig_name m], mg_catalog = c\<rparr>)"

text \<open>It is a runner for files whose names differ, as file names do.\<close>

definition run_distinct :: "string \<Rightarrow> migration list \<Rightarrow> migrated \<Rightarrow> goerr option \<times> migrated" where
  "run_distinct me ms s =
     (if distinct (map mig_name ms) then run_pending me ms s else (Some (External ''duplicate migration''), s))"

lemma run_pending_runs:
  "run_pending me ms s = (None, t) \<Longrightarrow> distinct (map mig_name ms) \<Longrightarrow>
   migrate me (filter (\<lambda>m. mig_name m \<notin> set (mg_history s)) ms) (mg_catalog s) = Some (mg_catalog t) \<and>
   set (mg_history t) = set (mg_history s) \<union> set (map mig_name ms)"
proof (induction ms arbitrary: s)
  case Nil
  then show ?case by (simp add: migrate_def)
next
  case (Cons m ms)
  show ?case
  proof (cases "mig_name m \<in> set (mg_history s)")
    case True
    then show ?thesis using Cons.IH [of s] Cons.prems by auto
  next
    case False
    then obtain c where up: "run_file me (mig_up m) (mg_catalog s) = Some c"
      and rest: "run_pending me ms \<lparr>mg_history = mg_history s @ [mig_name m], mg_catalog = c\<rparr> = (None, t)"
      using Cons.prems(1) by (auto split: option.splits)
    have "filter (\<lambda>x. mig_name x \<notin> set (mg_history s @ [mig_name m])) ms =
        filter (\<lambda>x. mig_name x \<notin> set (mg_history s)) ms"
      using Cons.prems(2) by (intro filter_cong refl) (auto simp: image_iff)
    then show ?thesis using Cons.IH [OF rest] Cons.prems(2) False up by (auto simp: migrate_def)
  qed
qed

lemma run_pending_all:
  assumes "migrate me ms c = Some d" and "distinct (map mig_name ms)" and "set h \<inter> set (map mig_name ms) = {}"
  shows "run_pending me ms \<lparr>mg_history = h, mg_catalog = c\<rparr> =
     (None, \<lparr>mg_history = h @ map mig_name ms, mg_catalog = d\<rparr>)"
  using assms
proof (induction ms arbitrary: h c)
  case Nil
  then show ?case by (simp add: migrate_def)
next
  case (Cons m ms)
  obtain e where "run_file me (mig_up m) c = Some e" and "migrate me ms e = Some d"
    using Cons.prems(1) by (auto simp: migrate_def split: option.splits)
  then show ?case using Cons.IH [of e "h @ [mig_name m]"] Cons.prems(2,3) by simp
qed

interpretation distinct_files: migrator "run_distinct me" me for me
proof
  show "migrate me (filter (\<lambda>m. mig_name m \<notin> set (mg_history s)) ms) (mg_catalog s) = Some (mg_catalog t) \<and>
      set (mg_history t) = set (mg_history s) \<union> set (map mig_name ms)"
    if "run_distinct me ms s = (None, t)" for ms s t
    using that run_pending_runs by (auto simp: run_distinct_def split: if_splits)
qed

text \<open>
  The command: it connects under the migrations' preset, applies the files, takes the connection back from its
  context and runs the jobs. It panics with the first error.
\<close>

definition migrations_main ::
  "('o postgres_preset \<Rightarrow> goerr option) \<Rightarrow> (migration list \<Rightarrow> migrated \<Rightarrow> goerr option \<times> migrated) \<Rightarrow> goerr option \<Rightarrow>
   goerr option \<Rightarrow> (postgres_connection \<Rightarrow> goerr + 'o list) \<Rightarrow> environment \<Rightarrow> string \<Rightarrow> bool \<Rightarrow> string \<Rightarrow> migrated \<Rightarrow>
   goerr option \<times> migrated" where
  "migrations_main connect apply_files GetContext executing connection_options env me super schema s =
     (case PostgresPresetMigrations connection_options env of
        Inl err \<Rightarrow> (Some err, s)
      | Inr preset \<Rightarrow>
          (case connect preset of
             Some err \<Rightarrow> (Some err, s)
           | None \<Rightarrow>
               (case apply_files (migrations schema) s of
                  (Some err, t) \<Rightarrow> (Some err, t)
                | (None, t) \<Rightarrow>
                    (case GetContext of
                       Some err \<Rightarrow> (Some err, t)
                     | None \<Rightarrow>
                         (case executing of
                            Some err \<Rightarrow> (Some err, t)
                          | None \<Rightarrow>
                              (None,
                               t\<lparr>mg_catalog :=
                                   (mg_catalog t)\<lparr>cat_cron := Jobs me super schema (cat_cron (mg_catalog t))\<rparr>\<rparr>))))))"

lemma migrations_main_ends:
  assumes "migrations_main connect apply_files GetContext executing connection_options env me super schema s = (None, t)"
  obtains r where "apply_files (migrations schema) s = (None, r)"
    and "t = r\<lparr>mg_catalog := (mg_catalog r)\<lparr>cat_cron := Jobs me super schema (cat_cron (mg_catalog r))\<rparr>\<rparr>"
  using assms by (auto simp: migrations_main_def split: sum.splits option.splits prod.splits)

lemma distinct_migrations: "distinct (map mig_name (migrations schema))"
  by (simp add: migrations_def table_migrations_def purge_migrations_def index_migrations_def drop_migrations_def)

lemma filter_drop:
  assumes "distinct (map f xs)"
  shows "filter (\<lambda>x. f x \<notin> set (map f (take k xs))) xs = drop k xs"
  using assms
proof (induction xs arbitrary: k)
  case (Cons x xs)
  show ?case
  proof (cases k)
    case 0
    then show ?thesis by simp
  next
    case (Suc j)
    have "filter (\<lambda>y. f y \<notin> set (map f (take (Suc j) (x # xs)))) xs = filter (\<lambda>y. f y \<notin> set (map f (take j xs))) xs"
      using Cons.prems by (intro filter_cong refl) (auto simp: image_iff)
    then show ?thesis using Cons.IH [of j] Cons.prems Suc by simp
  qed
qed simp

lemma migrate_without_cron: "migrate me ms (without_cron c) = map_option without_cron (migrate me ms c)"
  by (simp add: migrate_def each_without_cron run_file_without_cron)

lemma finish_migrations:
  assumes "migrate me (take k (migrations schema)) (new_database False) = Some (without_cron c)"
    and "migrate me (drop k (migrations schema)) c = Some d"
  shows "without_cron d = last_schema me schema False"
proof -
  have "migrate me (drop k (migrations schema)) (without_cron c) = Some (without_cron d)"
    using assms(2) by (simp add: migrate_without_cron)
  then have "migrate me (take k (migrations schema) @ drop k (migrations schema)) (new_database False) =
      Some (without_cron d)"
    using assms(1) by (simp add: migrate_def each_append del: append_take_drop_id)
  then show ?thesis using migrations_build [of me schema False] by simp
qed

section \<open>Properties\<close>

text \<open>C38: Run on a database at any version, the command that succeeds leaves the last schema in place and a job that
runs each definition, whatever jobs the database had; run again, it changes nothing.\<close>

theorem migrations_command_in_place:
  assumes "migrator apply_files me"
    and "migrations_main connect apply_files GetContext executing connection_options env me super schema s = (None, t)"
    and "set (mg_history s) = set (map mig_name (take k (migrations schema)))"
    and "migrate me (take k (migrations schema)) (new_database False) = Some (without_cron (mg_catalog s))"
  shows "without_cron (mg_catalog t) = last_schema me schema False \<and>
     in_place schema (cat_cron (mg_catalog t)) \<and>
     (migrations_main connect apply_files GetContext executing connection_options env me super schema t = (None, u) \<longrightarrow>
        mg_catalog u = mg_catalog t)"
proof -
  obtain r where applied: "apply_files (migrations schema) s = (None, r)"
    and t: "t = r\<lparr>mg_catalog := (mg_catalog r)\<lparr>cat_cron := Jobs me super schema (cat_cron (mg_catalog r))\<rparr>\<rparr>"
    by (rule migrations_main_ends [OF assms(2)])
  have "migrate me (drop k (migrations schema)) (mg_catalog s) = Some (mg_catalog r)"
    using migrator.runs_pending [OF assms(1) applied] filter_drop [OF distinct_migrations] assms(3) by metis
  then have "without_cron (mg_catalog r) = last_schema me schema False" by (rule finish_migrations [OF assms(4)])
  moreover have "mg_catalog u = mg_catalog t"
    if again: "migrations_main connect apply_files GetContext executing connection_options env me super schema t = (None, u)"
  proof -
    obtain v where second: "apply_files (migrations schema) t = (None, v)"
      and u: "u = v\<lparr>mg_catalog := (mg_catalog v)\<lparr>cat_cron := Jobs me super schema (cat_cron (mg_catalog v))\<rparr>\<rparr>"
      by (rule migrations_main_ends [OF again])
    have "set (map mig_name (migrations schema)) \<subseteq> set (mg_history t)"
      using migrator.runs_pending [OF assms(1) applied] t by auto
    then have "mg_catalog v = mg_catalog t" by (rule migrator.nothing_pending [OF assms(1) second])
    then show ?thesis using t u by (simp add: Jobs_again)
  qed
  ultimately show ?thesis using t by (simp add: Jobs_in_place)
qed

lemma migrations_command_in_place_witness:
  "\<exists>t. migrations_main (\<lambda>preset. None) (run_distinct ''genai'') None None (\<lambda>connection. Inr ([] :: unit list))
       (load_environment sample_env_library (\<lambda>name. [])) ''genai'' True ''public''
       \<lparr>mg_history = [], mg_catalog = new_database False\<rparr> = (None, t) \<and>
     without_cron (mg_catalog t) = last_schema ''genai'' ''public'' False"
proof -
  let ?env = "load_environment sample_env_library (\<lambda>name. [])"
  let ?s = "\<lparr>mg_history = [], mg_catalog = new_database False\<rparr>"
  let ?main = "migrations_main (\<lambda>preset. None) (run_distinct ''genai'') None None (\<lambda>connection. Inr ([] :: unit list)) ?env
      ''genai'' True ''public''"
  have "run_distinct ''genai'' (migrations ''public'') ?s =
      (None, \<lparr>mg_history = map mig_name (migrations ''public''), mg_catalog = last_schema ''genai'' ''public'' False\<rparr>)"
    using run_pending_all [OF migrations_build distinct_migrations, where h = "[]"] distinct_migrations
    by (simp add: run_distinct_def)
  then obtain t where main: "?main ?s = (None, t)"
    by (simp add: migrations_main_def PostgresPresetMigrations_def NewPostgresPreset_def Let_def)
  have empty: "migrate ''genai'' (take 0 (migrations ''public'')) (new_database False) = Some (without_cron (mg_catalog ?s))"
    by (simp add: migrate_def new_database_def)
  have "without_cron (mg_catalog t) = last_schema ''genai'' ''public'' False"
    using migrations_command_in_place [OF distinct_files.migrator_axioms main, where k = 0] empty by simp
  then show ?thesis using main by blast
qed

end
